(* ===== verification/Prelude.thy ===== *)
theory Prelude
  imports Main
begin

text \<open>
  What every component of the model shares.

  A JavaScript string is a sequence of UTF-16 code units.  The model keeps exactly that: a
  \<open>jstr\<close> is a list of code units (natural numbers).  ASCII literals are written
  \<open>lit ''...''\<close>; literals of the page that are Chinese text are written as lists of
  hexadecimal code units with the meaning in a comment.  The string operations below are the
  ones of the standard library that the page calls, on the inputs it gives them.

  A file's content is a list of octets (\<open>byte\<close>).  Sizes and offsets are natural numbers: in
  the page they are integral JavaScript numbers, far below 2^53.
\<close>

section \<open>Collections used by the component proofs\<close>

named_theorems js_eval \<open>unfolding rules that evaluate closed strings\<close>
named_theorems upload_simps \<open>equations of the upload service\<close>
named_theorems page_simps \<open>frame equations of the page's handlers\<close>

section \<open>Strings\<close>

type_synonym jchar = nat
type_synonym jstr = "jchar list"
type_synonym byte = nat

definition lit :: "string \<Rightarrow> jstr" where
  "lit s = map of_char s"

lemma lit_Nil [simp]: "lit [] = []"
  by (simp add: lit_def)

lemma lit_Cons [js_eval]: "lit (c # s) = of_char c # lit s"
  by (simp add: lit_def)

lemma lit_append: "lit (s @ t) = lit s @ lit t"
  by (simp add: lit_def)

lemma lit_eq_Nil [simp]: "(lit s = []) = (s = [])"
  by (simp add: lit_def)

text \<open>\<open>s || d\<close> on a string: the empty string is falsy.\<close>

definition or_default :: "jstr \<Rightarrow> jstr \<Rightarrow> jstr" where
  "or_default s d = (if s = [] then d else s)"

lemma or_default_simps [simp]:
  "or_default [] d = d"
  "s \<noteq> [] \<Longrightarrow> or_default s d = s"
  by (simp_all add: or_default_def)

text \<open>\<open>x?.f || d\<close> where the field may be missing.\<close>

fun opt_or :: "jstr option \<Rightarrow> jstr \<Rightarrow> jstr" where
  "opt_or None d = d"
| "opt_or (Some s) d = or_default s d"

definition startsWith :: "jstr \<Rightarrow> jstr \<Rightarrow> bool" where
  "startsWith s p = (take (length p) s = p)"

fun contains_str :: "jstr \<Rightarrow> jstr \<Rightarrow> bool" where
  "contains_str [] p = (p = [])"
| "contains_str (c # s) p = (startsWith (c # s) p \<or> contains_str s p)"

text \<open>\<open>s.replaceAll(c, r)\<close> for a pattern of one code unit and a replacement without \<open>$\<close>.\<close>

definition replaceAll :: "jchar \<Rightarrow> jstr \<Rightarrow> jstr \<Rightarrow> jstr" where
  "replaceAll c r s = concat (map (\<lambda>x. if x = c then r else [x]) s)"

lemma replaceAll_Nil [simp]: "replaceAll c r [] = []"
  by (simp add: replaceAll_def)

lemma replaceAll_Cons [simp]:
  "replaceAll c r (x # s) = (if x = c then r else [x]) @ replaceAll c r s"
  by (simp add: replaceAll_def)

lemma replaceAll_append [simp]: "replaceAll c r (s @ t) = replaceAll c r s @ replaceAll c r t"
  by (simp add: replaceAll_def)

lemma replaceAll_id: "c \<notin> set s \<Longrightarrow> replaceAll c r s = s"
  by (induction s) auto

text \<open>\<open>s.replace(p, r)\<close> for a string pattern: the first occurrence only.\<close>

fun replaceFirst :: "jstr \<Rightarrow> jstr \<Rightarrow> jstr \<Rightarrow> jstr" where
  "replaceFirst p r [] = (if p = [] then r else [])"
| "replaceFirst p r (c # s) =
     (if startsWith (c # s) p then r @ drop (length p) (c # s) else c # replaceFirst p r s)"

text \<open>The code units \<open>trim\<close> strips (WhiteSpace and LineTerminator).\<close>

definition is_space :: "jchar \<Rightarrow> bool" where
  "is_space c = (c \<in> {9, 10, 11, 12, 13, 32, 0xA0, 0x1680, 0x2028, 0x2029, 0x202F, 0x205F,
     0x3000, 0xFEFF} \<or> (0x2000 \<le> c \<and> c \<le> 0x200A))"

definition trim :: "jstr \<Rightarrow> jstr" where
  "trim s = rev (dropWhile is_space (rev (dropWhile is_space s)))"

lemma trim_Nil [simp]: "trim [] = []"
  by (simp add: trim_def)

lemma dropWhile_rev_hd:
  assumes "s \<noteq> []" and "\<not> P (hd s)"
  shows "rev (dropWhile P (rev s)) \<noteq> []" and "hd (rev (dropWhile P (rev s))) = hd s"
proof -
  from assms obtain c t where "s = c # t" and "\<not> P c" by (cases s) auto
  then show "rev (dropWhile P (rev s)) \<noteq> []" and "hd (rev (dropWhile P (rev s))) = hd s"
    by (auto simp: dropWhile_append)
qed

lemma trim_hd:
  assumes "trim s \<noteq> []"
  shows "\<not> is_space (hd (trim s))"
proof -
  let ?t = "dropWhile is_space s"
  from assms have t: "?t \<noteq> []" unfolding trim_def by fastforce
  then have "\<not> is_space (hd ?t)" by (rule hd_dropWhile)
  with dropWhile_rev_hd(2) [of ?t is_space] t show ?thesis by (simp add: trim_def)
qed

lemma trim_last: "trim s \<noteq> [] \<Longrightarrow> \<not> is_space (last (trim s))"
  unfolding trim_def by (metis hd_dropWhile last_rev rev_is_Nil_conv)

lemma trim_idem [simp]: "trim (trim s) = trim s"
proof (cases "trim s = []")
  case False
  have "dropWhile is_space (trim s) = trim s"
    using trim_hd [OF False] False by (cases "trim s") auto
  moreover have "dropWhile is_space (rev (trim s)) = rev (trim s)"
    using trim_last [OF False] False by (cases "rev (trim s)") (auto simp: last_rev)
  ultimately show ?thesis by (simp add: trim_def [of "trim s"])
qed simp

text \<open>
  \<open>toLowerCase\<close> on the ASCII range, which is what it meets here: the User-Agent string and a
  URL's host name.
\<close>

definition lower_char :: "jchar \<Rightarrow> jchar" where
  "lower_char c = (if 65 \<le> c \<and> c \<le> 90 then c + 32 else c)"

definition upper_char :: "jchar \<Rightarrow> jchar" where
  "upper_char c = (if 97 \<le> c \<and> c \<le> 122 then c - 32 else c)"

definition toLowerCase :: "jstr \<Rightarrow> jstr" where
  "toLowerCase s = map lower_char s"

definition toUpperCase :: "jstr \<Rightarrow> jstr" where
  "toUpperCase s = map upper_char s"

definition is_digit :: "jchar \<Rightarrow> bool" where
  "is_digit c = (48 \<le> c \<and> c \<le> 57)"

definition is_hex :: "jchar \<Rightarrow> bool" where
  "is_hex c = (48 \<le> c \<and> c \<le> 57 \<or> 97 \<le> c \<and> c \<le> 102)"

definition is_alnum :: "jchar \<Rightarrow> bool" where
  "is_alnum c = (48 \<le> c \<and> c \<le> 57 \<or> 97 \<le> c \<and> c \<le> 122 \<or> 65 \<le> c \<and> c \<le> 90)"

text \<open>\<open>xs.join(sep)\<close>.\<close>

fun join :: "jstr \<Rightarrow> jstr list \<Rightarrow> jstr" where
  "join sep [] = []"
| "join sep [s] = s"
| "join sep (s # t # ss) = s @ sep @ join sep (t # ss)"

section \<open>Numbers as text\<close>

text \<open>\<open>String(n)\<close> for a natural number: decimal digits, most significant first.\<close>

fun show_nat :: "nat \<Rightarrow> jstr" where
  "show_nat n = (if n < 10 then [48 + n] else show_nat (n div 10) @ [48 + n mod 10])"

declare show_nat.simps [simp del]

lemma show_nat_small: "n < 10 \<Longrightarrow> show_nat n = [48 + n]"
  by (simp add: show_nat.simps [of n])

lemma show_nat_big: "\<not> n < 10 \<Longrightarrow> show_nat n = show_nat (n div 10) @ [48 + n mod 10]"
  by (simp add: show_nat.simps [of n])

lemma show_nat_digits: "c \<in> set (show_nat n) \<Longrightarrow> is_digit c"
proof (induction n rule: show_nat.induct)
  case (1 n)
  show ?case
  proof (cases "n < 10")
    case True
    with 1 show ?thesis by (simp add: show_nat_small is_digit_def)
  next
    case False
    have "n mod 10 < 10" by simp
    with 1 False show ?thesis by (auto simp: show_nat_big is_digit_def)
  qed
qed

lemma show_nat_nonempty [simp]: "show_nat n \<noteq> []"
  by (cases "n < 10") (simp_all add: show_nat_small show_nat_big)

definition read_digits :: "jstr \<Rightarrow> nat" where
  "read_digits s = foldl (\<lambda>n c. 10 * n + (c - 48)) 0 s"

lemma read_show_nat [simp]: "read_digits (show_nat n) = n"
proof (induction n rule: show_nat.induct)
  case (1 n)
  show ?case
  proof (cases "n < 10")
    case True
    then show ?thesis by (simp add: show_nat_small read_digits_def)
  next
    case False
    with 1 show ?thesis by (simp add: show_nat_big read_digits_def)
  qed
qed

lemma show_nat_inject [simp]: "show_nat m = show_nat n \<longleftrightarrow> m = n"
  by (metis read_show_nat)

section \<open>Files and lists\<close>

text \<open>\<open>file.slice(from, to)\<close> for natural bounds.\<close>

definition slice :: "'a list \<Rightarrow> nat \<Rightarrow> nat \<Rightarrow> 'a list" where
  "slice xs i j = take (j - i) (drop i xs)"

lemma length_slice [simp]: "length (slice xs i j) = min (j - i) (length xs - i)"
  by (simp add: slice_def)

lemma take_append_slice: "i \<le> j \<Longrightarrow> take i xs @ slice xs i j = take j xs"
  unfolding slice_def by (metis le_add_diff_inverse take_add)

lemma slice_empty [simp]: "j \<le> i \<Longrightarrow> slice xs i j = []"
  by (simp add: slice_def)

end
