(* ===== verification/Markup.thy ===== *)
theory Markup
  imports Prelude
begin

text \<open>
  Escaping (\<open>escapeHTML\<close>, \<open>escapeAttr\<close> of web/static/app.js) and what a browser makes of
  the escaped text: a decoder of the character references the two functions write, and a small
  scanner of HTML source with three modes (character data, inside a tag, inside a double-quoted
  attribute value).  The scanner's \<open>skel\<close> is the markup of a text: its tags and attribute
  names, without character data and attribute values.  A template is safe when its markup does
  not depend on the user's strings.
\<close>

section \<open>The code\<close>

definition escapeHTML :: "jstr \<Rightarrow> jstr" where
  "escapeHTML str =
     replaceAll 34 (lit ''&quot;'')
      (replaceAll 62 (lit ''&gt;'')
       (replaceAll 60 (lit ''&lt;'')
        (replaceAll 38 (lit ''&amp;'') str)))"

definition escapeAttr :: "jstr \<Rightarrow> jstr" where
  "escapeAttr str =
     replaceAll 39 (lit ''&#39;'')
      (replaceAll 60 (lit ''&lt;'')
       (replaceAll 34 (lit ''&quot;'')
        (replaceAll 38 (lit ''&amp;'') str)))"

section \<open>Escaping is character-wise\<close>

text \<open>
  The four passes run one after the other, and the text of one pass is the input of the next.
  Replacing \<open>&\<close> first is what makes them equal to one substitution per character.
\<close>

definition esc_html_char :: "jchar \<Rightarrow> jstr" where
  "esc_html_char c =
     (if c = 38 then lit ''&amp;'' else if c = 60 then lit ''&lt;''
      else if c = 62 then lit ''&gt;'' else if c = 34 then lit ''&quot;'' else [c])"

definition esc_attr_char :: "jchar \<Rightarrow> jstr" where
  "esc_attr_char c =
     (if c = 38 then lit ''&amp;'' else if c = 34 then lit ''&quot;''
      else if c = 60 then lit ''&lt;'' else if c = 39 then lit ''&#39;'' else [c])"

lemma escapeHTML_Nil [simp]: "escapeHTML [] = []"
  by (simp add: escapeHTML_def)

lemma escapeAttr_Nil [simp]: "escapeAttr [] = []"
  by (simp add: escapeAttr_def)

lemma escapeHTML_Cons: "escapeHTML (c # s) = esc_html_char c @ escapeHTML s"
  by (simp add: escapeHTML_def esc_html_char_def js_eval)

lemma escapeAttr_Cons: "escapeAttr (c # s) = esc_attr_char c @ escapeAttr s"
  by (simp add: escapeAttr_def esc_attr_char_def js_eval)

lemma escapeHTML_chars: "escapeHTML s = concat (map esc_html_char s)"
  by (induction s) (simp_all add: escapeHTML_Cons)

lemma escapeAttr_chars: "escapeAttr s = concat (map esc_attr_char s)"
  by (induction s) (simp_all add: escapeAttr_Cons)

lemma escapeHTML_append [simp]: "escapeHTML (s @ t) = escapeHTML s @ escapeHTML t"
  by (simp add: escapeHTML_chars)

lemma escapeHTML_eq_Nil [simp]: "escapeHTML s = [] \<longleftrightarrow> s = []"
  by (cases s) (auto simp: escapeHTML_Cons esc_html_char_def)

lemma escapeHTML_special:
  "60 \<notin> set (escapeHTML s)" "62 \<notin> set (escapeHTML s)" "34 \<notin> set (escapeHTML s)"
  by (induction s) (simp_all add: escapeHTML_Cons esc_html_char_def js_eval)

lemma escapeAttr_special:
  "60 \<notin> set (escapeAttr s)" "34 \<notin> set (escapeAttr s)" "39 \<notin> set (escapeAttr s)"
  by (induction s) (simp_all add: escapeAttr_Cons esc_attr_char_def js_eval)

section \<open>Decoding character references\<close>

fun html_decode :: "jstr \<Rightarrow> jstr" where
  "html_decode [] = []"
| "html_decode (c # s) =
     (if c \<noteq> 38 then c # html_decode s
      else if startsWith s (lit ''amp;'') then 38 # html_decode (drop 4 s)
      else if startsWith s (lit ''lt;'') then 60 # html_decode (drop 3 s)
      else if startsWith s (lit ''gt;'') then 62 # html_decode (drop 3 s)
      else if startsWith s (lit ''quot;'') then 34 # html_decode (drop 5 s)
      else if startsWith s (lit ''#39;'') then 39 # html_decode (drop 4 s)
      else c # html_decode s)"

lemma html_decode_esc_html: "html_decode (esc_html_char c @ s) = c # html_decode s"
  by (simp add: esc_html_char_def startsWith_def js_eval)

lemma html_decode_esc_attr: "html_decode (esc_attr_char c @ s) = c # html_decode s"
  by (simp add: esc_attr_char_def startsWith_def js_eval)

text \<open>
  Escaping loses nothing and changes nothing the reader sees: a browser that decodes the
  character references in the escaped text gets back the string it was made from, for element
  content (\<open>escapeHTML\<close>) and for attribute values (\<open>escapeAttr\<close>), whatever the user typed,
  text that already looks like a reference included.
\<close>

theorem escape_roundtrip:
  "html_decode (escapeHTML s) = s \<and> html_decode (escapeAttr s) = s"
proof
  show "html_decode (escapeHTML s) = s"
    by (induction s) (simp_all only: escapeHTML_Nil escapeHTML_Cons html_decode_esc_html html_decode.simps(1))
  show "html_decode (escapeAttr s) = s"
    by (induction s) (simp_all only: escapeAttr_Nil escapeAttr_Cons html_decode_esc_attr html_decode.simps(1))
qed

section \<open>The scanner\<close>

datatype html_mode = Data | InTag | InAttr

fun hstep :: "html_mode \<Rightarrow> jchar \<Rightarrow> html_mode" where
  "hstep Data c = (if c = 60 then InTag else Data)"
| "hstep InTag c = (if c = 34 then InAttr else if c = 62 then Data else InTag)"
| "hstep InAttr c = (if c = 34 then InTag else InAttr)"

fun hrun :: "html_mode \<Rightarrow> jstr \<Rightarrow> html_mode" where
  "hrun m [] = m"
| "hrun m (c # s) = hrun (hstep m c) s"

text \<open>Whether a character is markup: tag text, \<open><\<close> and the quotes of an attribute value.\<close>

fun is_markup :: "html_mode \<Rightarrow> jchar \<Rightarrow> bool" where
  "is_markup Data c = (c = 60)"
| "is_markup InTag c = True"
| "is_markup InAttr c = (c = 34)"

fun skel :: "html_mode \<Rightarrow> jstr \<Rightarrow> jstr" where
  "skel m [] = []"
| "skel m (c # s) = (if is_markup m c then c # skel (hstep m c) s else skel (hstep m c) s)"

lemma hrun_append [simp]: "hrun m (s @ t) = hrun (hrun m s) t"
  by (induction s arbitrary: m) simp_all

lemma skel_append [simp]: "skel m (s @ t) = skel m s @ skel (hrun m s) t"
  by (induction s arbitrary: m) simp_all

text \<open>Text that can stand in a mode without leaving it or adding markup.\<close>

definition inert :: "html_mode \<Rightarrow> jstr \<Rightarrow> bool" where
  "inert m s \<longleftrightarrow> hrun m s = m \<and> skel m s = []"

lemma inert_hrun: "inert m s \<Longrightarrow> hrun m s = m"
  and inert_skel: "inert m s \<Longrightarrow> skel m s = []"
  by (simp_all add: inert_def)

lemma inert_Data: "60 \<notin> set s \<Longrightarrow> inert Data s"
  unfolding inert_def by (induction s) auto

lemma inert_InAttr: "34 \<notin> set s \<Longrightarrow> inert InAttr s"
  unfolding inert_def by (induction s) auto

lemma inert_append [intro]: "inert m s \<Longrightarrow> inert m t \<Longrightarrow> inert m (s @ t)"
  by (simp add: inert_def)

lemma inert_escapeHTML [simp]: "inert Data (escapeHTML s)" "inert InAttr (escapeHTML s)"
  by (simp_all add: inert_Data inert_InAttr escapeHTML_special)

lemma inert_escapeAttr [simp]: "inert InAttr (escapeAttr s)"
  by (simp add: inert_InAttr escapeAttr_special)

lemma is_digit_inert:
  assumes "\<forall>c \<in> set s. is_digit c"
  shows "inert Data s" and "inert InAttr s"
  using assms by (auto intro!: inert_Data inert_InAttr simp: is_digit_def)

lemma inert_show_nat [simp]: "inert Data (show_nat n)" "inert InAttr (show_nat n)"
  by (auto intro!: is_digit_inert dest: show_nat_digits)

lemmas inert_simps [simp] =
  inert_hrun [OF inert_escapeHTML(1)] inert_skel [OF inert_escapeHTML(1)]
  inert_hrun [OF inert_escapeHTML(2)] inert_skel [OF inert_escapeHTML(2)]
  inert_hrun [OF inert_escapeAttr] inert_skel [OF inert_escapeAttr]
  inert_hrun [OF inert_show_nat(1)] inert_skel [OF inert_show_nat(1)]
  inert_hrun [OF inert_show_nat(2)] inert_skel [OF inert_show_nat(2)]

end
