(* ===== verification/Platform.thy ===== *)
theory Platform
  imports Markup
begin

text \<open>
  Platforms of web/static/app.js: the table \<open>platformUI\<close> with its lookup \<open>platformOf\<close>, the
  User-Agent test \<open>detectPlatform\<close>, and the SVG and avatar templates built from them.

  The table is a plain JavaScript object, so \<open>platformUI[key]\<close> also finds the properties every
  object inherits from \<open>Object.prototype\<close>.  Those values are truthy and have none of the table's
  fields: \<open>platformOf\<close> lets such a key through, and the fields read from it are \<open>undefined\<close>,
  which a template string prints as the word.
\<close>

section \<open>The table\<close>

record platform_ui =
  ui_label :: jstr
  ui_icon :: jstr
  ui_defaultName :: jstr
  ui_namePlaceholder :: jstr

definition platform_table :: "(jstr \<times> platform_ui) list" where
  "platform_table =
    [(lit ''android'', \<lparr>ui_label = lit ''Android'', ui_icon = lit ''phone'',
        ui_defaultName = (lit ''Android '' @ [0x8BBE, 0x5907]),
        ui_namePlaceholder = [0x4F8B, 0x5982, 0xFF1A, 0x5C0F, 0x660E, 0x7684, 0x624B, 0x673A]\<rparr>),
     (lit ''ios'', \<lparr>ui_label = lit ''iOS'', ui_icon = lit ''phone'',
        ui_defaultName = (lit ''iPhone / iPad''),
        ui_namePlaceholder = ([0x4F8B, 0x5982, 0xFF1A, 0x5C0F, 0x7EA2, 0x7684] @ lit '' iPhone'')\<rparr>),
     (lit ''windows'', \<lparr>ui_label = lit ''Windows'', ui_icon = lit ''desktop'',
        ui_defaultName = (lit ''Windows PC''),
        ui_namePlaceholder = [0x4F8B, 0x5982, 0xFF1A, 0x5BA2, 0x5385, 0x53F0, 0x5F0F, 0x673A]\<rparr>),
     (lit ''linux'', \<lparr>ui_label = lit ''Linux'', ui_icon = lit ''laptop'',
        ui_defaultName = (lit ''Linux '' @ [0x8BBE, 0x5907]),
        ui_namePlaceholder = ([0x4F8B, 0x5982, 0xFF1A] @ lit ''arch-pc'')\<rparr>),
     (lit ''macos'', \<lparr>ui_label = lit ''macOS'', ui_icon = lit ''laptop'',
        ui_defaultName = (lit ''Mac''),
        ui_namePlaceholder = ([0x4F8B, 0x5982, 0xFF1A] @ lit ''MacBook'')\<rparr>),
     (lit ''unknown'', \<lparr>ui_label = [0x672A, 0x77E5, 0x7CFB, 0x7EDF], ui_icon = lit ''desktop'',
        ui_defaultName = [0x6211, 0x7684, 0x8BBE, 0x5907],
        ui_namePlaceholder = [0x4F8B, 0x5982, 0xFF1A, 0x6211, 0x7684, 0x8BBE, 0x5907]\<rparr>)]"

definition platformUI :: "jstr \<Rightarrow> platform_ui option" where
  "platformUI = map_of platform_table"

text \<open>The names every object literal inherits.\<close>

definition object_prototype_names :: "jstr list" where
  "object_prototype_names = map lit
     [''constructor'', ''__defineGetter__'', ''__defineSetter__'', ''hasOwnProperty'',
      ''__lookupGetter__'', ''__lookupSetter__'', ''isPrototypeOf'', ''propertyIsEnumerable'',
      ''toString'', ''valueOf'', ''__proto__'', ''toLocaleString'']"

definition platformOf :: "jstr option \<Rightarrow> jstr" where
  "platformOf key =
     (case key of
        None \<Rightarrow> lit ''unknown''
      | Some k \<Rightarrow> if platformUI k \<noteq> None \<or> k \<in> set object_prototype_names then k else lit ''unknown'')"

text \<open>\<open>platformUI[k].f\<close> in a template string.\<close>

definition ui_text :: "(platform_ui \<Rightarrow> jstr) \<Rightarrow> jstr \<Rightarrow> jstr" where
  "ui_text f k = (case platformUI k of Some u \<Rightarrow> f u | None \<Rightarrow> lit ''undefined'')"

definition detectPlatform :: "jstr \<Rightarrow> jstr" where
  "detectPlatform userAgent =
     (let ua = toLowerCase userAgent in
      if contains_str ua (lit ''android'') then lit ''android''
      else if contains_str ua (lit ''iphone'') \<or> contains_str ua (lit ''ipad'')
           \<or> contains_str ua (lit ''ipod'') then lit ''ios''
      else if contains_str ua (lit ''windows'') then lit ''windows''
      else if contains_str ua (lit ''mac os'') \<or> contains_str ua (lit ''macintosh'') then lit ''macos''
      else if contains_str ua (lit ''linux'') then lit ''linux''
      else lit ''unknown'')"

definition defaultDeviceName :: "jstr \<Rightarrow> jstr" where
  "defaultDeviceName userAgent =
     (case platformUI (detectPlatform userAgent) of
        Some u \<Rightarrow> ui_defaultName u
      | None \<Rightarrow> ui_text ui_defaultName (lit ''unknown''))"

text \<open>\<open>isMobilePlatform\<close> and \<open>needsBlobDownload\<close> read the platform the page stored at start.\<close>

definition isMobilePlatform :: "jstr \<Rightarrow> bool" where
  "isMobilePlatform p = (p = lit ''android'' \<or> p = lit ''ios'')"

definition needsBlobDownload :: "jstr \<Rightarrow> bool" where
  "needsBlobDownload p = (p = lit ''linux'')"

section \<open>Templates\<close>

text \<open>A line break followed by \<open>k\<close> spaces.\<close>

definition nl :: "nat \<Rightarrow> jstr" where
  "nl k = 10 # replicate k 32"

definition iconSVG :: "jstr \<Rightarrow> jstr" where
  \<open>iconSVG name =
     lit ''<svg class="icon" aria-hidden="true"><use href="#i-'' @ name @ lit ''"/></svg>''\<close>

definition avatarHTML :: "jstr option \<Rightarrow> jstr \<Rightarrow> bool \<Rightarrow> jstr" where
  \<open>avatarHTML platform sz presence =
     (let key = platformOf platform in
      lit ''<span class="avatar'' @ (if sz \<noteq> [] then lit '' avatar-'' @ sz else []) @
      lit ''" title="'' @ ui_text ui_label key @ lit ''">'' @
      iconSVG (ui_text ui_icon key) @
      (if presence then lit ''<span class="presence"></span>'' else []) @ lit ''</span>'')\<close>

text \<open>
  \<open>/\.([a-z0-9]{1,8})$/i\<close>: one to eight letters or digits at the end, after a dot.
\<close>

definition file_ext :: "jstr \<Rightarrow> jstr option" where
  "file_ext name =
     (let r = rev name; e = takeWhile is_alnum r in
      if 1 \<le> length e \<and> length e \<le> 8 \<and> take 1 (drop (length e) r) = [46]
      then Some (rev e) else None)"

definition file_label :: "jstr \<Rightarrow> jstr" where
  "file_label name =
     toUpperCase (take 4 (case file_ext name of Some e \<Rightarrow> e | None \<Rightarrow> lit ''file''))"

definition fileIconSVG :: "jstr \<Rightarrow> jstr" where
  \<open>fileIconSVG name =
     (let label = file_label name;
          fontSize = (if length label > 3 then 7 else 8) in
      lit ''<svg class="ficon" viewBox="0 0 36 44" aria-hidden="true">'' @ nl 4 @
      lit ''<path class="ficon-body" d="M7 1.5h15.5l9 9V39a3.5 3.5 0 0 1-3.5 3.5H7A3.5 3.5 0 0 1 3.5 39V5A3.5 3.5 0 0 1 7 1.5z"/>'' @ nl 4 @
      lit ''<path class="ficon-fold" d="M22.5 1.5V7a3.5 3.5 0 0 0 3.5 3.5h5.5"/>'' @ nl 4 @
      lit ''<text class="ficon-text" x="17.5" y="30" text-anchor="middle" font-size="'' @
      show_nat fontSize @ lit ''">'' @ escapeHTML label @ lit ''</text>'' @ nl 2 @ lit ''</svg>'')\<close>

section \<open>Lookups\<close>

lemma platform_keys:
  "platformUI k \<noteq> None \<longleftrightarrow>
   k \<in> {lit ''android'', lit ''ios'', lit ''windows'', lit ''linux'', lit ''macos'', lit ''unknown''}"
  by (simp add: platformUI_def platform_table_def)

lemma detectPlatform_known: "platformUI (detectPlatform ua) \<noteq> None"
  unfolding platform_keys detectPlatform_def Let_def by simp

text \<open>Every field the templates read is plain text without markup characters.\<close>

lemma platform_table_cases:
  assumes "platformUI k = Some u"
  shows "u \<in> snd ` set platform_table"
  using assms unfolding platformUI_def by (force dest: map_of_SomeD)

lemma ui_label_plain: "34 \<notin> set (ui_text ui_label k)" "60 \<notin> set (ui_text ui_label k)"
  unfolding ui_text_def
  by (auto split: option.splits dest!: platform_table_cases simp: platform_table_def js_eval)

lemma ui_icon_plain: "34 \<notin> set (ui_text ui_icon k)"
  unfolding ui_text_def
  by (auto split: option.splits dest!: platform_table_cases simp: platform_table_def js_eval)

lemma inert_ui [simp]:
  "inert InAttr (ui_text ui_label k)" "inert Data (ui_text ui_label k)" "inert InAttr (ui_text ui_icon k)"
  by (simp_all add: inert_InAttr inert_Data ui_label_plain ui_icon_plain)

lemma inert_nl [simp]: "inert Data (nl k)" "inert InAttr (nl k)"
  by (auto intro!: inert_Data inert_InAttr simp: nl_def)

lemmas inert_platform_simps [simp] =
  inert_hrun [OF inert_ui(1)] inert_skel [OF inert_ui(1)]
  inert_hrun [OF inert_ui(2)] inert_skel [OF inert_ui(2)]
  inert_hrun [OF inert_ui(3)] inert_skel [OF inert_ui(3)]
  inert_hrun [OF inert_nl(1)] inert_skel [OF inert_nl(1)]
  inert_hrun [OF inert_nl(2)] inert_skel [OF inert_nl(2)]

section \<open>Markup of the templates\<close>

text \<open>
  The markup of a template, taken at an empty string; the lemmas say that no other string changes
  it, and that the template ends where it started, in character data.
\<close>

definition icon_markup :: jstr where
  "icon_markup = skel Data (iconSVG [])"

definition avatar_markup :: "bool \<Rightarrow> jstr" where
  "avatar_markup pres = skel Data (avatarHTML None [] pres)"

definition file_icon_markup :: jstr where
  "file_icon_markup = skel Data (fileIconSVG [])"

lemma iconSVG_scan [simp]:
  assumes "34 \<notin> set n"
  shows "hrun Data (iconSVG n) = Data" and "skel Data (iconSVG n) = icon_markup"
  using inert_InAttr [OF assms]
  by (simp_all add: icon_markup_def iconSVG_def inert_hrun inert_skel js_eval)

lemma avatar_literals:
  \<open>hrun Data (lit ''<span class="avatar'') = InAttr\<close>
  "hrun InAttr (lit '' avatar-'') = InAttr" "skel InAttr (lit '' avatar-'') = []"
  \<open>hrun InAttr (lit ''" title="'') = InAttr\<close> \<open>hrun InAttr (lit ''">'') = Data\<close>
  \<open>hrun Data (lit ''<span class="presence"></span>'') = Data\<close> "hrun Data (lit ''</span>'') = Data"
  by (simp_all add: js_eval)

lemma avatarHTML_scan [simp]:
  assumes "34 \<notin> set sz"
  shows "hrun Data (avatarHTML p sz pres) = Data"
    and "skel Data (avatarHTML p sz pres) = avatar_markup pres"
  using inert_InAttr [OF assms]
  by (simp_all add: avatar_markup_def avatarHTML_def Let_def ui_icon_plain inert_hrun inert_skel avatar_literals)

lemma file_icon_literals:
  \<open>hrun Data (lit ''<svg class="ficon" viewBox="0 0 36 44" aria-hidden="true">'') = Data\<close>
  \<open>hrun Data (lit ''<path class="ficon-body" d="M7 1.5h15.5l9 9V39a3.5 3.5 0 0 1-3.5 3.5H7A3.5 3.5 0 0 1 3.5 39V5A3.5 3.5 0 0 1 7 1.5z"/>'') = Data\<close>
  \<open>hrun Data (lit ''<path class="ficon-fold" d="M22.5 1.5V7a3.5 3.5 0 0 0 3.5 3.5h5.5"/>'') = Data\<close>
  \<open>hrun Data (lit ''<text class="ficon-text" x="17.5" y="30" text-anchor="middle" font-size="'') = InAttr\<close>
  \<open>hrun InAttr (lit ''">'') = Data\<close> "hrun Data (lit ''</text>'') = Data" "hrun Data (lit ''</svg>'') = Data"
  by (simp_all add: js_eval)

lemma fileIconSVG_scan [simp]:
  "hrun Data (fileIconSVG name) = Data"
  "skel Data (fileIconSVG name) = file_icon_markup"
  by (simp_all add: file_icon_markup_def fileIconSVG_def Let_def file_icon_literals)

end
