(* ===== verification/Format.thy ===== *)
theory Format
  imports Prelude
begin

text \<open>
  Texts for sizes, durations and the retention period (\<open>formatSize\<close>, \<open>formatDuration\<close>,
  \<open>formatRetention\<close> of web/static/app.js), and \<open>safeFileURL\<close>, the only place where a file id
  becomes a path.

  The inputs are natural numbers.  \<open>bytes / 1024\<close> and \<open>bytes / 1048576\<close> are exact in binary
  floating point, so \<open>toFixed(1)\<close> rounds the exact quotient: to the nearest tenth, the larger one
  of two equally near.
\<close>

section \<open>Sizes\<close>

text \<open>\<open>(bytes / unit).toFixed(1)\<close>: the number of tenths, and how it is printed.\<close>

definition tenths :: "nat \<Rightarrow> nat \<Rightarrow> nat" where
  "tenths bytes unit = (20 * bytes + unit) div (2 * unit)"

definition show_tenths :: "nat \<Rightarrow> jstr" where
  "show_tenths n = show_nat (n div 10) @ [46] @ show_nat (n mod 10)"

definition formatSize :: "nat \<Rightarrow> jstr" where
  "formatSize bytes =
     (if bytes < 1024 then show_nat bytes @ lit '' B''
      else if bytes < 1024 * 1024 then show_tenths (tenths bytes 1024) @ lit '' KB''
      else show_tenths (tenths bytes (1024 * 1024)) @ lit '' MB'')"

section \<open>Durations and the retention period\<close>

definition formatDuration :: "nat \<Rightarrow> jstr" where
  "formatDuration sec =
     (if sec < 60 then show_nat sec @ (lit '' '' @ [0x79D2])
      else if sec < 3600 then
        show_nat (sec div 60) @ (lit '' '' @ [0x5206] @ lit '' '') @ show_nat (sec mod 60) @ (lit '' '' @ [0x79D2])
      else show_nat (sec div 3600) @ (lit '' '' @ [0x5C0F, 0x65F6] @ lit '' '') @ show_nat ((sec mod 3600) div 60) @ (lit '' '' @ [0x5206]))"

text \<open>\<open>Math.round(sec / 60)\<close> rounds halves up.\<close>

definition formatRetention :: "nat option \<Rightarrow> jstr" where
  "formatRetention sec =
     (case sec of
        None \<Rightarrow> []
      | Some s \<Rightarrow>
          if s = 0 then []
          else if s mod 3600 = 0 then show_nat (s div 3600) @ (lit '' '' @ [0x5C0F, 0x65F6])
          else if s \<ge> 60 then show_nat ((s + 30) div 60) @ (lit '' '' @ [0x5206, 0x949F])
          else show_nat s @ (lit '' '' @ [0x79D2]))"

section \<open>File addresses\<close>

definition is_file_id :: "jstr \<Rightarrow> bool" where
  "is_file_id s = (length s = 32 \<and> list_all is_hex s)"

definition safeFileURL :: "jstr option \<Rightarrow> jstr option" where
  "safeFileURL fileId =
     (case fileId of
        None \<Rightarrow> None
      | Some f \<Rightarrow> if f = [] \<or> \<not> is_file_id f then None else Some (lit ''/api/files/'' @ f))"

section \<open>Correctness\<close>

lemma tenths_nearest:
  assumes "0 < unit"
  shows "2 * tenths bytes unit * unit \<le> 20 * bytes + unit"
    and "20 * bytes < 2 * tenths bytes unit * unit + unit"
proof -
  let ?q = "tenths bytes unit"
  have *: "2 * unit * ?q + (20 * bytes + unit) mod (2 * unit) = 20 * bytes + unit"
    unfolding tenths_def by (rule mult_div_mod_eq)
  have "(20 * bytes + unit) mod (2 * unit) < 2 * unit"
    using assms by simp
  with * show "2 * ?q * unit \<le> 20 * bytes + unit" and "20 * bytes < 2 * ?q * unit + unit"
    by (simp_all add: mult.assoc mult.commute [of unit])
qed

definition read_tenths :: "jstr \<Rightarrow> nat" where
  "read_tenths s =
     10 * read_digits (takeWhile is_digit s) + read_digits (takeWhile is_digit (drop 1 (dropWhile is_digit s)))"

lemma takeWhile_show_nat:
  "takeWhile is_digit (show_nat n @ s) = show_nat n @ takeWhile is_digit s"
  "dropWhile is_digit (show_nat n @ s) = dropWhile is_digit s"
  by (simp_all add: takeWhile_append2 dropWhile_append2 show_nat_digits)

lemma dot_no_digit [simp]: "\<not> is_digit 46"
  by (simp add: is_digit_def)

lemma read_show_tenths:
  assumes "s \<noteq> []" and "\<not> is_digit (hd s)"
  shows "read_tenths (show_tenths n @ s) = n"
proof -
  from assms obtain c t where "s = c # t" and "\<not> is_digit c" by (cases s) auto
  then show ?thesis
    by (simp add: read_tenths_def show_tenths_def takeWhile_show_nat)
qed

text \<open>
  The size the page prints is the size it was given, to the nearest tenth of the unit it
  prints: below one KiB the exact byte count, otherwise a decimal whose distance from the true
  quotient is at most half a tenth (and a half is rounded up, never down).
\<close>

lemma formatSize_nearest:
  "if bytes < 1024 then formatSize bytes = show_nat bytes @ lit '' B''
   else \<exists>unit name. (unit, name) \<in> {(1024, lit '' KB''), (1048576, lit '' MB'')}
      \<and> formatSize bytes = show_tenths (read_tenths (formatSize bytes)) @ name
      \<and> 2 * read_tenths (formatSize bytes) * unit \<le> 20 * bytes + unit
      \<and> 20 * bytes < 2 * read_tenths (formatSize bytes) * unit + unit"
proof (cases "bytes < 1024 * 1024")
  case True
  have "read_tenths (show_tenths (tenths bytes 1024) @ lit '' KB'') = tenths bytes 1024"
    by (rule read_show_tenths) (simp_all add: lit_def is_digit_def)
  with True tenths_nearest [of 1024 bytes] show ?thesis
    by (auto simp: formatSize_def intro!: exI [of _ "1024::nat"])
next
  case False
  have "read_tenths (show_tenths (tenths bytes 1048576) @ lit '' MB'') = tenths bytes 1048576"
    by (rule read_show_tenths) (simp_all add: lit_def is_digit_def)
  with False tenths_nearest [of 1048576 bytes] show ?thesis
    by (auto simp: formatSize_def intro!: exI [of _ "1048576::nat"])
qed

lemma safeFileURL_Some:
  "safeFileURL f = Some u \<longleftrightarrow> (\<exists>i. f = Some i \<and> is_file_id i \<and> u = lit ''/api/files/'' @ i)"
  by (auto simp: safeFileURL_def is_file_id_def split: option.splits if_splits)

end
