(* ===== verification/Messages.thy ===== *)
theory Messages
  imports Platform Format
begin

text \<open>
  Chat messages of web/static/app.js: the data the hub delivers (\<open>ChatMessage\<close>, \<open>Device\<close>,
  \<open>MessagePayload\<close> and \<open>FileMeta\<close> of internal/hub/hub.go as the page decodes them), the texts
  made of a message (\<open>privateLabel\<close>, \<open>messageCopyText\<close>) and the HTML \<open>appendMessage\<close> assigns to
  \<open>innerHTML\<close>, with \<open>fileRowHTML\<close>.  Every string of a message is chosen by another user.

  \<open>None\<close> is a field the JSON object does not have.  The time of day comes from the browser's
  locale and is an argument (\<open>time\<close>), as are the origin of the page and whether the browser can put
  an image on the clipboard.  Sizes are integers: a peer may send a negative one.
\<close>

section \<open>Data\<close>

record device =
  dev_id :: jstr
  dev_name :: jstr
  dev_platform :: jstr
  dev_ip :: jstr

record file_meta =
  meta_name :: jstr
  meta_size :: int
  meta_mime :: jstr

record msg_payload =
  kind :: jstr
  pl_content :: "jstr option"
  pl_fileId :: "jstr option"
  pl_meta :: "file_meta option"

record chat_msg =
  msg_from :: "device option"
  msg_to :: "jstr list"
  msg_recipients :: "device list"
  msg_payload :: msg_payload
  msg_timestamp :: "int option"

text \<open>\<open>payload.meta?.name || d\<close>.\<close>

definition meta_name_or :: "msg_payload \<Rightarrow> jstr \<Rightarrow> jstr" where
  "meta_name_or p d = opt_or (map_option meta_name (pl_meta p)) d"

definition from_name :: "chat_msg \<Rightarrow> jstr" where
  "from_name msg = opt_or (map_option dev_name (msg_from msg)) [0x672A, 0x77E5, 0x8BBE, 0x5907]"

definition size_text :: "int \<Rightarrow> jstr" where
  "size_text z = (if z < 0 then 45 # show_nat (nat (- z)) @ lit '' B'' else formatSize (nat z))"

text \<open>\<open>payload.meta?.size ? formatSize(payload.meta.size) : ""\<close>.\<close>

definition meta_size_text :: "msg_payload \<Rightarrow> jstr" where
  "meta_size_text p =
     (case pl_meta p of None \<Rightarrow> [] | Some m \<Rightarrow> if meta_size m = 0 then [] else size_text (meta_size m))"

section \<open>Texts of a message\<close>

definition find_device :: "device list \<Rightarrow> jstr \<Rightarrow> device option" where
  "find_device users i = List.find (\<lambda>u. dev_id u = i) users"

definition privateLabel :: "device list \<Rightarrow> chat_msg \<Rightarrow> bool \<Rightarrow> jstr" where
  "privateLabel onlineUsers msg isSelf =
     (if msg_to msg = [] then []
      else if \<not> isSelf then [0x79C1, 0x804A, 0x7ED9, 0x4F60]
      else
        let names = map (\<lambda>d. or_default (dev_name d)
              (opt_or (map_option dev_name (find_device onlineUsers (dev_id d))) [0x672A, 0x77E5, 0x8BBE, 0x5907]))
              (msg_recipients msg)
        in ([0x79C1, 0x804A] @ lit '' '' @ [0x2192] @ lit '' '') @ or_default (join [0x3001] names) [0x672A, 0x77E5, 0x8BBE, 0x5907])"

definition messageCopyText :: "jstr \<Rightarrow> chat_msg \<Rightarrow> jstr" where
  "messageCopyText origin msg =
     (let p = msg_payload msg in
      if kind p = lit ''text'' then opt_or (pl_content p) []
      else if kind p = lit ''image'' then
        (case safeFileURL (pl_fileId p) of Some url \<Rightarrow> origin @ url | None \<Rightarrow> [])
      else if kind p = lit ''file'' then meta_name_or p []
      else [])"

section \<open>HTML of a message\<close>

definition fileRowHTML :: "jstr \<Rightarrow> jstr \<Rightarrow> jstr \<Rightarrow> jstr" where
  \<open>fileRowHTML name sizeText trailing =
     fileIconSVG name @ nl 4 @ lit ''<span class="file-info">'' @ nl 6 @
     lit ''<span class="file-name">'' @ escapeHTML name @ lit ''</span>'' @ nl 6 @
     lit ''<span class="file-size mono">'' @ sizeText @ lit ''</span>'' @ nl 4 @
     lit ''</span>'' @ trailing\<close>

definition is_replyable :: "jstr option \<Rightarrow> chat_msg \<Rightarrow> bool \<Rightarrow> bool" where
  "is_replyable deviceId msg isSelf =
     (\<not> isSelf \<and> (case msg_from msg of None \<Rightarrow> False | Some d \<Rightarrow> dev_id d \<noteq> [] \<and> Some (dev_id d) \<noteq> deviceId))"

definition replyAttrs :: "chat_msg \<Rightarrow> jstr" where
  \<open>replyAttrs msg =
     lit '' data-reply-id="'' @ escapeAttr (case msg_from msg of Some d \<Rightarrow> dev_id d | None \<Rightarrow> []) @
     lit ''" data-reply-name="'' @ escapeAttr (from_name msg) @ lit ''" title="'' @ ([0x79C1, 0x804A, 0x56DE, 0x590D] @ lit '' '') @
     escapeAttr (from_name msg) @ lit ''"''\<close>

definition senderHTML :: "bool \<Rightarrow> chat_msg \<Rightarrow> jstr" where
  \<open>senderHTML replyable msg =
     (if replyable
      then lit ''<span class="msg-sender reply"'' @ replyAttrs msg @ lit ''>'' @ escapeHTML (from_name msg) @ lit ''</span>''
      else lit ''<span class="msg-sender">'' @ escapeHTML (from_name msg) @ lit ''</span>'')\<close>

definition bubbleHTML :: "jstr \<Rightarrow> jstr" where
  \<open>bubbleHTML inner = lit ''<div class="msg-bubble">'' @ inner @ lit ''</div>''\<close>

definition imageHTML :: "jstr \<Rightarrow> msg_payload \<Rightarrow> jstr" where
  \<open>imageHTML imgUrl p =
     lit ''<img class="msg-image" src="'' @ escapeAttr imgUrl @ (lit ''" alt="'' @ [0x56FE, 0x7247] @ lit ''" loading="lazy"'') @ nl 11 @
     lit ''data-file-id="'' @ escapeAttr (case pl_fileId p of Some i \<Rightarrow> i | None \<Rightarrow> lit ''undefined'') @
     lit ''" data-file-name="'' @ escapeAttr (meta_name_or p (lit ''image'')) @ lit ''" />''\<close>

definition fileHTML :: "jstr \<Rightarrow> msg_payload \<Rightarrow> jstr" where
  \<open>fileHTML fileUrl p =
     (let name = meta_name_or p [0x6587, 0x4EF6] in
      lit ''<div class="msg-bubble file-bubble"><a class="file-card file-download" href="'' @ escapeAttr fileUrl @
      lit ''" download="'' @ escapeAttr name @ lit ''"'' @ nl 11 @
      lit ''data-file-id="'' @ escapeAttr (case pl_fileId p of Some i \<Rightarrow> i | None \<Rightarrow> lit ''undefined'') @
      lit ''" data-file-name="'' @ escapeAttr name @ lit ''" title="'' @ ([0x4E0B, 0x8F7D] @ lit '' '') @ escapeAttr name @ lit ''">'' @
      fileRowHTML name (meta_size_text p)
        (lit ''<span class="download-btn" aria-hidden="true">'' @ iconSVG (lit ''download'') @ lit ''</span>'') @
      lit ''</a></div>'')\<close>

definition bodyHTML :: "msg_payload \<Rightarrow> jstr" where
  "bodyHTML p =
     (if kind p = lit ''text'' then bubbleHTML (escapeHTML (opt_or (pl_content p) []))
      else if kind p = lit ''image'' then
        (case safeFileURL (pl_fileId p) of Some url \<Rightarrow> imageHTML url p | None \<Rightarrow> bubbleHTML (lit ''['' @ [0x56FE, 0x7247, 0x4E0D, 0x53EF, 0x7528] @ lit '']''))
      else if kind p = lit ''file'' then
        (case safeFileURL (pl_fileId p) of Some url \<Rightarrow> fileHTML url p | None \<Rightarrow> bubbleHTML (lit ''['' @ [0x6587, 0x4EF6, 0x4E0D, 0x53EF, 0x7528] @ lit '']''))
      else bubbleHTML (lit ''['' @ [0x4E0D, 0x652F, 0x6301, 0x7684, 0x6D88, 0x606F, 0x7C7B, 0x578B] @ lit '']''))"

definition privateTagHTML :: "bool \<Rightarrow> chat_msg \<Rightarrow> jstr \<Rightarrow> jstr" where
  \<open>privateTagHTML replyable msg tag =
     lit ''<span class="msg-private-tag'' @ (if replyable then lit '' reply'' else []) @ lit ''"'' @
     (if replyable then replyAttrs msg else []) @ lit ''>'' @ iconSVG (lit ''lock'') @ escapeHTML tag @ lit ''</span>''\<close>

definition copyButtonHTML :: "bool \<Rightarrow> nat \<Rightarrow> jstr" where
  \<open>copyButtonHTML saveInstead logIdx =
     lit ''<button type="button" class="msg-copy-btn" data-msg-idx="'' @ show_nat logIdx @ lit ''" title="'' @
     (if saveInstead then [0x4FDD, 0x5B58, 0x56FE, 0x7247] else [0x590D, 0x5236, 0x6B64, 0x6761]) @ lit ''">'' @
     (if saveInstead then [0x4FDD, 0x5B58] else [0x590D, 0x5236]) @ lit ''</button>''\<close>

text \<open>The whole template; \<open>time\<close> is the rendered time of day.\<close>

definition messageHTML ::
    "jstr option \<Rightarrow> device list \<Rightarrow> bool \<Rightarrow> jstr \<Rightarrow> nat \<Rightarrow> chat_msg \<Rightarrow> bool \<Rightarrow> jstr" where
  \<open>messageHTML deviceId onlineUsers canCopyImages time logIdx msg isSelf =
     (let privateTag = privateLabel onlineUsers msg isSelf;
          p = msg_payload msg;
          replyable = is_replyable deviceId msg isSelf;
          saveInstead = (kind p = lit ''image'' \<and> \<not> canCopyImages);
          meta = (if isSelf then time else senderHTML replyable msg @ (lit '' '' @ [0x00B7] @ lit '' '') @ time)
      in nl 4 @ (if isSelf then [] else avatarHTML (map_option dev_platform (msg_from msg)) (lit ''sm'') False) @ nl 4 @
         lit ''<div class="msg-body">'' @ nl 6 @ lit ''<div class="msg-meta">'' @ nl 8 @
         lit ''<span>'' @ meta @ lit ''</span>'' @ nl 8 @
         (if privateTag \<noteq> [] then privateTagHTML replyable msg privateTag else []) @ nl 8 @
         copyButtonHTML saveInstead logIdx @ nl 6 @ lit ''</div>'' @ nl 6 @
         bodyHTML p @ nl 4 @ lit ''</div>'' @ nl 2)\<close>

text \<open>\<open>wrapper.className\<close>.\<close>

definition messageClass :: "device list \<Rightarrow> chat_msg \<Rightarrow> bool \<Rightarrow> jstr" where
  "messageClass onlineUsers msg isSelf =
     lit ''msg'' @ (if isSelf then lit '' self'' else []) @
     (if privateLabel onlineUsers msg isSelf \<noteq> [] then lit '' private'' else [])"

section \<open>The markup of a message\<close>

text \<open>
  Each piece is scanned once: it ends in the mode it started in, and its markup is that of the
  piece with empty strings.
\<close>

lemma formatSize_plain: "60 \<notin> set (formatSize n)" "34 \<notin> set (formatSize n)"
proof -
  have "\<forall>c \<in> set (show_nat k). c \<noteq> 60 \<and> c \<noteq> 34" for k
    by (auto dest: show_nat_digits simp: is_digit_def)
  then show "60 \<notin> set (formatSize n)" "34 \<notin> set (formatSize n)"
    by (auto simp: formatSize_def show_tenths_def js_eval)
qed

lemma size_text_inert: "inert Data (size_text z)"
proof -
  have "60 \<notin> set (show_nat k)" for k
    by (auto dest: show_nat_digits simp: is_digit_def)
  then show ?thesis by (auto intro!: inert_Data simp: size_text_def formatSize_plain js_eval)
qed

lemma meta_size_inert: "inert Data (meta_size_text p)"
  using size_text_inert by (auto simp: meta_size_text_def inert_def split: option.split)

lemmas size_scan [simp] = inert_hrun [OF meta_size_inert] inert_skel [OF meta_size_inert]
  inert_hrun [OF size_text_inert] inert_skel [OF size_text_inert]

definition file_row_markup :: "jstr" where
  "file_row_markup = skel Data (fileRowHTML [] [] [])"

lemma fileRowHTML_scan:
  assumes "inert Data sizeText"
  shows "hrun Data (fileRowHTML name sizeText trailing) = hrun Data trailing"
    and "skel Data (fileRowHTML name sizeText trailing) = file_row_markup @ skel Data trailing"
  using assms by (simp_all add: fileRowHTML_def file_row_markup_def inert_def js_eval)

definition reply_markup :: jstr where
  "reply_markup = lit '' data-reply-id='' @ [34, 34] @ lit '' data-reply-name='' @ [34, 34] @
     lit '' title='' @ [34, 34]"

lemma replyAttrs_scan [simp]:
  "hrun InTag (replyAttrs msg) = InTag" "skel InTag (replyAttrs msg) = reply_markup"
  by (simp_all add: replyAttrs_def reply_markup_def js_eval)

lemma hrun_InTag_plain: "34 \<notin> set s \<Longrightarrow> 62 \<notin> set s \<Longrightarrow> hrun InTag s = InTag"
  and skel_InTag_plain: "34 \<notin> set s \<Longrightarrow> 62 \<notin> set s \<Longrightarrow> skel InTag s = s"
  by (induction s) auto

lemma nl_InTag [simp]: "hrun InTag (nl k) = InTag" "skel InTag (nl k) = nl k"
  by (auto intro!: hrun_InTag_plain skel_InTag_plain simp: nl_def)

definition sender_markup :: "bool \<Rightarrow> jstr" where
  "sender_markup r = lit ''<span class='' @ [34, 34] @ (if r then reply_markup else []) @ lit ''></span>''"

lemma senderHTML_scan [simp]:
  "hrun Data (senderHTML r msg) = Data" "skel Data (senderHTML r msg) = sender_markup r"
  by (simp_all add: senderHTML_def sender_markup_def js_eval)

definition bubble_markup :: jstr where
  "bubble_markup = lit ''<div class='' @ [34, 34] @ lit ''></div>''"

lemma bubbleHTML_scan:
  "inert Data inner \<Longrightarrow> hrun Data (bubbleHTML inner) = Data"
  "inert Data inner \<Longrightarrow> skel Data (bubbleHTML inner) = bubble_markup"
  by (simp_all add: bubbleHTML_def bubble_markup_def inert_def js_eval)

definition image_markup :: jstr where
  "image_markup = skel Data (imageHTML [] \<lparr>kind = [], pl_content = None, pl_fileId = None, pl_meta = None\<rparr>)"

lemma imageHTML_scan [simp]:
  "hrun Data (imageHTML url p) = Data" "skel Data (imageHTML url p) = image_markup"
  by (simp_all add: imageHTML_def image_markup_def js_eval)

definition file_markup :: jstr where
  "file_markup = skel Data (fileHTML [] \<lparr>kind = [], pl_content = None, pl_fileId = None, pl_meta = None\<rparr>)"

lemma fileHTML_scan [simp]:
  "hrun Data (fileHTML url p) = Data" "skel Data (fileHTML url p) = file_markup"
  by (simp_all add: fileHTML_def file_markup_def Let_def fileRowHTML_scan meta_size_inert js_eval)

text \<open>What the markup of the body depends on.\<close>

datatype body_kind = PlainBubble | ImageBody | FileBody

definition body_shape :: "msg_payload \<Rightarrow> body_kind" where
  "body_shape p =
     (if kind p = lit ''image'' \<and> safeFileURL (pl_fileId p) \<noteq> None then ImageBody
      else if kind p = lit ''file'' \<and> safeFileURL (pl_fileId p) \<noteq> None then FileBody
      else PlainBubble)"

fun body_markup :: "body_kind \<Rightarrow> jstr" where
  "body_markup PlainBubble = bubble_markup"
| "body_markup ImageBody = image_markup"
| "body_markup FileBody = file_markup"

lemma inert_literals:
  "inert Data (lit ''['' @ [0x56FE, 0x7247, 0x4E0D, 0x53EF, 0x7528] @ lit '']'')" "inert Data (lit ''['' @ [0x6587, 0x4EF6, 0x4E0D, 0x53EF, 0x7528] @ lit '']'')" "inert Data (lit ''['' @ [0x4E0D, 0x652F, 0x6301, 0x7684, 0x6D88, 0x606F, 0x7C7B, 0x578B] @ lit '']'')"
  by (auto intro!: inert_Data simp: js_eval)

lemmas bubble_literals =
  bubbleHTML_scan [OF inert_literals(1), simplified] bubbleHTML_scan [OF inert_literals(2), simplified]
  bubbleHTML_scan [OF inert_literals(3), simplified] bubbleHTML_scan [OF inert_escapeHTML(1)]

lemma bodyHTML_scan [simp]:
  "hrun Data (bodyHTML p) = Data" "skel Data (bodyHTML p) = body_markup (body_shape p)"
proof -
  have kinds: "lit ''text'' \<noteq> lit ''image''" "lit ''image'' \<noteq> lit ''file''" "lit ''text'' \<noteq> lit ''file''"
    by (simp_all add: js_eval)
  show "hrun Data (bodyHTML p) = Data" "skel Data (bodyHTML p) = body_markup (body_shape p)"
    using kinds
    by (auto simp: bodyHTML_def body_shape_def bubble_literals split: option.split)
qed

definition tag_markup :: "bool \<Rightarrow> jstr" where
  "tag_markup r = lit ''<span class='' @ [34, 34] @ (if r then reply_markup else []) @ [62] @
     icon_markup @ lit ''</span>''"

lemma privateTagHTML_scan [simp]:
  "hrun Data (privateTagHTML r msg tag) = Data" "skel Data (privateTagHTML r msg tag) = tag_markup r"
  by (simp_all add: privateTagHTML_def tag_markup_def js_eval
      iconSVG_scan [of "lit ''lock''", unfolded lit_def, simplified])

lemma copyButtonHTML_scan:
  "hrun Data (copyButtonHTML si k) = Data" "skel Data (copyButtonHTML si k) = skel Data (copyButtonHTML False 0)"
  by (cases si; simp add: copyButtonHTML_def js_eval)+

record message_frame =
  sh_self :: bool
  sh_reply :: bool
  sh_private :: bool
  sh_body :: body_kind

definition message_shape :: "jstr option \<Rightarrow> device list \<Rightarrow> chat_msg \<Rightarrow> bool \<Rightarrow> message_frame" where
  "message_shape deviceId onlineUsers msg isSelf =
     \<lparr>sh_self = isSelf, sh_reply = is_replyable deviceId msg isSelf,
       sh_private = (privateLabel onlineUsers msg isSelf \<noteq> []), sh_body = body_shape (msg_payload msg)\<rparr>"

definition shape_markup :: "message_frame \<Rightarrow> jstr" where
  \<open>shape_markup sh =
     (if sh_self sh then [] else avatar_markup False) @
     skel Data (lit ''<div class="msg-body">'') @ skel Data (lit ''<div class="msg-meta">'') @ lit ''<span>'' @
     (if sh_self sh then [] else sender_markup (sh_reply sh)) @ lit ''</span>'' @
     (if sh_private sh then tag_markup (sh_reply sh) else []) @
     skel Data (copyButtonHTML False 0) @ lit ''</div>'' @ body_markup (sh_body sh) @ lit ''</div>''\<close>

lemma tag_literals:
  \<open>hrun Data (lit ''<div class="msg-body">'') = Data\<close> \<open>hrun Data (lit ''<div class="msg-meta">'') = Data\<close>
  "hrun Data (lit ''<span>'') = Data" "hrun Data (lit ''</span>'') = Data" "hrun Data (lit ''</div>'') = Data"
  "skel Data (lit ''<span>'') = lit ''<span>''" "skel Data (lit ''</span>'') = lit ''</span>''"
  "skel Data (lit ''</div>'') = lit ''</div>''"
  by (simp_all add: js_eval)

lemma space_scan: "hrun Data (lit '' '') = Data" "skel Data (lit '' '') = []"
  by (simp_all add: js_eval)

lemma avatar_sm [simp]:
  "hrun Data (avatarHTML p (lit ''sm'') False) = Data"
  "skel Data (avatarHTML p (lit ''sm'') False) = avatar_markup False"
  by (rule avatarHTML_scan; simp add: js_eval)+

text \<open>
  C12. No message can inject markup.  Whatever names, texts, file names, ids, platforms
  and recipients a peer puts into a message, the tags and attribute names of the HTML that
  \<open>appendMessage\<close> builds are those of one of finitely many shapes (own or not, answerable or not,
  private or not, bubble, image or file), and the text ends in character data, outside every tag.
  The only assumption is that the locale's time of day contains no \<open><\<close>.
\<close>

theorem message_markup:
  assumes "60 \<notin> set time"
  shows "hrun Data (messageHTML deviceId onlineUsers canCopyImages time logIdx msg isSelf) = Data
    \<and> skel Data (messageHTML deviceId onlineUsers canCopyImages time logIdx msg isSelf)
        = shape_markup (message_shape deviceId onlineUsers msg isSelf)"
  using inert_hrun [OF inert_Data [OF assms]] inert_skel [OF inert_Data [OF assms]]
  by (simp add: messageHTML_def message_shape_def shape_markup_def Let_def tag_literals
      copyButtonHTML_scan(1) copyButtonHTML_scan(2) [of "kind (msg_payload msg) = lit ''image'' \<and> \<not> canCopyImages"]
      space_scan)

theorem message_markup_witness:
  "skel Data (messageHTML (Some (lit ''me'')) [] True (lit ''10:30'') 3
      \<lparr>msg_from = Some \<lparr>dev_id = lit ''x'', dev_name = lit ''<img src=x onerror=alert(1)>'',
          dev_platform = lit ''ios'', dev_ip = lit ''10.0.0.2''\<rparr>,
        msg_to = [lit ''me''], msg_recipients = [],
        msg_payload = \<lparr>kind = lit ''text'', pl_content = Some (lit ''</div><script>''), pl_fileId = None, pl_meta = None\<rparr>,
        msg_timestamp = None\<rparr> False)
    = shape_markup \<lparr>sh_self = False, sh_reply = True, sh_private = True, sh_body = PlainBubble\<rparr>"
proof -
  let ?m = "\<lparr>msg_from = Some \<lparr>dev_id = lit ''x'', dev_name = lit ''<img src=x onerror=alert(1)>'',
          dev_platform = lit ''ios'', dev_ip = lit ''10.0.0.2''\<rparr>,
        msg_to = [lit ''me''], msg_recipients = [],
        msg_payload = \<lparr>kind = lit ''text'', pl_content = Some (lit ''</div><script>''), pl_fileId = None, pl_meta = None\<rparr>,
        msg_timestamp = None\<rparr>"
  have "message_shape (Some (lit ''me'')) [] ?m False
      = \<lparr>sh_self = False, sh_reply = True, sh_private = True, sh_body = PlainBubble\<rparr>"
    by (simp add: message_shape_def is_replyable_def privateLabel_def body_shape_def js_eval)
  moreover have "60 \<notin> set (lit ''10:30'')" by (simp add: js_eval)
  ultimately show ?thesis
    using message_markup [of "lit ''10:30''" "Some (lit ''me'')" "[]" True 3 ?m False] by simp
qed

section \<open>Reading attributes back\<close>

text \<open>
  How a browser reads the attributes of a start tag, as far as the templates go: a name up to
  \<open>=\<close>, a value between double quotes with its character references decoded.
\<close>

function tag_attrs :: "jstr \<Rightarrow> (jstr \<times> jstr) list" where
  "tag_attrs s =
     (let s1 = dropWhile (\<lambda>c. c = 32 \<or> c = 10) s in
      if s1 = [] \<or> hd s1 = 62 then []
      else let n = takeWhile (\<lambda>c. c \<noteq> 61) s1;
               r = drop (length n + 2) s1;
               v = takeWhile (\<lambda>c. c \<noteq> 34) r
           in (n, html_decode v) # tag_attrs (drop (length v + 1) r))"
  by pat_completeness auto
termination
proof (relation "measure length", simp, goal_cases)
  case (1 s n r v)
  have "length (dropWhile (\<lambda>c. c = 32 \<or> c = 10) s) \<le> length s" by (rule length_dropWhile_le)
  moreover have "0 < length (dropWhile (\<lambda>c. c = 32 \<or> c = 10) s)" using 1 by auto
  ultimately show ?case
    unfolding 1 measure_def inv_image_def by (simp del: length_greater_0_conv dropWhile_eq_Nil_conv)
qed

declare tag_attrs.simps [simp del]

lemma takeWhile_value:
  "34 \<notin> set v \<Longrightarrow> takeWhile (\<lambda>c. c \<noteq> 34) (v @ 34 # t) = v"
  by (induction v) auto

lemma tag_attrs_one:
  assumes "n \<noteq> []" and "\<forall>c \<in> set n. c \<noteq> 32 \<and> c \<noteq> 10 \<and> c \<noteq> 61 \<and> c \<noteq> 62" and "34 \<notin> set v"
  shows "tag_attrs (32 # n @ 61 # 34 # v @ 34 # t) = (n, html_decode v) # tag_attrs t"
proof -
  have "dropWhile (\<lambda>c. c = 32 \<or> c = 10) (n @ s) = n @ s" and "hd (n @ s) \<noteq> 62" for s
    using assms(1,2) by (cases n; auto)+
  moreover have "takeWhile (\<lambda>c. c \<noteq> 61) (n @ 61 # s) = n" for s
    using assms(2) by (subst takeWhile_append2) auto
  ultimately show ?thesis
    using assms by (subst tag_attrs.simps) (simp add: Let_def takeWhile_value)
qed

lemma escapeAttr_decode: "html_decode (escapeAttr s) = s"
  by (induction s) (simp_all only: escapeAttr_Nil escapeAttr_Cons html_decode_esc_attr html_decode.simps(1))

lemma replyAttrs_read:
  "\<exists>t. tag_attrs (replyAttrs msg @ [62]) =
     (lit ''data-reply-id'', case msg_from msg of Some d \<Rightarrow> dev_id d | None \<Rightarrow> []) #
     (lit ''data-reply-name'', from_name msg) # t"
proof -
  let ?i = "case msg_from msg of Some d \<Rightarrow> dev_id d | None \<Rightarrow> []" and ?n = "from_name msg"
  let ?t = "32 # lit ''title'' @ 61 # 34 # (([0x79C1, 0x804A, 0x56DE, 0x590D] @ lit '' '') @ escapeAttr ?n) @ 34 # [62]"
  have "replyAttrs msg @ [62] = 32 # lit ''data-reply-id'' @ 61 # 34 # escapeAttr ?i @ 34 #
      32 # lit ''data-reply-name'' @ 61 # 34 # escapeAttr ?n @ 34 # ?t"
    by (simp add: replyAttrs_def js_eval)
  moreover have "tag_attrs \<dots> = (lit ''data-reply-id'', html_decode (escapeAttr ?i)) #
      tag_attrs (32 # lit ''data-reply-name'' @ 61 # 34 # escapeAttr ?n @ 34 # ?t)"
    by (rule tag_attrs_one) (auto simp: escapeAttr_special js_eval)
  moreover have "tag_attrs (32 # lit ''data-reply-name'' @ 61 # 34 # escapeAttr ?n @ 34 # ?t) =
      (lit ''data-reply-name'', html_decode (escapeAttr ?n)) # tag_attrs ?t"
    by (rule tag_attrs_one) (auto simp: escapeAttr_special js_eval)
  ultimately show ?thesis by (simp add: escapeAttr_decode)
qed

end
