(* ===== verification/Uri.thy ===== *)
theory Uri
  imports Prelude
begin

text \<open>
  Percent-encoding on the two sides of the join link: \<open>url.QueryEscape\<close> of Go, with which the hub
  writes the room PIN into the link's fragment, and \<open>decodeURIComponent\<close>, with which the page
  reads it back.  A text is a list of Unicode code points here; Go holds it as UTF-8 octets, the
  page as UTF-16 code units.
\<close>

section \<open>Encodings of one code point\<close>

definition scalar :: "nat \<Rightarrow> bool" where
  "scalar c \<longleftrightarrow> c < 0xD800 \<or> 0xE000 \<le> c \<and> c < 0x110000"

definition utf8_enc :: "nat \<Rightarrow> byte list" where
  "utf8_enc c =
     (if c < 0x80 then [c]
      else if c < 0x800 then [0xC0 + c div 64, 0x80 + c mod 64]
      else if c < 0x10000 then [0xE0 + c div 4096, 0x80 + (c div 64) mod 64, 0x80 + c mod 64]
      else [0xF0 + c div 262144, 0x80 + (c div 4096) mod 64, 0x80 + (c div 64) mod 64, 0x80 + c mod 64])"

definition utf16_enc :: "nat \<Rightarrow> jstr" where
  "utf16_enc c =
     (if c < 0x10000 then [c]
      else [0xD800 + (c - 0x10000) div 1024, 0xDC00 + (c - 0x10000) mod 1024])"

definition utf8 :: "nat list \<Rightarrow> byte list" where
  "utf8 t = concat (map utf8_enc t)"

definition utf16 :: "nat list \<Rightarrow> jstr" where
  "utf16 t = concat (map utf16_enc t)"

text \<open>The code point of a sequence of two to four octets; \<open>None\<close> when it is not valid UTF-8.\<close>

definition cont :: "nat \<Rightarrow> bool" where
  "cont b = (0x80 \<le> b \<and> b < 0xC0)"

fun utf8_dec :: "byte list \<Rightarrow> nat option" where
  "utf8_dec [a, b] =
     (let v = (a - 0xC0) * 64 + (b - 0x80) in
      if cont b \<and> 0x80 \<le> v then Some v else None)"
| "utf8_dec [a, b, c] =
     (let v = (a - 0xE0) * 4096 + (b - 0x80) * 64 + (c - 0x80) in
      if cont b \<and> cont c \<and> 0x800 \<le> v \<and> scalar v then Some v else None)"
| "utf8_dec [a, b, c, d] =
     (let v = (a - 0xF0) * 262144 + (b - 0x80) * 4096 + (c - 0x80) * 64 + (d - 0x80) in
      if cont b \<and> cont c \<and> cont d \<and> 0x10000 \<le> v \<and> scalar v then Some v else None)"
| "utf8_dec _ = None"

section \<open>Escaping\<close>

text \<open>\<open>url.QueryEscape\<close>: unreserved octets stay, a space becomes \<open>+\<close>, the others \<open>%XX\<close>.\<close>

definition unreserved :: "byte \<Rightarrow> bool" where
  "unreserved b = (is_alnum b \<or> b \<in> {45, 95, 46, 126})"

definition upper_hex :: "nat \<Rightarrow> jchar" where
  "upper_hex d = (if d < 10 then 48 + d else 55 + d)"

text \<open>An octet stays, becomes \<open>+\<close> if it is a space and the encoding is that of forms, or becomes \<open>%XX\<close>.\<close>

definition octet_out :: "(byte \<Rightarrow> bool) \<Rightarrow> bool \<Rightarrow> byte \<Rightarrow> jstr" where
  "octet_out keep sp_plus b =
     (if keep b then [b] else if sp_plus \<and> b = 32 then [43] else [37, upper_hex (b div 16), upper_hex (b mod 16)])"

definition escape_octet :: "byte \<Rightarrow> jstr" where
  "escape_octet b = octet_out unreserved True b"

definition QueryEscape :: "nat list \<Rightarrow> jstr" where
  "QueryEscape t = concat (map escape_octet (utf8 t))"

section \<open>Decoding\<close>

definition pct_value :: "jchar \<Rightarrow> nat option" where
  "pct_value c =
     (if 48 \<le> c \<and> c \<le> 57 then Some (c - 48)
      else if 65 \<le> c \<and> c \<le> 70 then Some (c - 55)
      else if 97 \<le> c \<and> c \<le> 102 then Some (c - 87) else None)"

fun read_pct :: "jstr \<Rightarrow> (nat \<times> jstr) option" where
  "read_pct (a # h # l # r) =
     (case (pct_value h, pct_value l) of
        (Some x, Some y) \<Rightarrow> if a = 37 then Some (16 * x + y, r) else None
      | _ \<Rightarrow> None)"
| "read_pct _ = None"

fun read_conts :: "nat \<Rightarrow> jstr \<Rightarrow> (byte list \<times> jstr) option" where
  "read_conts 0 s = Some ([], s)"
| "read_conts (Suc n) s =
     (case read_pct s of
        None \<Rightarrow> None
      | Some (b, r) \<Rightarrow> (case read_conts n r of None \<Rightarrow> None | Some (bs, r') \<Rightarrow> Some (b # bs, r')))"

text \<open>How many octets follow the first one of a sequence; 0 when it cannot start one.\<close>

definition followers :: "byte \<Rightarrow> nat" where
  "followers b = (if b < 0xC0 then 0 else if b < 0xE0 then 1 else if b < 0xF0 then 2 else if b < 0xF8 then 3 else 0)"

lemma read_pct_shorter: "read_pct s = Some (b, r) \<Longrightarrow> length r < length s"
  by (induction s rule: read_pct.induct) (auto split: option.splits if_splits)

lemma read_conts_shorter: "read_conts n s = Some (bs, r) \<Longrightarrow> length r \<le> length s"
  by (induction n arbitrary: s bs r) (fastforce split: option.splits prod.splits dest: read_pct_shorter)+

text \<open>\<open>decodeURIComponent\<close>; \<open>None\<close> is the URIError it throws.\<close>

function decodeURIComponent :: "jstr \<Rightarrow> jstr option" where
  "decodeURIComponent [] = Some []"
| "decodeURIComponent (c # s) =
     (if c \<noteq> 37 then map_option ((#) c) (decodeURIComponent s)
      else case read_pct (c # s) of
        None \<Rightarrow> None
      | Some (b, r) \<Rightarrow>
          if b < 0x80 then map_option ((#) b) (decodeURIComponent r)
          else if followers b = 0 then None
          else (case read_conts (followers b) r of
                  None \<Rightarrow> None
                | Some (bs, r') \<Rightarrow>
                    (case utf8_dec (b # bs) of
                       None \<Rightarrow> None
                     | Some v \<Rightarrow> map_option ((@) (utf16_enc v)) (decodeURIComponent r'))))"
  by pat_completeness auto
termination
  by (relation "measure length") (auto dest!: read_pct_shorter read_conts_shorter)

section \<open>Round trip\<close>

lemma pct_value_upper [simp]: "d < 16 \<Longrightarrow> pct_value (upper_hex d) = Some d"
  by (auto simp: pct_value_def upper_hex_def)

text \<open>An encoding that keeps ASCII only, and not the percent sign; a space must not become \<open>+\<close>.\<close>

definition pct_keep :: "(byte \<Rightarrow> bool) \<Rightarrow> bool" where
  "pct_keep keep \<longleftrightarrow> (\<forall>b. keep b \<longrightarrow> b < 0x80 \<and> b \<noteq> 37)"

lemma unreserved_ascii: "unreserved b \<Longrightarrow> b < 0x80 \<and> b \<noteq> 37"
  by (auto simp: unreserved_def is_alnum_def)

lemma pct_keep_unreserved: "pct_keep unreserved"
  by (simp add: pct_keep_def unreserved_ascii)

lemma read_pct_out:
  assumes "b < 256" and "\<not> keep b" and "\<not> (sp_plus \<and> b = 32)"
  shows "read_pct (octet_out keep sp_plus b @ s) = Some (b, s)"
proof -
  have "b div 16 < 16" using assms(1) by simp
  then show ?thesis using assms by (auto simp: octet_out_def)
qed

lemma decode_ascii:
  assumes "pct_keep keep" and "b < 0x80" and "\<not> (sp_plus \<and> b = 32)"
  shows "decodeURIComponent (octet_out keep sp_plus b @ s) = map_option ((#) b) (decodeURIComponent s)"
proof (cases "keep b")
  case True
  with assms(1) show ?thesis by (auto simp: octet_out_def pct_keep_def)
next
  case False
  with assms have "read_pct (octet_out keep sp_plus b @ s) = Some (b, s)" by (intro read_pct_out) simp_all
  with False assms(2,3) show ?thesis by (auto simp: octet_out_def)
qed

lemma read_conts_out:
  assumes "pct_keep keep"
  shows "\<forall>b \<in> set bs. cont b \<Longrightarrow> read_conts (length bs) (concat (map (octet_out keep sp_plus) bs) @ s) = Some (bs, s)"
proof (induction bs)
  case (Cons b bs)
  then have "b < 256" "\<not> keep b" "\<not> (sp_plus \<and> b = 32)" using assms by (auto simp: cont_def pct_keep_def)
  then have "read_pct (octet_out keep sp_plus b @ r) = Some (b, r)" for r by (rule read_pct_out)
  with Cons show ?case by simp
qed simp

lemma decode_sequence:
  assumes "pct_keep keep" and "0xC0 \<le> b" and "b < 0xF8" and "followers b = length bs" and "\<forall>x \<in> set bs. cont x"
    and "utf8_dec (b # bs) = Some v"
  shows "decodeURIComponent (concat (map (octet_out keep sp_plus) (b # bs)) @ s) =
    map_option ((@) (utf16_enc v)) (decodeURIComponent s)"
proof -
  have nu: "\<not> keep b" "\<not> (sp_plus \<and> b = 32)" using assms(1,2) by (auto simp: pct_keep_def)
  have "read_pct (octet_out keep sp_plus b @ concat (map (octet_out keep sp_plus) bs) @ s)
      = Some (b, concat (map (octet_out keep sp_plus) bs) @ s)"
    using assms(3) nu by (intro read_pct_out) simp_all
  moreover have "\<exists>h l. octet_out keep sp_plus b = [37, h, l]" using nu by (auto simp: octet_out_def)
  moreover have "followers b \<noteq> 0" using assms(2,3) by (simp add: followers_def)
  ultimately show ?thesis
    using assms read_conts_out [OF assms(1,5)] by auto
qed

lemma base64_digits:
  fixes c :: nat
  shows "c div 4096 * 4096 + c div 64 mod 64 * 64 + c mod 64 = c"
    and "c div 262144 * 262144 + c div 4096 mod 64 * 4096 + c div 64 mod 64 * 64 + c mod 64 = c"
proof -
  have a: "c div 64 * 64 + c mod 64 = c" by simp
  have b: "c div 4096 * 64 + c div 64 mod 64 = c div 64"
    using div_mult_mod_eq [of "c div 64" 64] by (simp add: div_mult2_eq [symmetric])
  have d: "c div 262144 * 64 + c div 4096 mod 64 = c div 4096"
    using div_mult_mod_eq [of "c div 4096" 64] by (simp add: div_mult2_eq [symmetric])
  from a b show "c div 4096 * 4096 + c div 64 mod 64 * 64 + c mod 64 = c" by linarith
  from a b d show "c div 262144 * 262144 + c div 4096 mod 64 * 4096 + c div 64 mod 64 * 64 + c mod 64 = c"
    by linarith
qed

lemma utf8_dec_enc:
  assumes "scalar c" and "\<not> c < 0x80"
  shows "\<exists>b bs. utf8_enc c = b # bs \<and> 0xC0 \<le> b \<and> b < 0xF8 \<and> followers b = length bs \<and>
    (\<forall>x \<in> set bs. cont x) \<and> utf8_dec (b # bs) = Some c"
proof -
  have m: "cont (128 + n mod 64)" for n by (simp add: cont_def)
  consider "c < 0x800" | "0x800 \<le> c" "c < 0x10000" | "0x10000 \<le> c" "c < 0x110000"
    using assms(1) unfolding scalar_def by linarith
  then show ?thesis
  proof cases
    case 1
    then have "c div 64 < 32" by auto
    with 1 assms(2) m show ?thesis by (simp add: utf8_enc_def followers_def Let_def)
  next
    case 2
    then have "c div 4096 < 16" by auto
    with 2 assms m base64_digits(1) [of c] show ?thesis
      by (simp add: utf8_enc_def followers_def Let_def)
  next
    case 3
    then have "c div 262144 < 8" by auto
    with 3 assms m base64_digits(2) [of c] show ?thesis
      by (simp add: utf8_enc_def followers_def Let_def)
  qed
qed

lemma decode_code_point:
  assumes "pct_keep keep" and "scalar c" and "\<not> (sp_plus \<and> c = 32)"
  shows "decodeURIComponent (concat (map (octet_out keep sp_plus) (utf8_enc c)) @ s) =
    map_option ((@) (utf16_enc c)) (decodeURIComponent s)"
proof (cases "c < 0x80")
  case True
  have "(#) c = (@) [c]" by auto
  with True assms show ?thesis by (simp add: utf8_enc_def utf16_enc_def decode_ascii)
next
  case False
  from utf8_dec_enc [OF assms(2) this] obtain b bs where "utf8_enc c = b # bs"
    and "0xC0 \<le> b" "b < 0xF8" "followers b = length bs" "\<forall>x \<in> set bs. cont x"
      "utf8_dec (b # bs) = Some c" by blast
  with decode_sequence [OF assms(1) this(2-6)] show ?thesis by simp
qed

lemma decode_text:
  assumes "pct_keep keep" and "\<forall>c \<in> set t. scalar c \<and> \<not> (sp_plus \<and> c = 32)"
  shows "decodeURIComponent (concat (map (octet_out keep sp_plus) (utf8 t))) = Some (utf16 t)"
  using assms(2)
proof (induction t)
  case (Cons c t)
  then show ?case
    using decode_code_point [OF assms(1), of c sp_plus "concat (map (octet_out keep sp_plus) (utf8 t))"]
    by (simp add: utf8_def utf16_def)
qed (simp add: utf8_def utf16_def)

lemma QueryEscape_decode:
  assumes "\<forall>c \<in> set t. scalar c \<and> c \<noteq> 32"
  shows "decodeURIComponent (QueryEscape t) = Some (utf16 t)"
proof -
  have "escape_octet = octet_out unreserved True" by (simp add: fun_eq_iff escape_octet_def)
  with decode_text [OF pct_keep_unreserved, of t True] assms show ?thesis by (simp add: QueryEscape_def)
qed

end
