(* ===== verification/Upload_Wire.thy ===== *)
theory Upload_Wire
  imports Prelude
begin

text \<open>
  What the page and the hub exchange over \<open>/api/uploads\<close>: the four requests web/static/app.js
  sends, the JSON object the hub answers with (\<open>uploadStateResponse\<close>, \<open>fileResponse\<close> of
  internal/server/upload.go), and what \<open>xhrRequest\<close> makes of an answer.  The last section is the
  interface of the upload service as the page relies on it, a locale: the laws its provider
  promises about one upload.
\<close>

section \<open>Requests and answers\<close>

text \<open>
  The \<open>offset\<close> of a PUT is what stands in the query string: \<open>None\<close> is a text that is no number
  (the page would print \<open>undefined\<close>).
\<close>

datatype request =
    ReqState jstr
  | ReqCreate jstr nat jstr
  | ReqPut jstr "nat option" "byte list"
  | ReqDelete jstr

record file_resp =
  fileId :: jstr
  fr_name :: jstr
  fr_size :: nat
  fr_mime :: jstr

text \<open>Fields of a decoded answer; \<open>None\<close> is a missing one (\<open>undefined\<close> in the page).\<close>

record upload_state =
  uploadId :: "jstr option"
  st_offset :: "nat option"
  st_size :: "nat option"
  chunkSize :: "nat option"
  st_file :: "file_resp option"

definition no_fields :: upload_state where
  "no_fields = \<lparr>uploadId = None, st_offset = None, st_size = None, chunkSize = None, st_file = None\<rparr>"

text \<open>
  The \<open>data\<close> of an answer: the parsed JSON object, a string (a JSON string, or the text itself
  when it is not JSON), or \<open>null\<close>.
\<close>

datatype json_data = JObj upload_state | JStr jstr | JNull

text \<open>
  Reading properties of \<open>data\<close>: a string has none of them, \<open>null\<close> raises a TypeError (\<open>None\<close>).
\<close>

fun data_fields :: "json_data \<Rightarrow> upload_state option" where
  "data_fields (JObj st) = Some st"
| "data_fields (JStr t) = Some no_fields"
| "data_fields JNull = None"

text \<open>How \<open>xhrRequest\<close> settles: a status with its data, a network error, or the user's abort.\<close>

datatype xhr_result = XOk nat json_data | XError | XAbort

section \<open>The interface\<close>

text \<open>
  What the hub holds for one upload id: nothing, the first octets of a file of a declared size,
  or a complete file.
\<close>

datatype slot = Absent | Partial nat "byte list" | Complete "byte list"

text \<open>
  How the slot of an upload may change while the page waits for one answer.  It can always be
  dropped (expiry, cancellation); a PUT may add a leading piece of its body, but only at the
  offset where the stored content ends; a file is complete only at its declared size.
\<close>

fun appended :: "nat option \<Rightarrow> byte list \<Rightarrow> slot \<Rightarrow> slot \<Rightarrow> bool" where
  "appended off body (Partial n p) (Partial n' p') =
     (n' = n \<and> (p' = p \<or> off = Some (length p) \<and> (\<exists>k. p' = p @ take k body)))"
| "appended off body (Partial n p) (Complete c) =
     ((c = p \<or> off = Some (length p) \<and> c = p @ body) \<and> length c = n)"
| "appended off body (Complete c) (Complete c') = (c' = c)"
| "appended off body v Absent = True"
| "appended off body v v' = False"

fun kept :: "slot \<Rightarrow> slot \<Rightarrow> bool" where
  "kept (Partial n p) (Partial n' p') = (n' = n \<and> p' = p)"
| "kept (Complete c) (Complete c') = (c' = c)"
| "kept v Absent = True"
| "kept v v' = False"

text \<open>A truthful report of a slot: the offset is the stored length, the file the stored file.\<close>

fun reports :: "jstr \<Rightarrow> upload_state \<Rightarrow> slot \<Rightarrow> bool" where
  "reports i st Absent = False"
| "reports i st (Partial n p) = (st_file st = None \<and> st_offset st = Some (length p))"
| "reports i st (Complete c) =
     (\<exists>f. st_file st = Some f \<and> fileId f = i \<and> fr_size f = length c)"

locale upload_service =
  fixes ask :: "request \<Rightarrow> 's \<Rightarrow> xhr_result \<times> 's"
    and view :: "'s \<Rightarrow> jstr \<Rightarrow> slot"
    and owned :: "'s \<Rightarrow> jstr \<Rightarrow> bool"
    and ready :: "'s \<Rightarrow> bool"
  assumes ready_ask: "ready s \<Longrightarrow> ready (snd (ask r s))"
    and owned_ask: "ready s \<Longrightarrow> owned s i \<Longrightarrow> owned (snd (ask r s)) i"
    and put_view: "ready s \<Longrightarrow> owned s i \<Longrightarrow>
      appended off body (view s i) (view (snd (ask (ReqPut i off body) s)) i)"
    and put_report: "ready s \<Longrightarrow> owned s i \<Longrightarrow>
      ask (ReqPut i off body) s = (XOk status d, s') \<Longrightarrow> status \<in> {200, 409} \<Longrightarrow>
      \<exists>st. d = JObj st \<and> reports i st (view s' i)"
    and state_view: "ready s \<Longrightarrow> owned s i \<Longrightarrow>
      kept (view s i) (view (snd (ask (ReqState i) s)) i)"
    and state_report: "ready s \<Longrightarrow> owned s i \<Longrightarrow>
      ask (ReqState i) s = (XOk 200 d, s') \<Longrightarrow>
      \<exists>st. d = JObj st \<and> uploadId st = Some i \<and> reports i st (view s' i)"
    and create_report: "ready s \<Longrightarrow>
      ask (ReqCreate name n mime) s = (XOk 201 d, s') \<Longrightarrow>
      \<exists>st i. d = JObj st \<and> uploadId st = Some i \<and> owned s' i \<and>
        (n = 0 \<and> view s' i = Complete [] \<and> reports i st (view s' i) \<or>
         0 < n \<and> view s' i = Partial n [] \<and> reports i st (view s' i))"
begin

lemma ready_stable: "ready s \<Longrightarrow> ask r s = (x, s') \<Longrightarrow> ready s'"
  using ready_ask [of s r] by simp

lemma owned_stable: "ready s \<Longrightarrow> owned s i \<Longrightarrow> ask r s = (x, s') \<Longrightarrow> owned s' i"
  using owned_ask [of s i r] by simp

end

end
