(* ===== verification/Upload_Server.thy ===== *)
theory Upload_Server
  imports Upload_Wire
begin

text \<open>
  The hub's resumable uploads (internal/server/upload.go): one definition per handler, over the
  in-memory indexes \<open>files\<close> and \<open>uploads\<close> and the upload directory.

  The directory holds \<open><id>.part\<close> for an unfinished upload and \<open><id>\<close> for a finished one.  What a
  request meets outside the code is its \<open>io\<close>: whether the session cookie is accepted, the outcome
  of \<open>randomID\<close>, whether the file system carries out a create, open, rename, truncation or removal, after how many
  octets the body (or the writing of it) breaks off, if it does, and how many octets a file keeps whose \<open>Close\<close> fails.
  The code ignores the errors of a truncation and of a removal, and that of the \<open>Close\<close> of a form's file.
\<close>

section \<open>State\<close>

datatype fpath = Final jstr | Part jstr

record file_record =
  rec_Name :: jstr
  rec_Size :: nat
  rec_Mime :: jstr
  rec_Path :: fpath
  rec_CreatedAt :: nat

record upload_session =
  us_name :: jstr
  us_mime :: jstr
  us_size :: nat
  us_path :: fpath
  us_updatedAt :: nat

record server =
  disk :: "fpath \<Rightarrow> byte list option"
  files :: "jstr \<Rightarrow> file_record option"
  uploads :: "jstr \<Rightarrow> upload_session option"
  maxUploadBytes :: nat
  clock :: nat

record io =
  io_authorized :: bool
  io_random :: "jstr option"
  io_create :: bool
  io_open :: bool
  io_rename :: bool
  io_truncate :: bool
  io_remove :: bool
  io_close :: "nat option"
  io_break :: "nat option"

definition UploadChunkSize :: nat where
  "UploadChunkSize = 8 * 1024 * 1024"

section \<open>Names\<close>

text \<open>Go's \<open>strings.TrimSpace\<close> and \<open>filepath.Base\<close> (with \<open>/\<close> as separator).\<close>

definition go_is_space :: "jchar \<Rightarrow> bool" where
  "go_is_space c = (c \<in> {9, 10, 11, 12, 13, 32, 0x85, 0xA0, 0x1680, 0x2028, 0x2029, 0x202F,
     0x205F, 0x3000} \<or> (0x2000 \<le> c \<and> c \<le> 0x200A))"

definition go_TrimSpace :: "jstr \<Rightarrow> jstr" where
  "go_TrimSpace s = rev (dropWhile go_is_space (rev (dropWhile go_is_space s)))"

definition go_Base :: "jstr \<Rightarrow> jstr" where
  "go_Base p =
     (if p = [] then [46]
      else (let q = dropWhile (\<lambda>c. c = 47) (rev p) in
            if q = [] then [47] else rev (takeWhile (\<lambda>c. c \<noteq> 47) q)))"

text \<open>
  The length of a string in UTF-8, and the string without its last code point.  A pair of
  surrogates is one code point of four octets.
\<close>

definition is_high :: "jchar \<Rightarrow> bool" where
  "is_high c = (0xD800 \<le> c \<and> c \<le> 0xDBFF)"

definition is_low :: "jchar \<Rightarrow> bool" where
  "is_low c = (0xDC00 \<le> c \<and> c \<le> 0xDFFF)"

definition utf8_width :: "jchar \<Rightarrow> nat" where
  "utf8_width c = (if c < 0x80 then 1 else if c < 0x800 then 2 else 3)"

fun utf8_length :: "jstr \<Rightarrow> nat" where
  "utf8_length [] = 0"
| "utf8_length [c] = utf8_width c"
| "utf8_length (a # b # s) =
     (if is_high a \<and> is_low b then 4 + utf8_length s else utf8_width a + utf8_length (b # s))"

definition drop_last_rune :: "jstr \<Rightarrow> jstr" where
  "drop_last_rune s =
     (case rev s of
        b # a # r \<Rightarrow> if is_high a \<and> is_low b then rev r else rev (a # r)
      | _ \<Rightarrow> [])"

lemma length_drop_last_rune: "s \<noteq> [] \<Longrightarrow> length (drop_last_rune s) < length s"
proof (cases "rev s")
  case (Cons b r)
  then have "s = rev (b # r)" by (metis rev_rev_ident)
  then show ?thesis by (cases r) (auto simp: drop_last_rune_def)
qed simp

text \<open>The loop \<open>for len(name) > 255\<close> of \<open>sanitizeFileName\<close>.\<close>

function cut_name :: "jstr \<Rightarrow> jstr" where
  "cut_name s = (if utf8_length s > 255 then cut_name (drop_last_rune s) else s)"
  by pat_completeness auto
termination
proof (relation "measure length")
  fix s :: jstr
  assume "utf8_length s > 255"
  then have "s \<noteq> []" by auto
  then show "(drop_last_rune s, s) \<in> measure length"
    by (simp add: length_drop_last_rune)
qed simp

declare cut_name.simps [simp del]

definition sanitizeFileName :: "jstr \<Rightarrow> jstr" where
  "sanitizeFileName name =
     (let n = go_TrimSpace (go_Base (replaceAll 92 [47] name)) in
      if n = [] \<or> n = [46] \<or> n = [47] then lit ''file'' else cut_name n)"

definition normalizeMime :: "jstr \<Rightarrow> jstr" where
  "normalizeMime mime =
     (let m = go_TrimSpace mime in
      if m = [] \<or> utf8_length m > 255 then lit ''application/octet-stream'' else m)"

section \<open>Handlers\<close>

definition isHexFileID :: "jstr \<Rightarrow> bool" where
  "isHexFileID i = (length i = 32 \<and> list_all is_hex i)"

definition httpText :: "nat \<Rightarrow> jstr \<Rightarrow> nat \<times> json_data" where
  "httpText status msg = (status, JStr (msg @ [10]))"

definition registerFile :: "jstr \<Rightarrow> jstr \<Rightarrow> jstr \<Rightarrow> fpath \<Rightarrow> nat \<Rightarrow> server \<Rightarrow> file_resp \<times> server" where
  "registerFile i name mime path sz s =
     (\<lparr>fileId = i, fr_name = name, fr_size = sz, fr_mime = mime\<rparr>,
      s\<lparr>files := (files s)(i := Some \<lparr>rec_Name = name, rec_Size = sz, rec_Mime = mime,
          rec_Path = path, rec_CreatedAt = clock s\<rparr>)\<rparr>)"

definition fileResponseFor :: "jstr \<Rightarrow> server \<Rightarrow> file_resp option" where
  "fileResponseFor i s =
     (case files s i of
        None \<Rightarrow> None
      | Some r \<Rightarrow> Some \<lparr>fileId = i, fr_name = rec_Name r, fr_size = rec_Size r, fr_mime = rec_Mime r\<rparr>)"

definition stateResponse :: "jstr \<Rightarrow> nat \<Rightarrow> nat \<Rightarrow> file_resp option \<Rightarrow> json_data" where
  "stateResponse i off sz f =
     JObj \<lparr>uploadId = Some i, st_offset = Some off, st_size = Some sz,
       chunkSize = Some UploadChunkSize, st_file = f\<rparr>"

text \<open>\<open>finishUpload\<close>: rename the part file and register it; \<open>None\<close> when the rename fails.\<close>

definition finishUpload :: "io \<Rightarrow> jstr \<Rightarrow> upload_session \<Rightarrow> server \<Rightarrow> file_resp option \<times> server" where
  "finishUpload w i sess s =
     (if \<not> io_rename w \<or> disk s (us_path sess) = None then (None, s)
      else (let s1 = s\<lparr>disk := (disk s)(Final i := disk s (us_path sess), us_path sess := None),
                       uploads := (uploads s)(i := None)\<rparr>;
                (f, s2) = registerFile i (us_name sess) (us_mime sess) (Final i) (us_size sess) s1
            in (Some f, s2)))"

text \<open>The creation of an upload, once the request is read and its size is not negative.\<close>

definition createUpload ::
    "io \<Rightarrow> jstr \<Rightarrow> nat \<Rightarrow> jstr \<Rightarrow> server \<Rightarrow> (nat \<times> json_data) \<times> server" where
  "createUpload w name sz mime s =
     (if sz > maxUploadBytes s
      then (httpText 413 (lit ''file too large (max '' @ show_nat (maxUploadBytes s div (1024 * 1024)) @ lit '' MiB)''), s)
      else case io_random w of
        None \<Rightarrow> (httpText 500 (lit ''internal error''), s)
      | Some i \<Rightarrow>
          if \<not> io_create w then (httpText 500 (lit ''cannot save file''), s)
          else (let sess = \<lparr>us_name = sanitizeFileName name, us_mime = normalizeMime mime,
                      us_size = sz, us_path = Part i, us_updatedAt = clock s\<rparr>;
                    s1 = s\<lparr>disk := (disk s)(Part i := Some [])\<rparr>
                in if sz = 0
                   then (case finishUpload w i sess s1 of
                           (None, s2) \<Rightarrow> (httpText 500 (lit ''cannot save file''), s2)
                         | (Some f, s2) \<Rightarrow> ((201, stateResponse i 0 0 (Some f)), s2))
                   else ((201, stateResponse i 0 sz None),
                         s1\<lparr>uploads := (uploads s1)(i := Some sess)\<rparr>)))"

text \<open>\<open>handleUploadCreate\<close>; \<open>None\<close> is a body that cannot be decoded.\<close>

definition handleUploadCreate ::
    "io \<Rightarrow> jstr \<Rightarrow> (jstr \<times> int \<times> jstr) option \<Rightarrow> server \<Rightarrow> (nat \<times> json_data) \<times> server" where
  "handleUploadCreate w meth req s =
     (if meth \<noteq> lit ''POST'' then (httpText 405 (lit ''method not allowed''), s)
      else case req of
        None \<Rightarrow> (httpText 400 (lit ''invalid json''), s)
      | Some (name, sz, mime) \<Rightarrow>
          if sz < 0 then (httpText 400 (lit ''invalid size''), s) else createUpload w name (nat sz) mime s)"

lemma handleUploadCreate_page [simp]:
  "handleUploadCreate w (lit ''POST'') (Some (name, int sz, mime)) s = createUpload w name sz mime s"
  by (simp add: handleUploadCreate_def)

text \<open>
  \<open>putChunk\<close>.  \<open>io.Copy\<close> takes octets until the body ends, breaks off, or \<open>limit + 1\<close> have been
  read; in the last case there is no copy error, whatever comes later.  An error of the \<open>Close\<close> is one more way to
  break off.  The error of the truncation is ignored.
\<close>

definition putChunk ::
    "io \<Rightarrow> jstr \<Rightarrow> upload_session \<Rightarrow> nat option \<Rightarrow> byte list \<Rightarrow> server \<Rightarrow> (nat \<times> json_data) \<times> server" where
  "putChunk w i sess off body s =
     (case disk s (us_path sess) of
        None \<Rightarrow> (httpText 404 (lit ''upload not found or expired''), s)
      | Some stored \<Rightarrow>
          let current = length stored in
          if off \<noteq> Some current
          then ((409, stateResponse i current (us_size sess) None), s)
          else if \<not> io_open w then (httpText 500 (lit ''cannot save file''), s)
          else
            let limit = min (int UploadChunkSize) (int (us_size sess) - int current);
                arrived = (case io_break w of None \<Rightarrow> body | Some k \<Rightarrow> take k body);
                copied = take (nat (limit + 1)) arrived;
                written = int (length copied);
                copyErr = (io_break w \<noteq> None \<and> length arrived < nat (limit + 1));
                sess' = sess\<lparr>us_updatedAt := clock s\<rparr>;
                s1 = s\<lparr>disk := (disk s)(us_path sess := Some (stored @ copied)),
                       uploads := (uploads s)(i := Some sess')\<rparr>
            in if written > limit
               then (httpText 413 (lit ''chunk exceeds declared size''),
                     if io_truncate w
                     then s1\<lparr>disk := (disk s1)(us_path sess := Some (take current (stored @ copied)))\<rparr> else s1)
               else if copyErr then (httpText 400 (lit ''chunk interrupted''), s1)
               else
                 let newOffset = current + length copied in
                 if newOffset = us_size sess
                 then (case finishUpload w i sess' s1 of
                         (None, s2) \<Rightarrow> (httpText 500 (lit ''cannot save file''), s2)
                       | (Some f, s2) \<Rightarrow> ((200, stateResponse i newOffset (us_size sess) (Some f)), s2))
                 else ((200, stateResponse i newOffset (us_size sess) None), s1))"

text \<open>
  \<open>handleUploadSession\<close> for the three methods the page uses.  An upload that is already complete
  answers with its file, so that a client whose last answer was lost can go on.
\<close>

definition handleUploadSession :: "io \<Rightarrow> request \<Rightarrow> jstr \<Rightarrow> server \<Rightarrow> (nat \<times> json_data) \<times> server" where
  "handleUploadSession w r i s =
     (if \<not> isHexFileID i then (httpText 404 (lit ''404 page not found''), s)
      else case uploads s i of
        None \<Rightarrow>
          (case fileResponseFor i s of
             Some f \<Rightarrow>
               if (case r of ReqDelete j \<Rightarrow> True | _ \<Rightarrow> False)
               then (httpText 404 (lit ''upload not found or expired''), s)
               else ((200, stateResponse i (fr_size f) (fr_size f) (Some f)), s)
           | None \<Rightarrow> (httpText 404 (lit ''upload not found or expired''), s))
      | Some sess \<Rightarrow>
          (case r of
             ReqState j \<Rightarrow>
               (case disk s (us_path sess) of
                  None \<Rightarrow> (httpText 404 (lit ''upload not found or expired''), s)
                | Some stored \<Rightarrow> ((200, stateResponse i (length stored) (us_size sess) None), s))
           | ReqPut j off body \<Rightarrow> putChunk w i sess off body s
           | ReqDelete j \<Rightarrow>
               ((204, JStr []),
                s\<lparr>uploads := (uploads s)(i := None),
                  disk := (if io_remove w then (disk s)(us_path sess := None) else disk s)\<rparr>)
           | ReqCreate n z m \<Rightarrow> (httpText 405 (lit ''method not allowed''), s)))"

text \<open>Routing: \<open>requireAuth\<close> first, then the handler of the path.\<close>

definition serve :: "io \<Rightarrow> request \<Rightarrow> server \<Rightarrow> (nat \<times> json_data) \<times> server" where
  "serve w r s =
     (if \<not> io_authorized w then (httpText 401 (lit ''pin required''), s)
      else case r of
        ReqCreate name sz mime \<Rightarrow> handleUploadCreate w (lit ''POST'') (Some (name, int sz, mime)) s
      | ReqState i \<Rightarrow> handleUploadSession w r i s
      | ReqPut i off body \<Rightarrow> handleUploadSession w r i s
      | ReqDelete i \<Rightarrow> handleUploadSession w r i s)"

text \<open>
  The clean-up task: files created before the cutoff, then uploads not touched since.  The code
  removes the path each record holds; the handlers only ever store \<open>Final i\<close> for the file \<open>i\<close> and
  \<open>Part i\<close> for the upload \<open>i\<close>, so the removal is written over the ids.  What the system does not remove is in \<open>stuck\<close>: its
  entry goes all the same.
\<close>

definition purgeStaleUploads :: "fpath list \<Rightarrow> nat \<Rightarrow> server \<Rightarrow> server" where
  "purgeStaleUploads stuck cutoff s =
     (let stale = (\<lambda>i. case uploads s i of Some u \<Rightarrow> us_updatedAt u < cutoff | None \<Rightarrow> False) in
      s\<lparr>uploads := (\<lambda>i. if stale i then None else uploads s i),
        disk := (\<lambda>p. case p of Part i \<Rightarrow> if stale i \<and> p \<notin> set stuck then None else disk s p | Final i \<Rightarrow> disk s p)\<rparr>)"

definition purgeExpiredFiles :: "fpath list \<Rightarrow> nat \<Rightarrow> server \<Rightarrow> server" where
  "purgeExpiredFiles stuck ttl s =
     (let cutoff = clock s - ttl;
          stale = (\<lambda>i. case files s i of Some r \<Rightarrow> rec_CreatedAt r < cutoff | None \<Rightarrow> False) in
      purgeStaleUploads stuck cutoff
       (s\<lparr>files := (\<lambda>i. if stale i then None else files s i),
          disk := (\<lambda>p. case p of Final i \<Rightarrow> if stale i \<and> p \<notin> set stuck then None else disk s p | Part i \<Rightarrow> disk s p)\<rparr>))"

section \<open>The upload of one form\<close>

text \<open>
  \<open>handleUpload\<close>, the way without chunks.  A form is what \<open>MultipartReader\<close> gives: its parts in order, up to the end or to
  a part that cannot be read.  The reading of a part's body ends well, breaks off after some octets, or stops there
  because the whole request is larger than \<open>MaxBytesReader\<close> allows.  The errors of \<open>Close\<close> and of the removal are ignored.
\<close>

datatype copy_end = CopyDone | CopyBroken nat | CopyOverLimit nat

record form_part =
  part_field :: jstr
  part_filename :: jstr
  part_type :: jstr
  part_body :: "byte list"
  part_end :: copy_end

datatype form_step = FormPart form_part | FormBroken

definition part_arrives :: "form_part \<Rightarrow> byte list" where
  "part_arrives p =
     (case part_end p of CopyDone \<Rightarrow> part_body p | CopyBroken k \<Rightarrow> take k (part_body p) | CopyOverLimit k \<Rightarrow> take k (part_body p))"

definition too_large_text :: "server \<Rightarrow> jstr" where
  "too_large_text s = lit ''file too large (max '' @ show_nat (maxUploadBytes s div (1024 * 1024)) @ lit '' MiB)''"

definition save_part :: "io \<Rightarrow> form_part \<Rightarrow> server \<Rightarrow> (nat \<times> (jstr + file_resp)) \<times> server" where
  "save_part w p s =
     (case io_random w of
        None \<Rightarrow> ((500, Inl (lit ''internal error'')), s)
      | Some i \<Rightarrow>
          if \<not> io_create w then ((500, Inl (lit ''cannot save file'')), s)
          else
            let mx = maxUploadBytes s;
                copied = take (mx + 1) (part_arrives p);
                written = length copied;
                err = (part_end p \<noteq> CopyDone \<and> length (part_arrives p) < mx + 1);
                stored = (case io_close w of None \<Rightarrow> copied | Some k \<Rightarrow> take k copied);
                removed = s\<lparr>disk := (disk s)(Final i := (if io_remove w then None else Some stored))\<rparr>
            in if written > mx then ((413, Inl (too_large_text s)), removed)
               else if err
               then (case part_end p of
                       CopyOverLimit k \<Rightarrow> ((413, Inl (too_large_text s)), removed)
                     | _ \<Rightarrow> ((500, Inl (lit ''upload failed'')), removed))
               else
                 let (f, s2) = registerFile i (sanitizeFileName (part_filename p)) (normalizeMime (part_type p)) (Final i)
                       written (s\<lparr>disk := (disk s)(Final i := Some stored)\<rparr>)
                 in ((200, Inr f), s2))"

fun upload_parts :: "io \<Rightarrow> form_step list \<Rightarrow> server \<Rightarrow> (nat \<times> (jstr + file_resp)) \<times> server" where
  "upload_parts w [] s = ((400, Inl (lit ''missing file field'')), s)"
| "upload_parts w (FormBroken # ps) s = ((400, Inl (lit ''invalid multipart form'')), s)"
| "upload_parts w (FormPart p # ps) s =
     (if part_field p \<noteq> lit ''file'' then upload_parts w ps s else save_part w p s)"

text \<open>\<open>None\<close> is a body that is no form.\<close>

definition handleUpload :: "io \<Rightarrow> jstr \<Rightarrow> form_step list option \<Rightarrow> server \<Rightarrow> (nat \<times> (jstr + file_resp)) \<times> server" where
  "handleUpload w meth form s =
     (if \<not> io_authorized w then ((401, Inl (lit ''pin required'')), s)
      else if meth \<noteq> lit ''POST'' then ((405, Inl (lit ''method not allowed'')), s)
      else (case form of
              None \<Rightarrow> ((400, Inl (lit ''invalid multipart form'')), s)
            | Some ps \<Rightarrow> upload_parts w ps s))"

section \<open>Starting again\<close>

text \<open>
  A new start of the hub: the indexes are empty, and \<open>removeOrphanUploads\<close> clears the directory of what the last run left,
  except for the files in \<open>stuck\<close>, which the system does not remove.
\<close>

fun path_id :: "fpath \<Rightarrow> jstr" where
  "path_id (Final i) = i"
| "path_id (Part i) = i"

definition removeOrphanUploads :: "fpath list \<Rightarrow> (fpath \<Rightarrow> byte list option) \<Rightarrow> fpath \<Rightarrow> byte list option" where
  "removeOrphanUploads stuck d = (\<lambda>p. if isHexFileID (path_id p) \<and> p \<notin> set stuck then None else d p)"

definition restart :: "fpath list \<Rightarrow> server \<Rightarrow> server" where
  "restart stuck s = s\<lparr>files := Map.empty, uploads := Map.empty, disk := removeOrphanUploads stuck (disk s)\<rparr>"

end
