(* ===== verification/Query.thy ===== *)
theory Query
  imports Uri Upload_Server
begin

text \<open>
  Query strings on their way from the page to the hub: what \<open>encodeURIComponent\<close> and \<open>URLSearchParams\<close>
  write, what the browser makes of it in a request, and how \<open>URL.Query\<close> of Go reads it.  The page writes UTF-16 code
  units, the query is ASCII, and a Go string is a list of octets.
\<close>

section \<open>Code points of a text\<close>

fun code_points :: "jstr \<Rightarrow> nat list" where
  "code_points [] = []"
| "code_points [c] = [c]"
| "code_points (a # b # s) =
     (if is_high a \<and> is_low b then (0x10000 + (a - 0xD800) * 1024 + (b - 0xDC00)) # code_points s
      else a # code_points (b # s))"

text \<open>The conversion to a \<open>USVString\<close>: a surrogate without its partner becomes U+FFFD.\<close>

definition to_scalar :: "nat \<Rightarrow> nat" where
  "to_scalar c = (if scalar c then c else 0xFFFD)"

definition usv :: "jstr \<Rightarrow> nat list" where
  "usv s = map to_scalar (code_points s)"

definition is_well_formed :: "jstr \<Rightarrow> bool" where
  "is_well_formed s = list_all scalar (code_points s)"

section \<open>Writing\<close>

definition octets_out :: "(byte \<Rightarrow> bool) \<Rightarrow> bool \<Rightarrow> byte list \<Rightarrow> jstr" where
  "octets_out keep sp_plus bs = concat (map (octet_out keep sp_plus) bs)"

definition uri_keep :: "byte \<Rightarrow> bool" where
  "uri_keep b = (is_alnum b \<or> b \<in> {45, 95, 46, 33, 126, 42, 39, 40, 41})"

definition form_keep :: "byte \<Rightarrow> bool" where
  "form_keep b = (is_alnum b \<or> b \<in> {42, 45, 46, 95})"

text \<open>\<open>None\<close> is the URIError for a surrogate without its partner.\<close>

definition encodeURIComponent :: "jstr \<Rightarrow> jstr option" where
  "encodeURIComponent s =
     (if is_well_formed s then Some (octets_out uri_keep False (utf8 (code_points s))) else None)"

text \<open>\<open>URLSearchParams\<close> as a string.\<close>

definition form_encode :: "jstr \<Rightarrow> jstr" where
  "form_encode s = octets_out form_keep True (utf8 (usv s))"

definition search_params :: "(jstr \<times> jstr) list \<Rightarrow> jstr" where
  "search_params ps = join [38] (map (\<lambda>(k, v). form_encode k @ [61] @ form_encode v) ps)"

text \<open>
  The query of the request for a URL the page wrote: from the question mark to the fragment, with an apostrophe
  escaped, the only one of the characters the encodings keep that a browser escapes in a query.
\<close>

definition request_query :: "jstr \<Rightarrow> jstr" where
  "request_query url =
     replaceAll 39 (lit ''%27'') (takeWhile (\<lambda>c. c \<noteq> 35) (drop 1 (dropWhile (\<lambda>c. c \<noteq> 63) url)))"

section \<open>Reading\<close>

text \<open>\<open>url.QueryUnescape\<close>.\<close>

function QueryUnescape :: "jstr \<Rightarrow> byte list option" where
  "QueryUnescape [] = Some []"
| "QueryUnescape (c # s) =
     (if c = 37
      then (case read_pct (c # s) of None \<Rightarrow> None | Some (b, r) \<Rightarrow> map_option ((#) b) (QueryUnescape r))
      else map_option ((#) (if c = 43 then 32 else c)) (QueryUnescape s))"
  by pat_completeness auto
termination
  by (relation "measure length") (auto dest!: read_pct_shorter)

fun splitOn :: "jchar \<Rightarrow> jstr \<Rightarrow> jstr list" where
  "splitOn c [] = [[]]"
| "splitOn c (x # xs) =
     (if x = c then [] # splitOn c xs
      else (case splitOn c xs of [] \<Rightarrow> [[x]] | p # ps \<Rightarrow> (x # p) # ps))"

text \<open>\<open>url.ParseQuery\<close> leaves out a pair that is empty, has a semicolon or cannot be decoded.\<close>

definition query_pair :: "jstr \<Rightarrow> (byte list \<times> byte list) option" where
  "query_pair p =
     (if p = [] \<or> 59 \<in> set p then None
      else case (QueryUnescape (takeWhile (\<lambda>c. c \<noteq> 61) p), QueryUnescape (drop 1 (dropWhile (\<lambda>c. c \<noteq> 61) p))) of
        (Some k, Some v) \<Rightarrow> Some (k, v)
      | _ \<Rightarrow> None)"

definition ParseQuery :: "jstr \<Rightarrow> (byte list \<times> byte list) list" where
  "ParseQuery raw = List.map_filter query_pair (splitOn 38 raw)"

text \<open>\<open>Values.Get\<close>: the first value, or the empty string.\<close>

definition query_get :: "byte list \<Rightarrow> jstr \<Rightarrow> byte list" where
  "query_get key raw =
     (case filter (\<lambda>kv. fst kv = key) (ParseQuery raw) of [] \<Rightarrow> [] | kv # _ \<Rightarrow> snd kv)"

section \<open>A Go string as text\<close>

text \<open>The runes of a string: an octet that is not part of valid UTF-8 reads as U+FFFD.\<close>

function go_runes :: "byte list \<Rightarrow> nat list" where
  "go_runes [] = []"
| "go_runes (b # bs) =
     (if b < 0x80 then b # go_runes bs
      else if followers b = 0 then 0xFFFD # go_runes bs
      else case utf8_dec (b # take (followers b) bs) of
        None \<Rightarrow> 0xFFFD # go_runes bs
      | Some v \<Rightarrow> v # go_runes (drop (followers b) bs))"
  by pat_completeness auto
termination by (relation "measure length") auto

definition rune_text :: "byte list \<Rightarrow> jstr" where
  "rune_text bs = utf16 (go_runes bs)"

text \<open>\<open>strings.TrimSpace\<close> on octets.\<close>

definition go_spaces :: "nat list" where
  "go_spaces = [9, 10, 11, 12, 13, 32, 0x85, 0xA0, 0x1680] @ [0x2000..<0x200B] @ [0x2028, 0x2029, 0x202F, 0x205F, 0x3000]"

function strip_codes :: "byte list list \<Rightarrow> byte list \<Rightarrow> byte list" where
  "strip_codes es s =
     (case find (\<lambda>e. e \<noteq> [] \<and> take (length e) s = e) es of
        None \<Rightarrow> s
      | Some e \<Rightarrow> strip_codes es (drop (length e) s))"
  by pat_completeness auto
termination
proof (relation "measure (length \<circ> snd)")
  fix es s e
  assume "find (\<lambda>e. e \<noteq> [] \<and> take (length e) s = e) es = Some e"
  then have "e \<noteq> []" "take (length e) s = e" by (auto simp: find_Some_iff)
  then show "((es, drop (length e) s), (es, s)) \<in> measure (length \<circ> snd)" by (cases s) auto
qed simp

declare strip_codes.simps [simp del]

definition octet_TrimSpace :: "byte list \<Rightarrow> byte list" where
  "octet_TrimSpace s =
     rev (strip_codes (map (rev \<circ> utf8_enc) go_spaces) (rev (strip_codes (map utf8_enc go_spaces) s)))"

section \<open>Code points and their encodings\<close>

lemma utf16_code_points: "\<forall>c \<in> set s. c < 0x10000 \<Longrightarrow> utf16 (code_points s) = s"
proof (induction s rule: code_points.induct)
  case (3 a b s)
  show ?case
  proof (cases "is_high a \<and> is_low b")
    case True
    then obtain h l where ab: "a = 0xD800 + h" "b = 0xDC00 + l" "h < 1024" "l < 1024"
      by (auto simp: is_high_def is_low_def le_iff_add)
    then have "(h * 1024 + l) div 1024 = h" "(h * 1024 + l) mod 1024 = l" by simp_all
    with True 3 ab show ?thesis by (simp add: utf16_def utf16_enc_def)
  next
    case False
    with 3 show ?thesis by (auto simp: utf16_def utf16_enc_def)
  qed
qed (simp_all add: utf16_def utf16_enc_def)

lemma to_scalar [simp]: "scalar (to_scalar c)" "scalar c \<Longrightarrow> to_scalar c = c"
  by (simp_all add: to_scalar_def scalar_def)

lemma usv_scalar: "\<forall>c \<in> set (usv s). scalar c"
  by (simp add: usv_def)

lemma usv_well_formed: "is_well_formed s \<Longrightarrow> usv s = code_points s"
  by (auto simp: usv_def is_well_formed_def list_all_iff map_idI)

text \<open>\<open>toWellFormed\<close>: the text as it can be sent.\<close>

definition to_well_formed :: "jstr \<Rightarrow> jstr" where
  "to_well_formed s = utf16 (usv s)"

lemma to_well_formed_id: "is_well_formed s \<Longrightarrow> \<forall>c \<in> set s. c < 0x10000 \<Longrightarrow> to_well_formed s = s"
  by (simp add: to_well_formed_def usv_well_formed utf16_code_points)

text \<open>The shape of a code: one octet that starts it, and octets that do not.\<close>

lemma utf8_shape:
  assumes "scalar c"
  obtains b bs where "utf8_enc c = b # bs" "\<not> cont b" "\<forall>x \<in> set bs. cont x" "followers b = length bs" "b < 256"
    "c < 0x80 \<Longrightarrow> b = c \<and> bs = []" "0x80 \<le> c \<Longrightarrow> 0xC0 \<le> b \<and> utf8_dec (b # bs) = Some c"
proof (cases "c < 0x80")
  case True
  then show ?thesis by (intro that [of c "[]"]) (simp_all add: utf8_enc_def cont_def followers_def)
next
  case False
  from utf8_dec_enc [OF assms False] obtain b bs where
    b: "utf8_enc c = b # bs" "0xC0 \<le> b" "b < 0xF8" "followers b = length bs" "\<forall>x \<in> set bs. cont x"
      "utf8_dec (b # bs) = Some c" by blast
  then show ?thesis using False by (intro that [of b bs]) (simp_all add: cont_def)
qed

lemma utf8_enc_inject:
  assumes "scalar c" and "scalar d" and "utf8_enc c = utf8_enc d"
  shows "c = d"
proof -
  obtain b bs where c: "utf8_enc c = b # bs" "c < 0x80 \<Longrightarrow> b = c \<and> bs = []"
    "0x80 \<le> c \<Longrightarrow> 0xC0 \<le> b \<and> utf8_dec (b # bs) = Some c" using utf8_shape [OF assms(1)] by metis
  obtain a as where d: "utf8_enc d = a # as" "d < 0x80 \<Longrightarrow> a = d \<and> as = []"
    "0x80 \<le> d \<Longrightarrow> 0xC0 \<le> a \<and> utf8_dec (a # as) = Some d" using utf8_shape [OF assms(2)] by metis
  from assms(3) c(1) d(1) have "a = b" "as = bs" by simp_all
  with c d show ?thesis by (cases "c < 0x80"; cases "d < 0x80") auto
qed

lemma utf8_prefix:
  assumes "scalar c" and "scalar d" and "utf8_enc c @ x = utf8_enc d @ y"
  shows "c = d"
proof -
  obtain b bs where c: "utf8_enc c = b # bs" "followers b = length bs" using utf8_shape [OF assms(1)] by metis
  obtain a as where d: "utf8_enc d = a # as" "followers a = length as" using utf8_shape [OF assms(2)] by metis
  from assms(3) c d have "utf8_enc c = utf8_enc d" by auto
  with assms show ?thesis by (intro utf8_enc_inject)
qed

lemma utf8_suffix:
  assumes "scalar c" and "scalar d" and "rev (utf8_enc c) @ x = rev (utf8_enc d) @ y"
  shows "c = d"
proof -
  obtain b bs where c: "utf8_enc c = b # bs" "\<not> cont b" "\<forall>x \<in> set bs. cont x" using utf8_shape [OF assms(1)] by metis
  obtain a as where d: "utf8_enc d = a # as" "\<not> cont a" "\<forall>x \<in> set as. cont x" using utf8_shape [OF assms(2)] by metis
  from assms(3) c(1) d(1) have eq: "rev bs @ b # x = rev as @ a # y" by simp
  have "takeWhile cont (rev bs @ b # x) = rev bs" using c by (subst takeWhile_append2) auto
  moreover have "takeWhile cont (rev as @ a # y) = rev as" using d by (subst takeWhile_append2) auto
  ultimately have "rev bs = rev as" using eq by simp
  with eq c(1) d(1) have "utf8_enc c = utf8_enc d" by simp
  with assms show ?thesis by (intro utf8_enc_inject)
qed

lemma utf8_enc_nonempty [simp]: "utf8_enc c \<noteq> []"
  by (simp add: utf8_enc_def)

lemma utf8_Cons [simp]: "utf8 (c # t) = utf8_enc c @ utf8 t" and utf8_Nil [simp]: "utf8 [] = []"
  by (simp_all add: utf8_def)

lemma utf8_ascii: "\<forall>c \<in> set s. c < 0x80 \<Longrightarrow> utf8 s = s"
  by (induction s) (auto simp: utf8_enc_def)

lemma utf8_bytes: "\<forall>c \<in> set t. scalar c \<Longrightarrow> \<forall>b \<in> set (utf8 t). b < 256"
proof (induction t)
  case (Cons c t)
  then have "scalar c" by simp
  then obtain b bs where "utf8_enc c = b # bs" "b < 256" "\<forall>x \<in> set bs. cont x" using utf8_shape by metis
  with Cons show ?case by (auto simp: cont_def)
qed simp

lemma go_runes_utf8: "\<forall>c \<in> set t. scalar c \<Longrightarrow> go_runes (utf8 t) = t"
proof (induction t)
  case (Cons c t)
  then have "scalar c" by simp
  then obtain b bs where c: "utf8_enc c = b # bs" "followers b = length bs" "c < 0x80 \<Longrightarrow> b = c \<and> bs = []"
    "0x80 \<le> c \<Longrightarrow> 0xC0 \<le> b \<and> utf8_dec (b # bs) = Some c" using utf8_shape by metis
  have "followers b \<noteq> 0" if "0x80 \<le> c"
    using c(4) [OF that] c(2) by (cases bs) auto
  with c Cons show ?case by (cases "c < 0x80") (auto simp: not_less)
qed simp

text \<open>A text sent as its UTF-8 octets arrives, except for lone surrogates.\<close>

lemma rune_text_utf8: "\<forall>c \<in> set t. scalar c \<Longrightarrow> rune_text (utf8 t) = utf16 t"
  by (simp add: rune_text_def go_runes_utf8)

section \<open>Trimming\<close>

lemma go_spaces_scalar: "c \<in> set go_spaces \<Longrightarrow> scalar c"
  by (auto simp: go_spaces_def scalar_def)

lemma go_spaces_iff: "c \<in> set go_spaces \<longleftrightarrow> go_is_space c"
  unfolding go_spaces_def go_is_space_def set_append set_upt by auto

lemma strip_codes_text:
  assumes "\<And>c. code c \<noteq> []" and "\<And>c d x y. scalar c \<Longrightarrow> scalar d \<Longrightarrow> code c @ x = code d @ y \<Longrightarrow> c = d"
    and "\<forall>c \<in> set sp. scalar c" and "\<forall>c \<in> set t. scalar c"
  shows "strip_codes (map code sp) (concat (map code t)) = concat (map code (dropWhile (\<lambda>c. c \<in> set sp) t))"
  using assms(4)
proof (induction t)
  case Nil
  have "find (\<lambda>e. e \<noteq> [] \<and> take (length e) [] = e) (map code sp) = None" by (auto simp: find_None_iff)
  then show ?case by (simp add: strip_codes.simps)
next
  case (Cons d t)
  let ?s = "concat (map code (d # t))"
  let ?P = "\<lambda>e. e \<noteq> [] \<and> take (length e) ?s = e"
  have hit: "c = d" if "c \<in> set sp" "take (length (code c)) ?s = code c" for c
  proof -
    have "code c @ drop (length (code c)) ?s = ?s" using that(2) append_take_drop_id [of "length (code c)" ?s] by simp
    then have "code c @ drop (length (code c)) ?s = code d @ concat (map code t)" by simp
    with assms(2) [of c d] that(1) assms(3) Cons.prems show "c = d" by auto
  qed
  show ?case
  proof (cases "d \<in> set sp")
    case True
    then have "code d \<in> set (map code sp)" and "?P (code d)" using assms(1) by auto
    then have "find ?P (map code sp) \<noteq> None" unfolding find_None_iff by blast
    then obtain e where e: "find ?P (map code sp) = Some e" by blast
    then have "e \<in> set (map code sp)" "take (length e) ?s = e" by (auto simp: find_Some_iff)
    with hit have "e = code d" by auto
    with e have "strip_codes (map code sp) ?s = strip_codes (map code sp) (concat (map code t))"
      by (subst strip_codes.simps) simp
    with Cons True show ?thesis by simp
  next
    case False
    then have "find ?P (map code sp) = None" using hit by (auto simp: find_None_iff)
    then have "strip_codes (map code sp) ?s = ?s" by (subst strip_codes.simps) (simp only: option.case)
    with False show ?thesis by simp
  qed
qed

definition rune_TrimSpace :: "nat list \<Rightarrow> nat list" where
  "rune_TrimSpace t = rev (dropWhile go_is_space (rev (dropWhile go_is_space t)))"

lemma rune_TrimSpace_subset: "set (rune_TrimSpace t) \<subseteq> set t"
  by (auto simp: rune_TrimSpace_def dest!: set_dropWhileD)

lemma octet_TrimSpace_utf8:
  assumes "\<forall>c \<in> set t. scalar c"
  shows "octet_TrimSpace (utf8 t) = utf8 (rune_TrimSpace t)"
proof -
  let ?d = "dropWhile go_is_space"
  have sp: "\<forall>c \<in> set go_spaces. scalar c" by (simp add: go_spaces_scalar)
  have d: "\<forall>c \<in> set (rev (?d t)). scalar c" using assms by (auto dest!: set_dropWhileD)
  have rev_utf8: "rev (utf8 u) = concat (map (rev \<circ> utf8_enc) (rev u))" for u
    by (simp add: utf8_def rev_concat rev_map)
  have "strip_codes (map utf8_enc go_spaces) (utf8 t) = utf8 (?d t)"
    using strip_codes_text [of utf8_enc go_spaces t, OF utf8_enc_nonempty utf8_prefix sp assms]
    by (simp add: utf8_def go_spaces_iff)
  moreover have "strip_codes (map (rev \<circ> utf8_enc) go_spaces) (rev (utf8 (?d t)))
      = concat (map (rev \<circ> utf8_enc) (?d (rev (?d t))))"
    unfolding rev_utf8
    using strip_codes_text [of "rev \<circ> utf8_enc" go_spaces "rev (?d t)", OF _ _ sp d] utf8_suffix
    by (simp add: go_spaces_iff)
  ultimately show ?thesis
    unfolding octet_TrimSpace_def rune_TrimSpace_def using rev_utf8 [of "rev (?d (rev (?d t)))"]
    by (simp add: rev_swap)
qed

text \<open>No surrogate is a space, so trimming code points and trimming code units agree.\<close>

lemma dropWhile_units:
  assumes "\<And>c. scalar c \<Longrightarrow> f c \<noteq> [] \<and> (if go_is_space c then f c = [c] else \<not> go_is_space (hd (f c)))"
    and "\<forall>c \<in> set t. scalar c"
  shows "dropWhile go_is_space (concat (map f t)) = concat (map f (dropWhile go_is_space t))"
  using assms(2)
proof (induction t)
  case (Cons c t)
  then have "f c \<noteq> []" "if go_is_space c then f c = [c] else \<not> go_is_space (hd (f c))" using assms(1) by auto
  with Cons show ?case by (cases "f c") (auto split: if_splits)
qed simp

lemma utf16_unit:
  assumes "scalar c"
  shows "utf16_enc c \<noteq> [] \<and> (if go_is_space c then utf16_enc c = [c] else \<not> go_is_space (hd (utf16_enc c)))"
    and "rev (utf16_enc c) \<noteq> [] \<and> (if go_is_space c then rev (utf16_enc c) = [c] else \<not> go_is_space (hd (rev (utf16_enc c))))"
proof -
  have high: "\<not> go_is_space (0xD800 + n)" and low: "\<not> go_is_space (0xDC00 + n)" for n
    by (auto simp: go_is_space_def)
  have small: "go_is_space c \<Longrightarrow> c < 0x10000" by (auto simp: go_is_space_def)
  show "utf16_enc c \<noteq> [] \<and> (if go_is_space c then utf16_enc c = [c] else \<not> go_is_space (hd (utf16_enc c)))"
    and "rev (utf16_enc c) \<noteq> [] \<and> (if go_is_space c then rev (utf16_enc c) = [c] else \<not> go_is_space (hd (rev (utf16_enc c))))"
    using small by (auto simp: utf16_enc_def high low)
qed

lemma go_TrimSpace_utf16:
  assumes "\<forall>c \<in> set t. scalar c"
  shows "go_TrimSpace (utf16 t) = utf16 (rune_TrimSpace t)"
proof -
  let ?d = "dropWhile go_is_space"
  have d: "\<forall>c \<in> set (rev (?d t)). scalar c" using assms by (auto dest!: set_dropWhileD)
  have rev_utf16: "rev (utf16 u) = concat (map (\<lambda>c. rev (utf16_enc c)) (rev u))" for u
    by (simp add: utf16_def rev_concat rev_map comp_def)
  have "?d (utf16 t) = utf16 (?d t)"
    unfolding utf16_def using utf16_unit(1) assms by (rule dropWhile_units)
  moreover have "?d (rev (utf16 (?d t))) = concat (map (\<lambda>c. rev (utf16_enc c)) (?d (rev (?d t))))"
    unfolding rev_utf16 using utf16_unit(2) d by (rule dropWhile_units)
  ultimately show ?thesis
    unfolding go_TrimSpace_def rune_TrimSpace_def using rev_utf16 [of "rev (?d (rev (?d t)))"]
    by (simp add: rev_swap)
qed

lemma rune_text_trim:
  assumes "\<forall>c \<in> set t. scalar c"
  shows "rune_text (octet_TrimSpace (utf8 t)) = go_TrimSpace (utf16 t)"
proof -
  have "\<forall>c \<in> set (rune_TrimSpace t). scalar c" using assms rune_TrimSpace_subset by blast
  with assms show ?thesis by (simp add: octet_TrimSpace_utf8 rune_text_utf8 go_TrimSpace_utf16)
qed

section \<open>Escaping and reading back\<close>

text \<open>The octets a query encoding may keep: none with a meaning in a query.\<close>

definition query_keep :: "(byte \<Rightarrow> bool) \<Rightarrow> bool" where
  "query_keep keep \<longleftrightarrow> (\<forall>b. keep b \<longrightarrow> b \<notin> {35, 37, 38, 43, 59, 61, 63})"

lemma query_keep [simp]: "query_keep uri_keep" "query_keep form_keep"
  by (auto simp: query_keep_def uri_keep_def form_keep_def is_alnum_def)

lemma octets_out_Cons [simp]: "octets_out keep sp_plus (b # bs) = octet_out keep sp_plus b @ octets_out keep sp_plus bs"
  and octets_out_Nil [simp]: "octets_out keep sp_plus [] = []"
  by (simp_all add: octets_out_def)

lemma upper_hex_bounds: "d < 16 \<Longrightarrow> 48 \<le> upper_hex d \<and> upper_hex d < 71 \<and> upper_hex d \<noteq> 59 \<and> upper_hex d \<noteq> 61 \<and> upper_hex d \<noteq> 63"
  by (auto simp: upper_hex_def)

definition query_mark :: "jchar \<Rightarrow> bool" where
  "query_mark x \<longleftrightarrow> x \<in> {35, 38, 59, 61, 63}"

lemma query_mark_hex: "d < 16 \<Longrightarrow> \<not> query_mark (upper_hex d)"
  using upper_hex_bounds [of d] by (auto simp: query_mark_def)

lemma octet_out_plain:
  assumes "query_keep keep" and "b < 256" and "x \<in> set (octet_out keep sp_plus b)"
  shows "\<not> query_mark x"
proof -
  have "b div 16 < 16" using assms(2) by auto
  then have "\<not> query_mark (upper_hex (b div 16))" "\<not> query_mark (upper_hex (b mod 16))"
    using query_mark_hex by simp_all
  moreover have "keep b \<Longrightarrow> \<not> query_mark b" "\<not> query_mark 43" "\<not> query_mark 37"
    using assms(1) by (auto simp: query_keep_def query_mark_def)
  ultimately show ?thesis
    using assms(3) by (auto simp: octet_out_def split: if_split_asm)
qed

lemma octets_out_plain:
  assumes "query_keep keep" and "\<forall>b \<in> set bs. b < 256"
  shows "query_mark x \<Longrightarrow> x \<notin> set (octets_out keep sp_plus bs)"
  using assms(2) octet_out_plain [OF assms(1)] unfolding octets_out_def by auto

lemma query_marks [simp]: "query_mark 35" "query_mark 38" "query_mark 59" "query_mark 61" "query_mark 63"
  by (simp_all add: query_mark_def)

lemma QueryUnescape_octet:
  assumes "query_keep keep" and "b < 256"
  shows "QueryUnescape (octet_out keep sp_plus b @ s) = map_option ((#) b) (QueryUnescape s)"
proof -
  have "b div 16 < 16" using assms(2) by auto
  then show ?thesis using assms by (auto simp: octet_out_def query_keep_def)
qed

lemma QueryUnescape_out:
  assumes "query_keep keep" and "\<forall>b \<in> set bs. b < 256"
  shows "QueryUnescape (octets_out keep sp_plus bs) = Some bs"
  using assms(2) by (induction bs) (simp_all add: QueryUnescape_octet [OF assms(1)])

text \<open>The apostrophe the browser escapes is as good as escaped in the first place.\<close>

lemma escape_apostrophe:
  assumes "\<forall>b \<in> set bs. b < 256"
  shows "replaceAll 39 (lit ''%27'') (octets_out keep sp_plus bs) = octets_out (\<lambda>b. keep b \<and> b \<noteq> 39) sp_plus bs"
  using assms
proof (induction bs)
  case (Cons b bs)
  then have "b < 256" by simp
  then have "b div 16 < 16" by auto
  with upper_hex_bounds [OF this] upper_hex_bounds [of "b mod 16"] Cons show ?case
    by (auto simp: octet_out_def upper_hex_def js_eval)
qed simp

section \<open>Pairs\<close>

lemma splitOn_plain: "c \<notin> set a \<Longrightarrow> splitOn c a = [a]"
  by (induction a) auto

lemma splitOn_append: "c \<notin> set a \<Longrightarrow> splitOn c (a @ c # s) = a # splitOn c s"
  by (induction a) auto

lemma takeWhile_until: "c \<notin> set a \<Longrightarrow> takeWhile (\<lambda>x. x \<noteq> c) (a @ c # s) = a"
  and dropWhile_until: "c \<notin> set a \<Longrightarrow> dropWhile (\<lambda>x. x \<noteq> c) (a @ c # s) = c # s"
  by (induction a) auto

lemma query_pair_out:
  assumes "query_keep keep" and "\<forall>b \<in> set k. b < 256" and "\<forall>b \<in> set v. b < 256"
  shows "query_pair (octets_out keep sp_plus k @ 61 # octets_out keep sp_plus v) = Some (k, v)"
proof -
  let ?k = "octets_out keep sp_plus k" and ?v = "octets_out keep sp_plus v"
  have "61 \<notin> set ?k" "59 \<notin> set ?k" "59 \<notin> set ?v"
    using octets_out_plain [OF assms(1,2)] octets_out_plain [OF assms(1,3)] by simp_all
  then show ?thesis
    unfolding query_pair_def
    by (simp add: takeWhile_until dropWhile_until QueryUnescape_out [OF assms(1,2)] QueryUnescape_out [OF assms(1,3)])
qed

lemma ParseQuery_Nil [simp]: "ParseQuery [] = []"
  by (simp add: ParseQuery_def query_pair_def map_filter_simps)

lemma ParseQuery_Cons:
  assumes "38 \<notin> set p" and "query_pair p = Some kv"
  shows "ParseQuery (p @ 38 # s) = kv # ParseQuery s" and "ParseQuery p = [kv]"
  using assms by (simp_all add: ParseQuery_def splitOn_append splitOn_plain map_filter_simps)

end
