(* ===== verification/Join.thy ===== *)
theory Join
  imports Query Platform
begin

text \<open>
  Joining a room (web/static/app.js: \<open>joinHintAddress\<close>, \<open>isLANIPv4Host\<close>, \<open>pickJoinURL\<close>,
  \<open>renderSidePanel\<close>, \<open>showInfoDialog\<close>, \<open>submitPIN\<close>, \<open>consumePINFromHash\<close>) and the part of
  the hub that hands out the link (\<open>handleInfo\<close> of internal/server/server.go).

  The address of the page is a record of the parts of \<open>location\<close> the code reads.
\<close>

section \<open>Addresses\<close>

record page_location =
  loc_origin :: jstr
  loc_hostname :: jstr
  loc_host :: jstr
  loc_href :: jstr
  loc_hash :: jstr
  loc_search :: jstr

text \<open>The fields of \<open>/api/info\<close> the page reads.\<close>

record conn_info =
  joinUrl :: jstr
  info_urls :: "jstr list"
  pinRequired :: bool
  authorized :: bool
  clientCount :: nat
  retentionSec :: nat

text \<open>\<open>\d{1,3}\<close>.\<close>

definition short_number :: "jstr \<Rightarrow> bool" where
  "short_number p = (1 \<le> length p \<and> length p \<le> 3 \<and> list_all is_digit p)"

definition isLANIPv4Host :: "jstr \<Rightarrow> bool" where
  "isLANIPv4Host host =
     (case splitOn 46 (toLowerCase host) of
        [a, b, c, d] \<Rightarrow>
          a = lit ''192'' \<and> b = lit ''168'' \<and> short_number c \<and> short_number d \<or>
          a = lit ''10'' \<and> short_number b \<and> short_number c \<and> short_number d
      | _ \<Rightarrow> False)"

text \<open>\<open>joinUrl.includes("#") ? joinUrl.slice(joinUrl.indexOf("#")) : ""\<close>.\<close>

definition fragment :: "jstr \<Rightarrow> jstr" where
  "fragment url = dropWhile (\<lambda>c. c \<noteq> 35) url"

definition pickJoinURL :: "page_location \<Rightarrow> conn_info \<Rightarrow> jstr" where
  "pickJoinURL loc info =
     (if isLANIPv4Host (loc_hostname loc) then loc_origin loc @ [47] @ fragment (joinUrl info)
      else or_default (joinUrl info) (loc_href loc))"

definition joinHintAddress :: "page_location \<Rightarrow> jstr" where
  "joinHintAddress loc =
     (let h = loc_hostname loc in
      if h = lit ''localhost'' \<or> h = lit ''::1'' \<or> h = lit ''[::1]'' \<or> startsWith h (lit ''127.'')
      then lit ''http://192.168.x.x:8787'' else loc_origin loc)"

text \<open>What the side panel shows: the address without the fragment and without a final slash.\<close>

definition drop_slash :: "jstr \<Rightarrow> jstr" where
  "drop_slash s = (if s \<noteq> [] \<and> last s = 47 then butlast s else s)"

definition plainUrl :: "jstr \<Rightarrow> jstr" where
  "plainUrl url = drop_slash (takeWhile (\<lambda>c. c \<noteq> 35) url)"

record side_panel =
  side_qr :: jstr
  side_url :: jstr
  side_pin_hidden :: bool

text \<open>
  The image of the QR code is the hub's answer to a request with the address; \<open>now\<close> is the time in milliseconds.
  \<open>None\<close> is the exception of \<open>encodeURIComponent\<close>, which comes before anything is shown.
\<close>

definition qr_request :: "nat \<Rightarrow> jstr \<Rightarrow> jstr option" where
  "qr_request now url =
     map_option (\<lambda>enc. lit ''/api/qrcode?url='' @ enc @ lit ''&t='' @ show_nat now) (encodeURIComponent url)"

definition renderSidePanel :: "nat \<Rightarrow> page_location \<Rightarrow> conn_info \<Rightarrow> side_panel option" where
  "renderSidePanel now loc info =
     (let url = pickJoinURL loc info in
      map_option (\<lambda>src. \<lparr>side_qr = src, side_url = plainUrl url, side_pin_hidden = (\<not> pinRequired info)\<rparr>)
        (qr_request now url))"

text \<open>The entries of the dialog, and the address under its QR code.\<close>

definition infoDialogEntries :: "conn_info \<Rightarrow> jstr list" where
  \<open>infoDialogEntries info =
     map (\<lambda>url. lit ''<strong>'' @ [0x5C40, 0x57DF, 0x7F51, 0x5730, 0x5740] @ lit ''</strong>'' @ escapeHTML url) (info_urls info)\<close>

section \<open>The PIN\<close>

text \<open>The fetch in \<open>submitPIN\<close>: a status, or an exception with its message.\<close>

datatype fetch_result = Status nat | FetchFailed jstr

text \<open>\<open>resp.ok\<close>.\<close>

definition ok_status :: "nat \<Rightarrow> bool" where
  "ok_status s = (200 \<le> s \<and> s \<le> 299)"

text \<open>The result: \<open>Inr ()\<close>, or the message shown.  An empty PIN is not sent.\<close>

definition submitPIN :: "jstr \<Rightarrow> (jstr \<Rightarrow> 's \<Rightarrow> fetch_result \<times> 's) \<Rightarrow> 's \<Rightarrow> (jstr + unit) \<times> 's" where
  "submitPIN pin post s =
     (if pin = [] then (Inl [0x8BF7, 0x8F93, 0x5165, 0x623F, 0x95F4, 0x53E3, 0x4EE4], s)
      else (case post pin s of
              (Status c, s') \<Rightarrow>
                (if ok_status c then Inr ()
                 else if c = 429 then Inl ([0x5C1D, 0x8BD5, 0x6B21, 0x6570, 0x8FC7, 0x591A, 0xFF0C, 0x8BF7] @ lit '' 1 '' @ [0x5206, 0x949F, 0x540E, 0x518D, 0x8BD5])
                 else Inl [0x53E3, 0x4EE4, 0x9519, 0x8BEF], s')
            | (FetchFailed m, s') \<Rightarrow> (Inl (([0x65E0, 0x6CD5, 0x8FDE, 0x63A5] @ lit '' Hub'' @ [0xFF1A]) @ m), s')))"

text \<open>
  \<open>location.hash.match(/(?:^#|&)pin=([^&]*)/)\<close>: the leftmost match.
\<close>

fun amp_pin :: "jstr \<Rightarrow> jstr option" where
  "amp_pin [] = None"
| "amp_pin (c # s) =
     (if startsWith (c # s) (lit ''&pin='') then Some (takeWhile (\<lambda>x. x \<noteq> 38) (drop 5 (c # s)))
      else amp_pin s)"

definition match_pin :: "jstr \<Rightarrow> jstr option" where
  "match_pin hash =
     (if startsWith hash (lit ''#pin='') then Some (takeWhile (\<lambda>x. x \<noteq> 38) (drop 5 hash))
      else amp_pin hash)"

text \<open>
  The PIN \<open>consumePINFromHash\<close> submits, if the address has one.  The outer \<open>None\<close> is no match,
  the inner one the exception of \<open>decodeURIComponent\<close>.
\<close>

definition consumePINFromHash :: "page_location \<Rightarrow> jstr option option" where
  "consumePINFromHash loc = map_option decodeURIComponent (match_pin (loc_hash loc))"

section \<open>The hub's link\<close>

text \<open>\<open>handleInfo\<close>: the fragment is only for devices that are already authorized.\<close>

definition hub_join_url :: "jstr \<Rightarrow> nat list \<Rightarrow> bool \<Rightarrow> jstr" where
  "hub_join_url base pin auth =
     (if base \<noteq> [] \<and> pin \<noteq> [] \<and> auth then base @ lit ''/#pin='' @ QueryEscape pin else base)"

section \<open>The link carries the PIN\<close>

lemma upper_hex_plain: "upper_hex d \<noteq> 38" "upper_hex d \<noteq> 35"
  by (auto simp: upper_hex_def)

lemma unreserved_plain: "unreserved b \<Longrightarrow> b \<noteq> 38 \<and> b \<noteq> 35"
  by (auto simp: unreserved_def is_alnum_def)

lemma escape_octet_plain: "c \<in> set (escape_octet b) \<Longrightarrow> c \<noteq> 38 \<and> c \<noteq> 35"
  using unreserved_plain [of b] upper_hex_plain
  by (cases "unreserved b"; cases "b = 32") (auto simp: escape_octet_def octet_out_def)

lemma QueryEscape_plain: "38 \<notin> set (QueryEscape pin)"
  using escape_octet_plain by (fastforce simp: QueryEscape_def)

lemma fragment_append:
  assumes "35 \<notin> set u"
  shows "fragment (u @ 35 # v) = 35 # v" and "fragment u = []"
  using assms by (induction u) (auto simp: fragment_def)

lemma match_pin_link:
  assumes "38 \<notin> set p"
  shows "match_pin (lit ''#pin='' @ p) = Some p"
proof -
  have "takeWhile (\<lambda>x. x \<noteq> 38) p = p" using assms by (auto simp: takeWhile_eq_all_conv)
  then show ?thesis by (simp add: match_pin_def startsWith_def js_eval)
qed

text \<open>
  The link an authorized device shows carries the PIN: for every PIN without a space, whether the page
  of that device shows the hub's own address or, on a LAN address, replaces it by its own,
  \<open>consumePINFromHash\<close> in the browser that opens the link finds exactly the PIN.
\<close>

lemma link_pin:
  assumes "\<forall>c \<in> set pin. scalar c \<and> c \<noteq> 32" and "pin \<noteq> []" and "base \<noteq> []" and "35 \<notin> set base"
    and "35 \<notin> set (loc_origin loc)" and "joinUrl info = hub_join_url base pin True"
    and "loc_hash visitor = fragment (pickJoinURL loc info)"
  shows "consumePINFromHash visitor = Some (Some (utf16 pin))"
proof -
  have join: "joinUrl info = (base @ [47]) @ 35 # lit ''pin='' @ QueryEscape pin"
    using assms(2,3,6) by (simp add: hub_join_url_def js_eval)
  then have "fragment (joinUrl info) = 35 # lit ''pin='' @ QueryEscape pin" and "joinUrl info \<noteq> []"
    using assms(4) fragment_append(1) [of "base @ [47]"] by simp_all
  then have "fragment (pickJoinURL loc info) = 35 # lit ''pin='' @ QueryEscape pin"
    using assms(5) fragment_append(1) [of "loc_origin loc @ [47]"] by (simp add: pickJoinURL_def)
  then have "loc_hash visitor = lit ''#pin='' @ QueryEscape pin"
    using assms(7) by (simp add: js_eval)
  with match_pin_link [OF QueryEscape_plain] QueryEscape_decode [OF assms(1)] show ?thesis
    by (simp add: consumePINFromHash_def)
qed

definition demo_loc :: page_location where
  "demo_loc = \<lparr>loc_origin = lit ''http://192.168.1.2:8787'', loc_hostname = lit ''192.168.1.2'',
     loc_host = lit ''192.168.1.2:8787'', loc_href = lit ''http://192.168.1.2:8787/'', loc_hash = [], loc_search = []\<rparr>"

definition demo_info :: conn_info where
  "demo_info = \<lparr>joinUrl = hub_join_url (lit ''http://10.0.0.5:8787'') [0x41, 0x26, 0x53E3, 0x1F600] True,
     info_urls = [], pinRequired = True, authorized = True, clientCount = 1, retentionSec = 0\<rparr>"

text \<open>
  The exception is real: the hub's \<open>url.QueryEscape\<close> writes a space as \<open>+\<close>, which
  \<open>decodeURIComponent\<close> leaves alone, so a PIN with a space inside is submitted wrong.
\<close>

lemma link_pin_space: "consumePINFromHash (loc\<lparr>loc_hash := lit ''#pin='' @ QueryEscape [97, 32, 98]\<rparr>)
    = Some (Some (lit ''a+b''))"
  by (simp add: consumePINFromHash_def match_pin_def startsWith_def QueryEscape_def utf8_def utf8_enc_def
      escape_octet_def octet_out_def unreserved_def is_alnum_def js_eval)

lemma takeWhile_no_hash: "takeWhile (\<lambda>c. c \<noteq> 35) (u @ 35 # v) = takeWhile (\<lambda>c. c \<noteq> 35) u"
  by (induction u) auto

lemma takeWhile_fragment:
  "takeWhile (\<lambda>c. c \<noteq> 35) (u @ x # fragment w) = takeWhile (\<lambda>c. c \<noteq> 35) (u @ [x])"
proof (cases "fragment w")
  case (Cons y ys)
  then have "y = 35" using hd_dropWhile [of "\<lambda>c. c \<noteq> 35" w] by (simp add: fragment_def)
  with Cons takeWhile_no_hash [of "u @ [x]" ys] show ?thesis by simp
qed simp

text \<open>
  The address the side panel shows as text does not depend on the PIN: it is the same for every two PINs the hub may have
  put into the link, so reading it over someone's shoulder tells nothing about the PIN.
\<close>

lemma plain_url_hides_pin:
  "plainUrl (pickJoinURL loc (info\<lparr>joinUrl := hub_join_url base (c # pin) True\<rparr>))
     = plainUrl (pickJoinURL loc (info\<lparr>joinUrl := hub_join_url base (c' # pin') True\<rparr>))"
proof (cases "base = []")
  case False
  have link: "hub_join_url base (x # p) True = (base @ [47]) @ 35 # (lit ''pin='' @ QueryEscape (x # p))" for x p
    using False by (simp add: hub_join_url_def js_eval)
  have base: "takeWhile (\<lambda>c. c \<noteq> 35) (hub_join_url base (x # p) True) = takeWhile (\<lambda>c. c \<noteq> 35) (base @ [47])"
    and some: "hub_join_url base (x # p) True \<noteq> []" for x p
    by (simp_all only: link takeWhile_no_hash) simp
  show ?thesis
  proof (cases "isLANIPv4Host (loc_hostname loc)")
    case True
    then show ?thesis
      unfolding pickJoinURL_def plainUrl_def by (simp add: takeWhile_fragment)
  next
    case False
    then show ?thesis
      using some unfolding pickJoinURL_def plainUrl_def or_default_def
      by (simp add: base)
  qed
qed (simp add: hub_join_url_def)

theorem side_panel_hides_pin:
  assumes "renderSidePanel now loc (info\<lparr>joinUrl := hub_join_url base (c # pin) True\<rparr>) = Some a"
    and "renderSidePanel now loc (info\<lparr>joinUrl := hub_join_url base (c' # pin') True\<rparr>) = Some b"
  shows "side_url a = side_url b"
  using assms plain_url_hides_pin by (auto simp: renderSidePanel_def Let_def)

end
