(* ===== verification/Devices.thy ===== *)
theory Devices
  imports Messages Join
begin

text \<open>
  The device list and the send target (web/static/app.js: \<open>renderDevices\<close>, \<open>setSendTarget\<close>,
  \<open>renderTargetBar\<close>, \<open>renderChatMeta\<close>, \<open>currentRecipients\<close>, the click handlers of the device
  list and of a message's sender, and \<open>renderSelf\<close>).  The record \<open>room\<close> holds the variables
  \<open>onlineUsers\<close>, \<open>deviceId\<close>, \<open>selfDevice\<close>, \<open>sendTarget\<close>, \<open>devicesSignature\<close> and \<open>roomInfo\<close>, and
  what the page shows of them: one \<open>device_item\<close> per list entry, and the target bar.

  The signature is the JSON text of the four fields of every device; two texts are equal exactly
  when the lists are, so the model keeps the list (\<open>None\<close> for the initial empty string).
\<close>

section \<open>State\<close>

record target =
  tg_id :: jstr
  tg_name :: jstr

record device_item =
  it_self :: bool
  it_id :: jstr
  it_name :: jstr
  it_selected :: bool
  it_html :: jstr

record target_bar =
  bar_dm :: bool
  bar_group_selected :: bool
  bar_badge_hidden :: bool
  bar_drop :: jstr
  bar_title :: jstr
  bar_name :: jstr
  bar_note_hidden :: bool
  bar_clear_hidden :: bool
  bar_offline_hidden :: bool
  bar_offline :: bool
  bar_placeholder :: jstr
  bar_meta :: jstr

record room =
  onlineUsers :: "device list"
  selfDevice :: "device option"
  deviceId :: "jstr option"
  sendTarget :: "target option"
  devicesSignature :: "device list option"
  roomInfo :: "conn_info option"
  list_items :: "device_item list"
  onlineCount :: jstr
  peerCount :: jstr
  peers_hidden :: bool
  groupSub :: jstr
  bar :: target_bar

text \<open>
  The values at start.  The texts of the bar are those of index.html until \<open>enterChat\<close> renders it;
  the model has empty ones.
\<close>

definition initial_room :: room where
  "initial_room = \<lparr>onlineUsers = [], selfDevice = None, deviceId = None, sendTarget = None,
     devicesSignature = None, roomInfo = None, list_items = [], onlineCount = [], peerCount = [],
     peers_hidden = True, groupSub = [],
     bar = \<lparr>bar_dm = False, bar_group_selected = True, bar_badge_hidden = True, bar_drop = [],
       bar_title = [], bar_name = [], bar_note_hidden = True, bar_clear_hidden = True,
       bar_offline_hidden = True, bar_offline = False, bar_placeholder = [], bar_meta = []\<rparr>\<rparr>"

section \<open>The target bar\<close>

definition renderChatMeta :: "room \<Rightarrow> jstr" where
  "renderChatMeta r =
     (case sendTarget r of
        Some t \<Rightarrow>
          (case find_device (onlineUsers r) (tg_id t) of
             Some peer \<Rightarrow>
               ([0x00B7] @ lit '' '') @ ui_text ui_label (platformOf (Some (dev_platform peer))) @ (lit '' '' @ [0x00B7] @ lit '' '') @
               or_default (dev_ip peer) ([0x672A, 0x77E5] @ lit '' IP'')
           | None \<Rightarrow> ([0x00B7] @ lit '' '' @ [0x5BF9, 0x65B9, 0x5DF2, 0x79BB, 0x7EBF]))
      | None \<Rightarrow>
          (let retention = formatRetention (map_option retentionSec (roomInfo r));
               parts = (show_nat (length (onlineUsers r)) @ (lit '' '' @ [0x53F0, 0x8BBE, 0x5907, 0x5728, 0x7EBF])) #
                 (if retention \<noteq> [] then [([0x8BB0, 0x5F55, 0x4FDD, 0x7559] @ lit '' '') @ retention] else [])
           in ([0x00B7] @ lit '' '') @ join (lit '' '' @ [0x00B7] @ lit '' '') parts))"

text \<open>\<open>renderTargetBar\<close>; \<open>mobile\<close> is the answer of the layout query.\<close>

definition renderTargetBar :: "bool \<Rightarrow> room \<Rightarrow> room" where
  "renderTargetBar mobile r =
     (let target = sendTarget r;
          name = (\<lambda>d. case target of Some t \<Rightarrow> tg_name t | None \<Rightarrow> d);
          online = (case target of None \<Rightarrow> True | Some t \<Rightarrow> \<exists>u \<in> set (onlineUsers r). dev_id u = tg_id t)
      in r\<lparr>bar := \<lparr>bar_dm = (target \<noteq> None), bar_group_selected = (target = None),
            bar_badge_hidden = (target = None), bar_drop = name [0x7FA4, 0x804A], bar_title = name [0x7FA4, 0x804A],
            bar_name = name ([0x7FA4, 0x804A, 0xFF08] @ show_nat (length (onlineUsers r)) @ (lit '' '' @ [0x53F0, 0xFF09])),
            bar_note_hidden = (target = None), bar_clear_hidden = (target = None),
            bar_offline_hidden = online, bar_offline = (\<not> online),
            bar_placeholder = (case target of Some t \<Rightarrow> ([0x79C1, 0x804A] @ lit '' '') @ tg_name t
                | None \<Rightarrow> if mobile then [0x53D1, 0x5230, 0x7FA4, 0x804A] else [0x8F93, 0x5165, 0x6D88, 0x606F, 0xFF0C, 0x53EF, 0x7C98, 0x8D34, 0x56FE, 0x7247, 0x6216, 0x628A, 0x6587, 0x4EF6, 0x62D6, 0x5230, 0x8FD9, 0x91CC]),
            bar_meta = renderChatMeta r\<rparr>\<rparr>)"

text \<open>Setting the room information re-renders the subtitle only (\<open>loadRoomInfo\<close>).\<close>

definition setRoomInfo :: "conn_info \<Rightarrow> room \<Rightarrow> room" where
  "setRoomInfo info r =
     (let r1 = r\<lparr>roomInfo := Some info\<rparr> in r1\<lparr>bar := (bar r1)\<lparr>bar_meta := renderChatMeta r1\<rparr>\<rparr>)"

definition setSendTarget :: "bool \<Rightarrow> target option \<Rightarrow> room \<Rightarrow> room" where
  "setSendTarget mobile target r =
     renderTargetBar mobile
       (r\<lparr>sendTarget := target,
          list_items := map (\<lambda>i. if it_self i then i
                     else i\<lparr>it_selected := (Some (it_id i) = map_option tg_id target)\<rparr>) (list_items r)\<rparr>)"

definition currentRecipients :: "room \<Rightarrow> jstr list option" where
  "currentRecipients r = map_option (\<lambda>t. [tg_id t]) (sendTarget r)"

section \<open>The device list\<close>

definition shown_name :: "device \<Rightarrow> jstr" where
  "shown_name u = or_default (dev_name u) [0x533F, 0x540D, 0x8BBE, 0x5907]"

text \<open>
  The names are counted in a plain object, \<open>nameCount[name] = (nameCount[name] || 0) + 1\<close>.  A name
  that every object inherits starts from that property instead of 0, and what results is a text
  that is never greater than 1.
\<close>

definition counted_twice :: "device list \<Rightarrow> jstr \<Rightarrow> bool" where
  "counted_twice users n \<longleftrightarrow>
     n \<notin> set object_prototype_names \<and> 1 < length (filter (\<lambda>u. shown_name u = n) users)"

fun display_names :: "device list \<Rightarrow> (jstr \<Rightarrow> nat) \<Rightarrow> device list \<Rightarrow> jstr list" where
  "display_names users nameIndex [] = []"
| "display_names users nameIndex (u # us) =
     (let n = shown_name u in
      if counted_twice users n
      then (n @ lit '' #'' @ show_nat (nameIndex n + 1)) #
             display_names users (nameIndex(n := nameIndex n + 1)) us
      else n # display_names users nameIndex us)"

definition deviceHTML :: "device \<Rightarrow> jstr \<Rightarrow> bool \<Rightarrow> jstr" where
  \<open>deviceHTML user displayName isSelf =
     (let ip = or_default (dev_ip user) ([0x672A, 0x77E5] @ lit '' IP'');
          platformKey = platformOf (Some (dev_platform user))
      in nl 6 @ avatarHTML (Some platformKey) [] True @ nl 6 @
         lit ''<span class="device-text">'' @ nl 8 @
         lit ''<span class="device-name"><span class="device-name-text">'' @ escapeHTML displayName @ lit ''</span>'' @
         (if isSelf then lit ''<span class="self-chip">'' @ [0x672C, 0x673A] @ lit ''</span>'' else []) @ lit ''</span>'' @ nl 8 @
         lit ''<span class="device-sub mono">'' @ escapeHTML (ui_text ui_label platformKey) @ (lit '' '' @ [0x00B7] @ lit '' '') @ escapeHTML ip @
         lit ''</span>'' @ nl 6 @ lit ''</span>'' @ nl 6 @
         (if isSelf then []
          else replaceFirst (lit ''class="icon"'') (lit ''class="icon check-icon"'') (iconSVG (lit ''check-circle''))) @
         nl 4)\<close>

definition device_entry :: "jstr option \<Rightarrow> target option \<Rightarrow> device \<Rightarrow> jstr \<Rightarrow> device_item" where
  "device_entry self target user displayName =
     (let isSelf = (Some (dev_id user) = self) in
      \<lparr>it_self = isSelf, it_id = dev_id user, it_name = displayName,
       it_selected = (\<not> isSelf \<and> map_option tg_id target = Some (dev_id user)),
       it_html = deviceHTML user displayName isSelf\<rparr>)"

definition device_items :: "jstr option \<Rightarrow> target option \<Rightarrow> device list \<Rightarrow> device_item list" where
  "device_items self target users = map2 (device_entry self target) users (display_names users (\<lambda>_. 0) users)"

definition renderDevices :: "bool \<Rightarrow> device list \<Rightarrow> room \<Rightarrow> room" where
  "renderDevices mobile users r =
     (let peers = length (filter (\<lambda>u. Some (dev_id u) \<noteq> deviceId r) users);
          r1 = r\<lparr>onlineUsers := users, peers_hidden := (peers = 0), peerCount := show_nat peers,
                 groupSub := ([0x6240, 0x6709] @ lit '' '') @ show_nat (length users) @ (lit '' '' @ [0x53F0, 0x8BBE, 0x5907])\<rparr>
      in if devicesSignature r = Some users then renderTargetBar mobile r1
         else renderTargetBar mobile
                (r1\<lparr>devicesSignature := Some users, onlineCount := show_nat (length users),
                    list_items := device_items (deviceId r) (sendTarget r) users\<rparr>))"

section \<open>Clicks\<close>

text \<open>A click on an entry of the device list: only the other devices' entries react.\<close>

definition click_device :: "bool \<Rightarrow> device_item \<Rightarrow> room \<Rightarrow> room" where
  "click_device mobile i r =
     (if it_self i then r
      else if map_option tg_id (sendTarget r) = Some (it_id i) then setSendTarget mobile None r
      else setSendTarget mobile (Some \<lparr>tg_id = it_id i, tg_name = it_name i\<rparr>) r)"

text \<open>A click on an element with \<open>data-reply-id\<close>; \<open>attrs\<close> is the text of its start tag.\<close>

definition click_reply :: "bool \<Rightarrow> jstr \<Rightarrow> room \<Rightarrow> room" where
  "click_reply mobile attrs r =
     (case map_of (tag_attrs attrs) (lit ''data-reply-id'') of
        None \<Rightarrow> r
      | Some i \<Rightarrow>
          setSendTarget mobile (Some \<lparr>tg_id = i,
            tg_name = (case map_of (tag_attrs attrs) (lit ''data-reply-name'') of
                         Some n \<Rightarrow> n | None \<Rightarrow> lit ''undefined'')\<rparr>) r)"

section \<open>The own device\<close>

text \<open>The \<open>welcome\<close> message names this device.\<close>

definition on_welcome :: "device option \<Rightarrow> room \<Rightarrow> room" where
  "on_welcome d r = r\<lparr>selfDevice := d,
     deviceId := (case d of Some v \<Rightarrow> if dev_id v = [] then None else Some (dev_id v) | None \<Rightarrow> None)\<rparr>"

record self_panel =
  self_avatar :: jstr
  self_label :: jstr
  self_sub :: jstr

definition renderSelf :: "jstr \<Rightarrow> jstr \<Rightarrow> jstr option \<Rightarrow> room \<Rightarrow> self_panel" where
  \<open>renderSelf userAgent hostname chatName r =
     (let platform = opt_or (map_option dev_platform (selfDevice r)) (detectPlatform userAgent) in
      \<lparr>self_avatar = replaceFirst (lit ''class="avatar'') (lit ''id="self-avatar" class="avatar'')
         (avatarHTML (Some platform) [] False),
       self_label = opt_or (map_option dev_name (selfDevice r)) (opt_or chatName []),
       self_sub = ([0x672C, 0x673A] @ lit '' '' @ [0x00B7] @ lit '' '') @ opt_or (map_option dev_ip (selfDevice r)) hostname\<rparr>)\<close>

section \<open>The list and its cache\<close>

text \<open>
  The list shows the devices last received, for the present target, drawn under some own id: the one at the last
  redraw.  The signature, when there is one, is that of these devices.
\<close>

definition list_drawn :: "jstr option \<Rightarrow> room \<Rightarrow> bool" where
  "list_drawn self r \<longleftrightarrow> list_items r = device_items self (sendTarget r) (onlineUsers r)
     \<and> (devicesSignature r = None \<or> devicesSignature r = Some (onlineUsers r))"

lemma bar_frame [simp]:
  "onlineUsers (renderTargetBar mobile r) = onlineUsers r" "selfDevice (renderTargetBar mobile r) = selfDevice r"
  "deviceId (renderTargetBar mobile r) = deviceId r" "sendTarget (renderTargetBar mobile r) = sendTarget r"
  "devicesSignature (renderTargetBar mobile r) = devicesSignature r" "roomInfo (renderTargetBar mobile r) = roomInfo r"
  "list_items (renderTargetBar mobile r) = list_items r"
  by (simp_all add: renderTargetBar_def Let_def)

text \<open>Toggling the \<open>selected\<close> class of an entry.\<close>

definition retarget :: "target option \<Rightarrow> device_item \<Rightarrow> device_item" where
  "retarget t i = (if it_self i then i else i\<lparr>it_selected := (Some (it_id i) = map_option tg_id t)\<rparr>)"

lemma retarget_item: "retarget t (device_entry self t0 u n) = device_entry self t u n"
  by (cases t) (auto simp: retarget_def device_entry_def Let_def)

lemma retarget_items:
  "map (\<lambda>i. if it_self i then i else i\<lparr>it_selected := (Some (it_id i) = map_option tg_id t)\<rparr>) (device_items self t0 users)
   = device_items self t users"
  by (simp add: device_items_def retarget_def [symmetric] retarget_item split_def)

lemma list_drawn_initial: "list_drawn None initial_room"
  by (simp add: list_drawn_def initial_room_def device_items_def)

lemma list_drawn_target: "list_drawn self r \<Longrightarrow> list_drawn self (setSendTarget mobile t r)"
  by (simp add: list_drawn_def setSendTarget_def retarget_items)

lemma list_drawn_bar: "list_drawn self (renderTargetBar mobile r) = list_drawn self r"
  by (simp add: list_drawn_def)

lemma list_drawn_click: "list_drawn self r \<Longrightarrow> list_drawn self (click_device mobile i r)"
  by (simp add: click_device_def list_drawn_target)

lemma list_drawn_reply: "list_drawn self r \<Longrightarrow> list_drawn self (click_reply mobile a r)"
  by (simp add: click_reply_def list_drawn_target split: option.split)

lemma list_drawn_info: "list_drawn self r \<Longrightarrow> list_drawn self (setRoomInfo info r)"
  by (simp add: list_drawn_def setRoomInfo_def Let_def)

lemma list_drawn_welcome: "list_drawn self r \<Longrightarrow> list_drawn self (on_welcome d r)"
  by (simp add: list_drawn_def on_welcome_def)

text \<open>A presence message: a list that is repeated is not drawn again, any other under the present own id.\<close>

lemma list_drawn_presence:
  assumes "list_drawn self r"
  shows "list_drawn (if devicesSignature r = Some users then self else deviceId r) (renderDevices mobile users r)"
    and "onlineUsers (renderDevices mobile users r) = users" and "sendTarget (renderDevices mobile users r) = sendTarget r"
  using assms by (auto simp: list_drawn_def renderDevices_def Let_def)

text \<open>
  A presence message that comes before the first \<open>welcome\<close> is drawn without an own id.  The \<open>welcome\<close> draws nothing, and the next presence with the same
  list is skipped, so the own entry stays one to click on, like those of the others.
\<close>

lemma own_entry_clickable:
  assumes "list_drawn self r" and "deviceId r = None" and "devicesSignature r = None"
  shows "list_items (renderDevices mobile users (on_welcome d (renderDevices mobile users r)))
    = device_items None (sendTarget r) users"
  using assms by (simp add: renderDevices_def on_welcome_def Let_def)

section \<open>Names\<close>

lemma length_display_names [simp]: "length (display_names users f us) = length us"
  by (induction us arbitrary: f) (simp_all add: Let_def)

lemma hash_number_inject [simp]: "n @ lit '' #'' @ show_nat a = n @ lit '' #'' @ show_nat b \<longleftrightarrow> a = b"
  by simp

text \<open>The number of a device: how many of the devices before it have its name.\<close>

lemma display_names_nth:
  assumes "i < length us"
  shows "display_names users f us ! i =
    (let n = shown_name (us ! i) in
     if counted_twice users n
     then n @ lit '' #'' @ show_nat (f n + length (filter (\<lambda>u. shown_name u = n) (take i us)) + 1)
     else n)"
  using assms
proof (induction us arbitrary: f i)
  case (Cons u us)
  then show ?case by (cases i) (auto simp: Let_def)
qed simp

lemma filter_take_less:
  assumes "i < j" and "j \<le> length xs" and "P (xs ! i)"
  shows "length (filter P (take i xs)) < length (filter P (take j xs))"
proof -
  have "take j xs = take i xs @ xs ! i # take (j - i - 1) (drop (Suc i) xs)"
    using assms(1,2) by (metis (no_types, lifting) Cons_nth_drop_Suc Suc_diff_Suc add_diff_inverse_nat diff_Suc_1
        less_le_not_le less_le_trans not_less take_Suc_Cons take_add)
  with assms(3) show ?thesis by simp
qed

text \<open>
  Two online devices with the same name are shown under different names
  (\<open>A #1\<close> and \<open>A #2\<close>), unless the name is one that every JavaScript object inherits.
\<close>

theorem same_name_distinguished:
  assumes "i < j" and "j < length users" and "shown_name (users ! i) = shown_name (users ! j)"
    and "shown_name (users ! i) \<notin> set object_prototype_names"
  shows "it_name (device_items self t users ! i) \<noteq> it_name (device_items self t users ! j)"
proof -
  let ?n = "shown_name (users ! j)" and ?P = "\<lambda>u. shown_name u = shown_name (users ! j)"
  have lt: "length (filter ?P (take i users)) < length (filter ?P (take j users))"
    using assms by (intro filter_take_less) simp_all
  have "length (filter ?P (take j users)) < length (filter ?P (take (length users) users))"
    using assms by (intro filter_take_less) simp_all
  with lt have "counted_twice users ?n" using assms(3,4) by (simp add: counted_twice_def)
  with lt assms(1-3) show ?thesis
    by (simp add: device_items_def device_entry_def display_names_nth Let_def)
qed

theorem same_name_distinguished_witness:
  "it_name (device_items None None (replicate 2 \<lparr>dev_id = [], dev_name = [65], dev_platform = [], dev_ip = []\<rparr>) ! 0)
   \<noteq> it_name (device_items None None (replicate 2 \<lparr>dev_id = [], dev_name = [65], dev_platform = [], dev_ip = []\<rparr>) ! 1)"
proof (rule same_name_distinguished)
  have "length s \<noteq> 1" if "s \<in> set object_prototype_names" for s
    using that by (auto simp: object_prototype_names_def lit_def)
  then show "shown_name (replicate 2 \<lparr>dev_id = [], dev_name = [65], dev_platform = [], dev_ip = []\<rparr> ! 0)
      \<notin> set object_prototype_names"
    by (force simp: shown_name_def numeral_2_eq_2)
qed (simp_all add: numeral_2_eq_2)

section \<open>Targets\<close>

text \<open>What the bar shows is the target: the title, the private colours and the recipients agree.\<close>

definition bar_ok :: "room \<Rightarrow> bool" where
  "bar_ok r \<longleftrightarrow>
     bar_title (bar r) = (case sendTarget r of Some t \<Rightarrow> tg_name t | None \<Rightarrow> [0x7FA4, 0x804A]) \<and>
     bar_dm (bar r) = (sendTarget r \<noteq> None) \<and> bar_offline (bar r) = (\<not> bar_offline_hidden (bar r)) \<and>
     (case sendTarget r of
        Some t \<Rightarrow> bar_offline (bar r) = (find_device (onlineUsers r) (tg_id t) = None)
      | None \<Rightarrow> \<not> bar_offline (bar r)) \<and>
     bar_meta (bar r) = renderChatMeta r"

lemma renderChatMeta_cong [simp]:
  "renderChatMeta (r\<lparr>bar := b\<rparr>) = renderChatMeta r"
  by (simp add: renderChatMeta_def split: option.split)

lemma find_device_None: "find_device users i = None \<longleftrightarrow> (\<forall>u \<in> set users. dev_id u \<noteq> i)"
  by (auto simp: find_device_def find_None_iff)

lemma renderTargetBar_ok [simp]: "bar_ok (renderTargetBar mobile r)"
  by (auto simp: bar_ok_def renderTargetBar_def Let_def find_device_None split: option.splits)

lemma setRoomInfo_ok: "bar_ok r \<Longrightarrow> bar_ok (setRoomInfo info r)"
  by (auto simp: bar_ok_def setRoomInfo_def Let_def split: option.splits)

lemma on_welcome_ok: "bar_ok r \<Longrightarrow> bar_ok (on_welcome d r)"
  by (auto simp: bar_ok_def on_welcome_def renderChatMeta_def split: option.splits)

lemma renderDevices_ok: "bar_ok (renderDevices mobile users r)"
  by (simp add: renderDevices_def Let_def)

lemma setSendTarget_ok: "bar_ok (setSendTarget mobile t r)"
  by (simp add: setSendTarget_def)

lemma click_device_ok: "bar_ok r \<Longrightarrow> bar_ok (click_device mobile i r)"
  by (simp add: click_device_def setSendTarget_ok)

lemma setSendTarget_target [simp]: "sendTarget (setSendTarget mobile t r) = t"
  by (simp add: setSendTarget_def)

text \<open>
  Clicking an entry of the device list talks to the device of that entry:
  afterwards either the target is that device and the next message goes to it alone, or, when it
  was the target before, the page is back to the group.  The own entry does nothing.
\<close>

theorem device_click_targets:
  assumes "k < length users"
  shows "currentRecipients (click_device mobile (device_items self t users ! k) r) =
    (if Some (dev_id (users ! k)) = self then currentRecipients r
     else if currentRecipients r = Some [dev_id (users ! k)] then None
     else Some [dev_id (users ! k)])"
  using assms
  by (auto simp: click_device_def device_items_def device_entry_def currentRecipients_def Let_def split: if_splits)

theorem device_click_targets_witness:
  "currentRecipients (click_device False
     (device_items None None [\<lparr>dev_id = [7], dev_name = [], dev_platform = [], dev_ip = []\<rparr>] ! 0) initial_room)
   = Some [[7]]"
  using device_click_targets [of 0 "[\<lparr>dev_id = [7], dev_name = [], dev_platform = [], dev_ip = []\<rparr>]"
      False None None initial_room]
  by (simp add: currentRecipients_def initial_room_def)

lemma reply_target:
  assumes "msg_from msg = Some d"
  shows "sendTarget (click_reply mobile (replyAttrs msg @ [62]) r) = Some \<lparr>tg_id = dev_id d, tg_name = from_name msg\<rparr>"
proof -
  obtain rest where "tag_attrs (replyAttrs msg @ [62]) =
      (lit ''data-reply-id'', dev_id d) # (lit ''data-reply-name'', from_name msg) # rest"
    using replyAttrs_read [of msg] assms by auto
  moreover have "lit ''data-reply-id'' \<noteq> lit ''data-reply-name''" by (simp add: js_eval)
  ultimately show ?thesis by (simp add: click_reply_def)
qed

text \<open>
  A click on the sender of a message answers the sender: whatever characters
  the peer's id and name contain, the two attributes \<open>appendMessage\<close> writes into the HTML are read
  back as exactly that id and that name, so the target becomes the device the hub named as the
  sender, under the name shown.
\<close>

theorem reply_targets_sender:
  assumes "msg_from msg = Some d"
  shows "sendTarget (click_reply mobile (replyAttrs msg @ [62]) r) = Some \<lparr>tg_id = dev_id d, tg_name = from_name msg\<rparr>"
  using assms by (rule reply_target)

definition tricky_msg :: chat_msg where
  \<open>tricky_msg = \<lparr>msg_from = Some \<lparr>dev_id = lit ''1'', dev_name = lit ''a" data-reply-id="2'', dev_platform = [], dev_ip = []\<rparr>,
     msg_to = [], msg_recipients = [],
     msg_payload = \<lparr>kind = lit ''text'', pl_content = None, pl_fileId = None, pl_meta = None\<rparr>, msg_timestamp = None\<rparr>\<close>

theorem reply_targets_sender_witness:
  "sendTarget (click_reply False (replyAttrs tricky_msg @ [62]) initial_room) =
     Some \<lparr>tg_id = lit ''1'', tg_name = from_name tricky_msg\<rparr>"
  using reply_targets_sender [of tricky_msg] by (simp add: tricky_msg_def)

section \<open>Markup of an entry\<close>

lemma check_icon:
  \<open>replaceFirst (lit ''class="icon"'') (lit ''class="icon check-icon"'') (iconSVG (lit ''check-circle''))
   = lit ''<svg class="icon check-icon" aria-hidden="true"><use href="#i-check-circle"/></svg>''\<close>
  by (simp add: iconSVG_def startsWith_def js_eval)

lemma device_literals:
  \<open>hrun Data (lit ''<span class="device-text">'') = Data\<close>
  \<open>hrun Data (lit ''<span class="device-name"><span class="device-name-text">'') = Data\<close>
  \<open>hrun Data (lit ''<span class="self-chip">'') = Data\<close>
  \<open>hrun Data (lit ''<span class="device-sub mono">'') = Data\<close>
  \<open>hrun Data (lit ''<svg class="icon check-icon" aria-hidden="true"><use href="#i-check-circle"/></svg>'') = Data\<close>
  by (simp_all add: js_eval)

definition device_markup :: "bool \<Rightarrow> jstr" where
  "device_markup isSelf = skel Data (deviceHTML \<lparr>dev_id = [], dev_name = [], dev_platform = [], dev_ip = []\<rparr> [] isSelf)"

text \<open>
  No device can inject markup into the list: whatever name, platform and
  address it announces, the tags of its entry are one of two fixed sequences, one for the own
  device and one for the others.
\<close>

theorem device_entry_markup:
  "hrun Data (deviceHTML user displayName isSelf) = Data
    \<and> skel Data (deviceHTML user displayName isSelf) = device_markup isSelf"
  unfolding device_markup_def deviceHTML_def check_icon Let_def
  by (simp add: device_literals avatar_literals space_scan)

end
