(* ===== verification/Chat_Log.thy ===== *)
theory Chat_Log
  imports Devices
begin

text \<open>
  The chat area (web/static/app.js: \<open>appendMessage\<close>, the \<open>history\<close> branch of \<open>onmessage\<close>, the
  placement of upload cards) and what can be done with a message in it: copying
  (\<open>copyOneMessage\<close>, \<open>copyAllChat\<close>, \<open>copyToClipboard\<close>, \<open>copyImageToClipboard\<close>,
  \<open>copyTextOrAlert\<close>) and downloading (\<open>downloadFile\<close>, \<open>fetchFileBlob\<close>).

  The element \<open>#messages\<close> is a list of children: rendered messages, which carry their index in
  \<open>chatLog\<close>, and the cards of uploads in progress.
\<close>

section \<open>State\<close>

datatype dom_entry = MsgEl nat jstr jstr | CardEl nat

fun is_card :: "dom_entry \<Rightarrow> bool" where
  "is_card (CardEl u) = True"
| "is_card (MsgEl k c h) = False"

record chat =
  chatLog :: "chat_msg list"
  dom :: "dom_entry list"

text \<open>
  What rendering takes from the browser: the locale's time of day, the present time in seconds, and
  whether images can be copied.
\<close>

record browser =
  time_text :: "int \<Rightarrow> jstr"
  now :: int
  canCopyImages :: bool

section \<open>Operations\<close>

text \<open>\<open>ts || d\<close>: 0 is falsy.\<close>

definition timestamp_or :: "int option \<Rightarrow> int \<Rightarrow> int" where
  "timestamp_or ts d = (case ts of None \<Rightarrow> d | Some t \<Rightarrow> if t = 0 then d else t)"

text \<open>\<open>insertBefore(wrapper, querySelector(".upload-pending"))\<close>.\<close>

definition insert_message :: "dom_entry \<Rightarrow> dom_entry list \<Rightarrow> dom_entry list" where
  "insert_message e es = takeWhile (\<lambda>x. \<not> is_card x) es @ e # dropWhile (\<lambda>x. \<not> is_card x) es"

definition appendMessage :: "browser \<Rightarrow> room \<Rightarrow> chat_msg \<Rightarrow> bool \<Rightarrow> chat \<Rightarrow> chat" where
  "appendMessage b r msg isSelf c =
     (let logIdx = length (chatLog c);
          time = time_text b (timestamp_or (msg_timestamp msg) (now b))
      in c\<lparr>chatLog := chatLog c @ [msg],
           dom := insert_message (MsgEl logIdx (messageClass (onlineUsers r) msg isSelf)
             (messageHTML (deviceId r) (onlineUsers r) (canCopyImages b) time logIdx msg isSelf)) (dom c)\<rparr>)"

text \<open>\<open>selfDevice && msg.from?.id === selfDevice.id\<close>.\<close>

definition own_message :: "room \<Rightarrow> chat_msg \<Rightarrow> bool" where
  "own_message r msg =
     (case (selfDevice r, msg_from msg) of
        (Some d, Some f) \<Rightarrow> dev_id f = dev_id d
      | _ \<Rightarrow> False)"

definition receive_history :: "browser \<Rightarrow> room \<Rightarrow> chat_msg list \<Rightarrow> chat \<Rightarrow> chat" where
  "receive_history b r msgs c =
     fold (\<lambda>msg. appendMessage b r msg (own_message r msg)) msgs
       (c\<lparr>dom := filter is_card (dom c), chatLog := []\<rparr>)"

text \<open>\<open>els.messages.appendChild(el)\<close> of \<open>createUploadCard\<close>, and \<open>card.remove()\<close>.\<close>

definition add_card :: "nat \<Rightarrow> chat \<Rightarrow> chat" where
  "add_card u c = c\<lparr>dom := dom c @ [CardEl u]\<rparr>"

definition remove_card :: "nat \<Rightarrow> chat \<Rightarrow> chat" where
  "remove_card u c = c\<lparr>dom := filter (\<lambda>x. x \<noteq> CardEl u) (dom c)\<rparr>"

text \<open>\<open>leaveChat\<close>: \<open>chatLog = []\<close> and \<open>els.messages.innerHTML = ""\<close>.\<close>

definition clear_chat :: "chat \<Rightarrow> chat" where
  "clear_chat c = c\<lparr>chatLog := [], dom := []\<rparr>"

section \<open>The order of the chat area\<close>

definition rendering_of :: "nat \<Rightarrow> chat_msg \<Rightarrow> dom_entry \<Rightarrow> bool" where
  "rendering_of k msg e \<longleftrightarrow>
     (\<exists>self users cc time isSelf. e = MsgEl k (messageClass users msg isSelf)
        (messageHTML self users cc time k msg isSelf))"

definition chat_ok :: "chat \<Rightarrow> bool" where
  "chat_ok c \<longleftrightarrow>
     (\<exists>ms cs. dom c = ms @ cs \<and> (\<forall>e \<in> set cs. is_card e) \<and> length ms = length (chatLog c) \<and>
        (\<forall>k < length ms. rendering_of k (chatLog c ! k) (ms ! k)))"

lemma rendering_not_card: "rendering_of k msg e \<Longrightarrow> \<not> is_card e"
  by (auto simp: rendering_of_def)

lemma insert_message_split:
  assumes "\<forall>e \<in> set ms. \<not> is_card e" and "\<forall>e \<in> set cs. is_card e"
  shows "insert_message x (ms @ cs) = ms @ x # cs"
proof -
  have "takeWhile (\<lambda>x. \<not> is_card x) cs = []" and "dropWhile (\<lambda>x. \<not> is_card x) cs = cs"
    using assms(2) by (cases cs; simp)+
  then show ?thesis
    using assms(1) unfolding insert_message_def
    by (simp add: takeWhile_append2 dropWhile_append2)
qed

lemma appendMessage_ok:
  assumes "chat_ok c"
  shows "chat_ok (appendMessage b r msg isSelf c)"
proof -
  from assms obtain ms cs where d: "dom c = ms @ cs" "\<forall>e \<in> set cs. is_card e" "length ms = length (chatLog c)"
    and ren: "\<forall>k < length ms. rendering_of k (chatLog c ! k) (ms ! k)"
    by (auto simp: chat_ok_def)
  have "\<forall>e \<in> set ms. \<not> is_card e" using ren rendering_not_card by (metis in_set_conv_nth)
  note split = insert_message_split [OF this d(2)]
  let ?e = "MsgEl (length (chatLog c)) (messageClass (onlineUsers r) msg isSelf)
    (messageHTML (deviceId r) (onlineUsers r) (canCopyImages b)
      (time_text b (timestamp_or (msg_timestamp msg) (now b))) (length (chatLog c)) msg isSelf)"
  have "rendering_of (length (chatLog c)) msg ?e" unfolding rendering_of_def by blast
  then have "\<forall>k < length (ms @ [?e]). rendering_of k ((chatLog c @ [msg]) ! k) ((ms @ [?e]) ! k)"
    using ren d(3) by (auto simp: nth_append less_Suc_eq)
  then show ?thesis
    unfolding chat_ok_def
    using d by (intro exI [of _ "ms @ [?e]"] exI [of _ cs]) (simp add: appendMessage_def Let_def split)
qed

lemma fold_append_ok:
  "chat_ok c \<Longrightarrow> chat_ok (fold (\<lambda>msg. appendMessage b r msg (f msg)) msgs c)"
  by (induction msgs arbitrary: c) (simp_all add: appendMessage_ok)

lemma receive_history_ok: "chat_ok (receive_history b r msgs c)"
  unfolding receive_history_def by (rule fold_append_ok) (auto simp: chat_ok_def)

lemma add_card_ok: "chat_ok c \<Longrightarrow> chat_ok (add_card u c)"
proof -
  assume "chat_ok c"
  then obtain ms cs where "dom c = ms @ cs" "\<forall>e \<in> set cs. is_card e" "length ms = length (chatLog c)"
    "\<forall>k < length ms. rendering_of k (chatLog c ! k) (ms ! k)"
    by (auto simp: chat_ok_def)
  then show ?thesis
    unfolding chat_ok_def
    by (intro exI [of _ ms] exI [of _ "cs @ [CardEl u]"]) (simp add: add_card_def)
qed

lemma remove_card_ok:
  assumes "chat_ok c"
  shows "chat_ok (remove_card u c)"
proof -
  from assms obtain ms cs where d: "dom c = ms @ cs" "\<forall>e \<in> set cs. is_card e" "length ms = length (chatLog c)"
    and ren: "\<forall>k < length ms. rendering_of k (chatLog c ! k) (ms ! k)"
    by (auto simp: chat_ok_def)
  have "\<forall>e \<in> set ms. e \<noteq> CardEl u" using ren rendering_not_card by (metis in_set_conv_nth is_card.simps(1))
  then have "filter (\<lambda>x. x \<noteq> CardEl u) ms = ms" by (simp add: filter_id_conv)
  with d ren show ?thesis
    unfolding chat_ok_def
    by (intro exI [of _ ms] exI [of _ "filter (\<lambda>x. x \<noteq> CardEl u) cs"]) (simp add: remove_card_def)
qed

lemma clear_chat_ok [simp]: "chat_ok (clear_chat c)"
  by (simp add: chat_ok_def clear_chat_def)

lemma chatLog_append [simp]: "chatLog (appendMessage b r msg s c) = chatLog c @ [msg]"
  by (simp add: appendMessage_def Let_def)

lemma chatLog_fold: "chatLog (fold (\<lambda>msg. appendMessage b r msg (f msg)) msgs c) = chatLog c @ msgs"
  by (induction msgs arbitrary: c) simp_all

lemma cards_append:
  assumes "\<not> is_card e"
  shows "filter is_card (insert_message e es) = filter is_card es"
proof -
  have "filter is_card es = filter is_card (takeWhile (\<lambda>x. \<not> is_card x) es) @ filter is_card (dropWhile (\<lambda>x. \<not> is_card x) es)"
    by (simp only: filter_append [symmetric] takeWhile_dropWhile_id)
  with assms show ?thesis by (simp add: insert_message_def)
qed

lemma cards_fold:
  "filter is_card (dom (fold (\<lambda>msg. appendMessage b r msg (f msg)) msgs c)) = filter is_card (dom c)"
  by (induction msgs arbitrary: c) (simp_all add: appendMessage_def Let_def cards_append)

text \<open>
  A history message (after a reconnection) replaces the log and keeps the
  uploads: afterwards the log is exactly the received list, the messages stand in its order before
  the cards, each under its own index, and the cards of running uploads are the same as before.
\<close>

theorem history_replaces_log:
  "chatLog (receive_history b r msgs c) = msgs
    \<and> filter is_card (dom (receive_history b r msgs c)) = filter is_card (dom c)
    \<and> chat_ok (receive_history b r msgs c)"
  using receive_history_ok by (simp add: receive_history_def chatLog_fold cards_fold)

section \<open>Copying and downloading\<close>

text \<open>
  What these handlers do is a list of actions; what the browser lets them do is a record: whether
  writing a text to the clipboard works, whether the old \<open>execCommand\<close> way does, whether the image
  API exists and works, and what fetching a file gives: an exception with its message, an error
  status, or the type of the blob.
\<close>

datatype fetched = Throws jstr | NotOk | Blob jstr

datatype action =
    Alert jstr
  | ClipText jstr
  | ClipImage jstr jstr
  | FlashAll
  | FlashMessage nat
  | SetBusy bool
  | SaveAs jstr jstr

record abilities =
  write_text :: bool
  exec_copy :: bool
  image_api :: bool
  write_image :: bool
  secure_context :: bool
  get_file :: "jstr \<Rightarrow> fetched"

definition can_copy_images :: "abilities \<Rightarrow> bool" where
  "can_copy_images a = (secure_context a \<and> image_api a)"

text \<open>\<open>fetchFileBlob\<close>: \<open>Inr None\<close> is null, \<open>Inl\<close> the exception of \<open>fetch\<close>.\<close>

definition fetchFileBlob :: "abilities \<Rightarrow> jstr option \<Rightarrow> jstr + jstr option" where
  "fetchFileBlob a f =
     (case safeFileURL f of
        None \<Rightarrow> Inr None
      | Some url \<Rightarrow>
          (case get_file a url of
             Throws m \<Rightarrow> Inl m
           | NotOk \<Rightarrow> Inr None
           | Blob ty \<Rightarrow> Inr (Some ty)))"

text \<open>The result and the clipboard action, if there is one.\<close>

definition copyToClipboard :: "abilities \<Rightarrow> jstr \<Rightarrow> bool \<times> action list" where
  "copyToClipboard a text =
     (if trim text = [] then (False, [])
      else if write_text a then (True, [ClipText text])
      else if exec_copy a then (True, [ClipText text]) else (False, []))"

definition copyTextOrAlert :: "abilities \<Rightarrow> jstr \<Rightarrow> jstr \<Rightarrow> bool \<times> action list" where
  "copyTextOrAlert a text emptyHint =
     (let trimmed = trim text in
      if trimmed = [] then (False, [Alert (or_default emptyHint [0x6CA1, 0x6709, 0x53EF, 0x590D, 0x5236, 0x7684, 0x6587, 0x5B57, 0x5185, 0x5BB9])])
      else (let (ok, acts) = copyToClipboard a trimmed in
            (ok, acts @ (if ok then [] else [Alert [0x590D, 0x5236, 0x5931, 0x8D25, 0xFF0C, 0x8BF7, 0x68C0, 0x67E5, 0x6D4F, 0x89C8, 0x5668, 0x6743, 0x9650]]))))"

definition copyImageToClipboard :: "abilities \<Rightarrow> jstr \<Rightarrow> jstr option \<Rightarrow> bool \<times> action list" where
  "copyImageToClipboard a origin f =
     (case safeFileURL f of
        None \<Rightarrow> (False, [])
      | Some url \<Rightarrow>
          let link = origin @ url in
          (case fetchFileBlob a f of
             Inl u \<Rightarrow> copyToClipboard a link
           | Inr None \<Rightarrow> copyToClipboard a link
           | Inr (Some ty) \<Rightarrow>
               if image_api a \<and> write_image a
               then (True, [ClipImage (if startsWith ty (lit ''image/'') then ty else lit ''image/png'') url])
               else copyToClipboard a link))"

definition copyAllChat :: "abilities \<Rightarrow> jstr \<Rightarrow> chat \<Rightarrow> action list" where
  "copyAllChat a origin c =
     (if chatLog c = [] then [Alert [0x6682, 0x65E0, 0x804A, 0x5929, 0x5185, 0x5BB9, 0x53EF, 0x590D, 0x5236]]
      else
        let text = join [10] (filter (\<lambda>line. trim line \<noteq> []) (map (messageCopyText origin) (chatLog c)));
            (ok, acts) = copyTextOrAlert a text [0x6682, 0x65E0, 0x804A, 0x5929, 0x5185, 0x5BB9, 0x53EF, 0x590D, 0x5236]
        in acts @ (if ok then [FlashAll] else []))"

text \<open>\<open>downloadFile\<close>; \<open>trigger\<close> says whether there is an element to mark as busy.\<close>

definition downloadFile :: "abilities \<Rightarrow> jstr option \<Rightarrow> jstr \<Rightarrow> bool \<Rightarrow> action list" where
  "downloadFile a f fileName trigger =
     (case safeFileURL f of
        None \<Rightarrow> []
      | Some url \<Rightarrow>
          (if trigger then [SetBusy True] else []) @
          (case fetchFileBlob a f of
             Inl m \<Rightarrow> [Alert ([0x4E0B, 0x8F7D, 0x5931, 0x8D25, 0xFF1A] @ m)]
           | Inr None \<Rightarrow> [Alert [0x4E0B, 0x8F7D, 0x5931, 0x8D25, 0xFF0C, 0x6587, 0x4EF6, 0x53EF, 0x80FD, 0x5DF2, 0x8FC7, 0x671F]]
           | Inr (Some ty) \<Rightarrow> [SaveAs url (or_default fileName (lit ''download''))]) @
          (if trigger then [SetBusy False] else []))"

definition copyOneMessage :: "abilities \<Rightarrow> jstr \<Rightarrow> nat \<Rightarrow> chat \<Rightarrow> action list" where
  "copyOneMessage a origin idx c =
     (if idx \<ge> length (chatLog c) then []
      else
        let msg = chatLog c ! idx; p = msg_payload msg in
        if kind p = lit ''image'' \<and> \<not> can_copy_images a
        then downloadFile a (pl_fileId p) (meta_name_or p (lit ''image'')) True
        else
          let (ok, acts) =
            (if kind p = lit ''image''
             then (let (ok, acts) = copyImageToClipboard a origin (pl_fileId p) in
                   (ok, acts @ (if ok then [] else [Alert [0x56FE, 0x7247, 0x590D, 0x5236, 0x5931, 0x8D25, 0xFF0C, 0x8BF7, 0x68C0, 0x67E5, 0x6743, 0x9650, 0x6216, 0x6587, 0x4EF6, 0x662F, 0x5426, 0x8FC7, 0x671F]])))
             else copyTextOrAlert a (messageCopyText origin msg) [0x8BE5, 0x6761, 0x6CA1, 0x6709, 0x53EF, 0x590D, 0x5236, 0x7684, 0x6587, 0x5B57, 0x5185, 0x5BB9])
          in acts @ (if ok then [FlashMessage idx] else []))"

fun only_clip :: "action \<Rightarrow> bool" where
  "only_clip (ClipText t) = True"
| "only_clip (ClipImage t u) = True"
| "only_clip _ = False"

text \<open>
  The copy button of a message copies that message: button \<open>k\<close> of the
  chat area stands in the \<open>k\<close>-th message, and on a text message with visible text a working
  clipboard receives exactly the trimmed text shown in that very element.
\<close>

theorem copy_button_copies_shown:
  assumes "chat_ok c" and "k < length (chatLog c)" and "write_text a"
    and "kind (msg_payload (chatLog c ! k)) = lit ''text''"
    and "pl_content (msg_payload (chatLog c ! k)) = Some t" and "trim t \<noteq> []"
  shows "copyOneMessage a origin k c = [ClipText (trim t), FlashMessage k]
    \<and> (\<exists>self users cc time isSelf.
         filter (\<lambda>e. \<not> is_card e) (dom c) ! k = MsgEl k (messageClass users (chatLog c ! k) isSelf)
           (messageHTML self users cc time k (chatLog c ! k) isSelf))"
proof
  have "t \<noteq> []" using assms(6) by auto
  moreover have "lit ''text'' \<noteq> lit ''image''" by (simp add: js_eval)
  ultimately show "copyOneMessage a origin k c = [ClipText (trim t), FlashMessage k]"
    using assms by (simp add: copyOneMessage_def messageCopyText_def copyTextOrAlert_def copyToClipboard_def)
  from assms(1) obtain ms cs where d: "dom c = ms @ cs" "\<forall>e \<in> set cs. is_card e" "length ms = length (chatLog c)"
    and ren: "\<forall>k < length ms. rendering_of k (chatLog c ! k) (ms ! k)"
    by (auto simp: chat_ok_def)
  have "\<forall>e \<in> set ms. \<not> is_card e" using ren rendering_not_card by (metis in_set_conv_nth)
  then have "filter (\<lambda>e. \<not> is_card e) (dom c) = ms"
    using d(1,2) by (simp add: filter_id_conv filter_empty_conv)
  with ren assms(2) d(3) show "\<exists>self users cc time isSelf.
         filter (\<lambda>e. \<not> is_card e) (dom c) ! k = MsgEl k (messageClass users (chatLog c ! k) isSelf)
           (messageHTML self users cc time k (chatLog c ! k) isSelf)"
    by (simp add: rendering_of_def)
qed

definition demo_abilities :: abilities where
  "demo_abilities = \<lparr>write_text = True, exec_copy = False, image_api = False, write_image = False,
     secure_context = False, get_file = (\<lambda>u. NotOk)\<rparr>"

definition demo_msg :: chat_msg where
  "demo_msg = \<lparr>msg_from = None, msg_to = [], msg_recipients = [],
     msg_payload = \<lparr>kind = lit ''text'', pl_content = Some [104, 105], pl_fileId = None, pl_meta = None\<rparr>,
     msg_timestamp = None\<rparr>"

definition demo_chat :: chat where
  "demo_chat = appendMessage \<lparr>time_text = (\<lambda>t. []), now = 0, canCopyImages = False\<rparr> initial_room demo_msg False
     \<lparr>chatLog = [], dom = [CardEl 0]\<rparr>"

theorem copy_button_copies_shown_witness:
  "copyOneMessage demo_abilities [] 0 demo_chat = [ClipText [104, 105], FlashMessage 0]"
proof -
  have "chat_ok demo_chat"
    unfolding demo_chat_def by (rule appendMessage_ok) (auto simp: chat_ok_def)
  moreover have "chatLog demo_chat = [demo_msg]" by (simp add: demo_chat_def)
  moreover have "trim [104, 105] = [104, 105]" by (simp add: trim_def is_space_def)
  ultimately show ?thesis
    using copy_button_copies_shown [of demo_chat 0 demo_abilities "[104, 105]" "[]"]
    by (simp add: demo_msg_def demo_abilities_def)
qed

text \<open>
  A download button never stays stuck: on every path of \<open>downloadFile\<close>
  (unusable id, failed fetch, error status, success) the button is busy at most during the
  download, and its last state is not busy; and nothing is saved but the file of the id asked for.
\<close>

theorem download_restores_button:
  "(\<exists>mid. downloadFile a f fileName True \<in> {[], [SetBusy True, mid, SetBusy False]} \<and> (\<forall>x. mid \<noteq> SetBusy x))
    \<and> (\<forall>url n. SaveAs url n \<in> set (downloadFile a f fileName trigger) \<longrightarrow> Some url = safeFileURL f)"
proof
  show "\<exists>mid. downloadFile a f fileName True \<in> {[], [SetBusy True, mid, SetBusy False]} \<and> (\<forall>x. mid \<noteq> SetBusy x)"
    by (cases "fetchFileBlob a f")
      (auto simp: downloadFile_def split: option.split intro: exI [of _ "Alert []"])
  show "\<forall>url n. SaveAs url n \<in> set (downloadFile a f fileName trigger) \<longrightarrow> Some url = safeFileURL f"
  proof (cases "fetchFileBlob a f")
    case (Inr r)
    then show ?thesis by (cases r) (auto simp: downloadFile_def split: option.splits if_splits)
  qed (auto simp: downloadFile_def split: option.splits if_splits)
qed

theorem download_restores_button_witness:
  "Some (lit ''/api/files/'' @ replicate 32 97) = safeFileURL (Some (replicate 32 97))"
proof -
  let ?f = "Some (replicate 32 97)" and ?u = "lit ''/api/files/'' @ replicate 32 97"
  let ?a = "demo_abilities\<lparr>get_file := (\<lambda>u. Blob [])\<rparr>"
  have "safeFileURL ?f = Some ?u"
    by (simp add: safeFileURL_Some is_file_id_def list_all_iff is_hex_def)
  then have "SaveAs ?u (lit ''download'') \<in> set (downloadFile ?a ?f [] True)"
    by (simp add: downloadFile_def fetchFileBlob_def)
  with download_restores_button show ?thesis by blast
qed

end
