(* ===== verification/Transfers.thy ===== *)
theory Transfers
  imports Platform Format "HOL-Library.Sublist"
begin

text \<open>
  The transfer list in the page's right column (web/static/app.js: \<open>addTransfer\<close>,
  \<open>updateTransfer\<close>, \<open>renderTransfers\<close>).  An entry is a JavaScript object that the upload code
  keeps a reference to; the model gives it its \<open>id\<close>, and an update reaches the entry of that id,
  if it is still in the list.

  Percentages are exact fractions in the model, kept as the tenths \<open>toFixed(1)\<close> prints.
\<close>

section \<open>State\<close>

datatype transfer_state = Up | Retry | Done | Failed | Canceled

record transfer =
  tr_id :: nat
  tr_name :: jstr
  tr_state :: transfer_state
  tr_label :: jstr
  tr_pct :: nat
  tr_detail :: jstr

record transfer_list =
  transfers :: "transfer list"
  transferSeq :: nat

definition TRANSFER_LIMIT :: nat where
  "TRANSFER_LIMIT = 8"

definition running :: "transfer \<Rightarrow> bool" where
  "running t = (tr_state t = Up \<or> tr_state t = Retry)"

section \<open>Operations\<close>

text \<open>\<open>transfers.findLastIndex(...)\<close> of a finished entry.\<close>

fun findLastIndex :: "('a \<Rightarrow> bool) \<Rightarrow> 'a list \<Rightarrow> nat option" where
  "findLastIndex P [] = None"
| "findLastIndex P (x # xs) =
     (case findLastIndex P xs of
        Some i \<Rightarrow> Some (Suc i)
      | None \<Rightarrow> if P x then Some 0 else None)"

text \<open>\<open>transfers.splice(idx, 1)\<close>.\<close>

definition remove_at :: "nat \<Rightarrow> 'a list \<Rightarrow> 'a list" where
  "remove_at i xs = take i xs @ drop (Suc i) xs"

lemma findLastIndex_less: "findLastIndex P xs = Some i \<Longrightarrow> i < length xs"
  by (induction xs arbitrary: i) (auto split: option.splits if_splits)

function trim_list :: "transfer list \<Rightarrow> transfer list" where
  "trim_list ts =
     (if length ts > TRANSFER_LIMIT then
        (case findLastIndex (\<lambda>x. tr_state x \<noteq> Up \<and> tr_state x \<noteq> Retry) ts of
           None \<Rightarrow> ts
         | Some idx \<Rightarrow> trim_list (remove_at idx ts))
      else ts)"
  by pat_completeness auto
termination
  by (relation "measure length") (auto simp: remove_at_def dest: findLastIndex_less)

declare trim_list.simps [simp del]

definition addTransfer ::
    "jstr \<Rightarrow> transfer_state \<Rightarrow> jstr \<Rightarrow> nat \<Rightarrow> jstr \<Rightarrow> transfer_list \<Rightarrow> transfer \<times> transfer_list" where
  "addTransfer name st label pct detail l =
     (let t = \<lparr>tr_id = transferSeq l + 1, tr_name = name, tr_state = st, tr_label = label,
               tr_pct = pct, tr_detail = detail\<rparr>
      in (t, l\<lparr>transferSeq := transferSeq l + 1, transfers := trim_list (t # transfers l)\<rparr>))"

definition updateTransfer :: "nat \<Rightarrow> (transfer \<Rightarrow> transfer) \<Rightarrow> transfer_list \<Rightarrow> transfer_list" where
  "updateTransfer i changes l =
     l\<lparr>transfers := map (\<lambda>x. if tr_id x = i then changes x else x) (transfers l)\<rparr>"

text \<open>What \<open>leaveChat\<close> does to the list; the sequence number goes on.\<close>

definition clearTransfers :: "transfer_list \<Rightarrow> transfer_list" where
  "clearTransfers l = l\<lparr>transfers := []\<rparr>"

section \<open>HTML\<close>

fun state_name :: "transfer_state \<Rightarrow> jstr" where
  "state_name Up = lit ''up''"
| "state_name Retry = lit ''retry''"
| "state_name Done = lit ''done''"
| "state_name Failed = lit ''failed''"
| "state_name Canceled = lit ''canceled''"

fun TRANSFER_ICONS :: "transfer_state \<Rightarrow> jstr" where
  "TRANSFER_ICONS Up = lit ''up''"
| "TRANSFER_ICONS Retry = lit ''pause''"
| "TRANSFER_ICONS Done = lit ''check''"
| "TRANSFER_ICONS Failed = lit ''alert''"
| "TRANSFER_ICONS Canceled = lit ''x''"

definition transferHTML :: "transfer \<Rightarrow> jstr" where
  \<open>transferHTML t =
     lit ''<li class="transfer-item '' @ state_name (tr_state t) @ lit ''">'' @ nl 8 @
     lit ''<div class="transfer-row">'' @ nl 10 @
     lit ''<span class="transfer-icon">'' @ iconSVG (TRANSFER_ICONS (tr_state t)) @ lit ''</span>'' @ nl 10 @
     lit ''<span class="transfer-name" title="'' @ escapeAttr (tr_name t) @ lit ''">'' @ escapeHTML (tr_name t) @ lit ''</span>'' @ nl 10 @
     lit ''<span class="transfer-state mono">'' @ escapeHTML (tr_label t) @ lit ''</span>'' @ nl 8 @
     lit ''</div>'' @ nl 8 @
     lit ''<div class="transfer-bar"><span style="width: '' @ show_tenths (tr_pct t) @ lit ''%"></span></div>'' @ nl 8 @
     lit ''<div class="transfer-detail mono">'' @ escapeHTML (tr_detail t) @ lit ''</div>'' @ nl 6 @
     lit ''</li>''\<close>

definition renderTransfers :: "transfer_list \<Rightarrow> jstr" where
  "renderTransfers l = join [] (map transferHTML (transfers l))"

section \<open>What trimming leaves\<close>

lemma findLastIndex_None: "findLastIndex P xs = None \<longleftrightarrow> (\<forall>x \<in> set xs. \<not> P x)"
  by (induction xs) (auto split: option.splits)

lemma filter_remove_last:
  assumes "findLastIndex P xs = Some i"
  shows "filter (\<lambda>x. \<not> P x) (remove_at i xs) = filter (\<lambda>x. \<not> P x) xs"
    and "filter P (remove_at i xs) = butlast (filter P xs)"
proof -
  have "filter (\<lambda>x. \<not> P x) (remove_at i xs) = filter (\<lambda>x. \<not> P x) xs \<and>
    filter P (remove_at i xs) = butlast (filter P xs)"
    using assms
  proof (induction xs arbitrary: i)
    case (Cons x xs)
    show ?case
    proof (cases "findLastIndex P xs")
      case None
      with Cons.prems have "i = 0" "P x" "filter P xs = []"
        by (auto simp: findLastIndex_None filter_empty_conv split: if_splits)
      then show ?thesis by (simp add: remove_at_def)
    next
      case (Some j)
      with Cons have j: "i = Suc j" and IH:
        "filter (\<lambda>x. \<not> P x) (remove_at j xs) = filter (\<lambda>x. \<not> P x) xs"
        "filter P (remove_at j xs) = butlast (filter P xs)" by auto
      from Some have "filter P xs \<noteq> []"
        by (metis findLastIndex_None filter_empty_conv option.discI)
      with j IH show ?thesis by (simp add: remove_at_def)
    qed
  qed simp
  then show "filter (\<lambda>x. \<not> P x) (remove_at i xs) = filter (\<lambda>x. \<not> P x) xs"
    and "filter P (remove_at i xs) = butlast (filter P xs)" by simp_all
qed

lemma subseq_remove_at: "subseq (remove_at i xs) xs"
  unfolding remove_at_def
proof (induction xs arbitrary: i)
  case (Cons x xs)
  then show ?case by (cases i) (auto intro: list_emb_Cons)
qed simp

lemma subseq_distinct: "subseq xs ys \<Longrightarrow> distinct ys \<Longrightarrow> distinct xs \<and> set xs \<subseteq> set ys"
proof (induction rule: list_emb.induct)
qed auto

definition finished :: "transfer \<Rightarrow> bool" where
  "finished t = (\<not> running t)"

lemma finished_fun: "(\<lambda>x. tr_state x \<noteq> Up \<and> tr_state x \<noteq> Retry) = finished"
  by (auto simp: finished_def running_def)

lemma running_fun: "(\<lambda>x. \<not> finished x) = running"
  by (simp add: finished_def)

lemma length_split: "length (filter running ts) + length (filter finished ts) = length ts"
  unfolding finished_def by (rule sum_length_filter_compl)

text \<open>All running entries stay, in order; of the finished ones the newest fill the rest.\<close>

lemma trim_list_spec:
  "filter running (trim_list ts) = filter running ts \<and>
   filter finished (trim_list ts) = take (TRANSFER_LIMIT - length (filter running ts)) (filter finished ts) \<and>
   subseq (trim_list ts) ts"
proof (induction ts rule: trim_list.induct)
  case (1 ts)
  let ?r = "length (filter running ts)" and ?f = "length (filter finished ts)"
  show ?case
  proof (cases "length ts > TRANSFER_LIMIT")
    case False
    then have "?f \<le> TRANSFER_LIMIT - ?r" using length_split [of ts] by simp
    with False show ?thesis by (simp add: trim_list.simps [of ts])
  next
    case True
    show ?thesis
    proof (cases "findLastIndex finished ts")
      case None
      then have "filter finished ts = []" by (simp add: findLastIndex_None filter_empty_conv)
      with True None show ?thesis by (simp add: trim_list.simps [of ts] finished_fun)
    next
      case (Some i)
      have run: "filter running (remove_at i ts) = filter running ts"
        using filter_remove_last(1) [OF Some] by (simp add: running_fun)
      have fin: "filter finished (remove_at i ts) = butlast (filter finished ts)"
        using filter_remove_last(2) [OF Some] .
      have less: "TRANSFER_LIMIT - ?r \<le> ?f - 1" using True length_split [of ts] by simp
      from 1 [unfolded finished_fun, OF True Some] True Some less subseq_remove_at [of i ts]
      show ?thesis
        by (auto simp: trim_list.simps [of ts] finished_fun run fin take_butlast butlast_conv_take min_def
            intro: subseq_order.order_trans)
    qed
  qed
qed

lemma trim_list_set: "set (trim_list ts) \<subseteq> set ts"
proof -
  have "subseq xs ys \<Longrightarrow> set xs \<subseteq> set ys" for xs ys :: "transfer list"
    by (induction rule: list_emb.induct) auto
  then show ?thesis using trim_list_spec by blast
qed

text \<open>
  Adding an entry never drops a transfer that is still running: the running
  entries after \<open>addTransfer\<close> are exactly the old ones and the new one if it runs, in the same
  order, and of the finished entries the newest ones stay, as many as fit under the limit of
  eight.
\<close>

theorem addTransfer_keeps:
  "\<forall>t l'. addTransfer name st label pct detail l = (t, l') \<longrightarrow>
     filter running (transfers l') = filter running (t # transfers l) \<and>
     filter finished (transfers l') =
       take (TRANSFER_LIMIT - length (filter running (t # transfers l))) (filter finished (t # transfers l))"
  using trim_list_spec by (auto simp: addTransfer_def Let_def)

theorem addTransfer_keeps_witness:
  "let entry = \<lambda>i s. \<lparr>tr_id = i, tr_name = [], tr_state = s, tr_label = [], tr_pct = 0, tr_detail = []\<rparr>;
       l = \<lparr>transfers = map (\<lambda>i. entry i (if i = 3 then Up else Done)) [8, 7, 6, 5, 4, 3, 2, 1], transferSeq = 8\<rparr>;
       l' = snd (addTransfer [] Done [] 1000 [] l)
   in map tr_id (filter running (transfers l')) = [3]"
  using addTransfer_keeps [of "[]" Done "[]" 1000 "[]"]
  by (simp add: Let_def addTransfer_def running_def)

section \<open>Entries keep their identity\<close>

definition transfers_ok :: "transfer_list \<Rightarrow> bool" where
  "transfers_ok l \<longleftrightarrow> distinct (map tr_id (transfers l)) \<and> (\<forall>t \<in> set (transfers l). tr_id t \<le> transferSeq l)"

lemma transfers_ok_add: "transfers_ok l \<Longrightarrow> transfers_ok (snd (addTransfer name st label pct detail l))"
proof -
  assume ok: "transfers_ok l"
  let ?t = "\<lparr>tr_id = transferSeq l + 1, tr_name = name, tr_state = st, tr_label = label,
               tr_pct = pct, tr_detail = detail\<rparr>"
  have sub: "subseq (trim_list (?t # transfers l)) (?t # transfers l)"
    using trim_list_spec by blast
  then have "subseq (map tr_id (trim_list (?t # transfers l))) (map tr_id (?t # transfers l))"
    by (rule subseq_map)
  moreover have "distinct (map tr_id (?t # transfers l))"
    using ok by (fastforce simp: transfers_ok_def)
  ultimately have ids: "distinct (map tr_id (trim_list (?t # transfers l)))"
    "set (map tr_id (trim_list (?t # transfers l))) \<subseteq> set (map tr_id (?t # transfers l))"
    using subseq_distinct by blast+
  have "tr_id x \<le> Suc (transferSeq l)" if "x \<in> set (trim_list (?t # transfers l))" for x
    using ids(2) that ok by (fastforce simp: transfers_ok_def)
  with ids(1) show ?thesis by (simp add: transfers_ok_def addTransfer_def Let_def)
qed

lemma transfers_ok_update:
  assumes "transfers_ok l" and "\<And>x. tr_id (changes x) = tr_id x"
  shows "transfers_ok (updateTransfer i changes l)"
proof -
  have "map tr_id (map (\<lambda>x. if tr_id x = i then changes x else x) (transfers l)) = map tr_id (transfers l)"
    using assms(2) by simp
  with assms show ?thesis by (auto simp: transfers_ok_def updateTransfer_def simp del: map_map)
qed

lemma transfers_ok_clear [simp]: "transfers_ok (clearTransfers l)"
  by (simp add: transfers_ok_def clearTransfers_def)

end
