(* ===== verification/Identity.thy ===== *)
theory Identity
  imports Prelude
begin

text \<open>
  The browser's local storage as web/static/app.js wraps it (\<open>storageGet\<close>, \<open>storageSet\<close>,
  \<open>storageRemove\<close>) and the persistent device key kept in it (\<open>getDeviceKey\<close>).

  \<open>localStorage\<close> may refuse access (private browsing) or refuse to write (quota); the wrappers
  swallow the exception.  The record says which of the two works; \<open>items\<close> is the content.
\<close>

section \<open>Storage\<close>

record storage =
  readable :: bool
  writable :: bool
  items :: "jstr \<Rightarrow> jstr option"

definition storageGet :: "storage \<Rightarrow> jstr \<Rightarrow> jstr option" where
  "storageGet st key = (if readable st then items st key else None)"

definition storageSet :: "jstr \<Rightarrow> jstr \<Rightarrow> storage \<Rightarrow> storage" where
  "storageSet key value st =
     (if readable st \<and> writable st then st\<lparr>items := (items st)(key := Some value)\<rparr> else st)"

definition storageRemove :: "jstr \<Rightarrow> storage \<Rightarrow> storage" where
  "storageRemove key st = (if readable st then st\<lparr>items := (items st)(key := None)\<rparr> else st)"

lemma storage_flags [simp]:
  "readable (storageSet k v st) = readable st" "writable (storageSet k v st) = writable st"
  "readable (storageRemove k st) = readable st" "writable (storageRemove k st) = writable st"
  by (simp_all add: storageSet_def storageRemove_def)

text \<open>What the page relies on: a key-value store whose writes may be lost, never misplaced.\<close>

locale key_value_store =
  fixes get :: "'s \<Rightarrow> 'k \<Rightarrow> 'v option"
    and put :: "'k \<Rightarrow> 'v \<Rightarrow> 's \<Rightarrow> 's"
    and del :: "'k \<Rightarrow> 's \<Rightarrow> 's"
    and durable :: "'s \<Rightarrow> bool"
  assumes get_put_same: "durable s \<Longrightarrow> get (put k v s) k = Some v"
    and get_put_other: "k' \<noteq> k \<Longrightarrow> get (put k v s) k' = get s k'"
    and get_del_same: "get (del k s) k = None"
    and get_del_other: "k' \<noteq> k \<Longrightarrow> get (del k s) k' = get s k'"
    and durable_put: "durable (put k v s) = durable s"
    and durable_del: "durable (del k s) = durable s"
begin

lemmas store_laws = get_put_same get_put_other get_del_same get_del_other durable_put durable_del

lemma put_del_other:
  "durable s \<Longrightarrow> k' \<noteq> k \<Longrightarrow> get (del k' (put k v s)) k = Some v"
  by (simp add: store_laws)

end

definition durable_storage :: "storage \<Rightarrow> bool" where
  "durable_storage st = (readable st \<and> writable st)"

interpretation kv: key_value_store storageGet storageSet storageRemove durable_storage
  by unfold_locales
    (auto simp: storageGet_def storageSet_def storageRemove_def durable_storage_def)

section \<open>The device key\<close>

definition DEVICE_KEY_KEY :: jstr where
  "DEVICE_KEY_KEY = lit ''lanroom-device-key''"

definition LEGACY_DEVICE_ID_KEY :: jstr where
  "LEGACY_DEVICE_ID_KEY = lit ''lanroom-device-id''"

definition is_device_key :: "jstr \<Rightarrow> bool" where
  "is_device_key key = (length key = 64 \<and> list_all is_hex key)"

definition hex_digit :: "nat \<Rightarrow> jchar" where
  "hex_digit d = (if d < 10 then 48 + d else 87 + d)"

text \<open>\<open>x.toString(16)\<close> of an octet, and \<open>padStart(2, "0")\<close>.\<close>

definition hex_string :: "byte \<Rightarrow> jstr" where
  "hex_string x = (if x < 16 then [hex_digit x] else [hex_digit (x div 16), hex_digit (x mod 16)])"

definition padStart :: "nat \<Rightarrow> jchar \<Rightarrow> jstr \<Rightarrow> jstr" where
  "padStart n c s = replicate (n - length s) c @ s"

text \<open>\<open>rnd\<close> is what \<open>crypto.getRandomValues\<close> fills the 32-octet array with.\<close>

definition new_device_key :: "byte list \<Rightarrow> jstr" where
  "new_device_key rnd = concat (map (\<lambda>x. padStart 2 48 (hex_string x)) rnd)"

definition getDeviceKey :: "byte list \<Rightarrow> storage \<Rightarrow> jstr \<times> storage" where
  "getDeviceKey rnd st =
     (case storageGet st DEVICE_KEY_KEY of
        Some key \<Rightarrow>
          if key \<noteq> [] \<and> is_device_key key then (key, st)
          else (let key' = new_device_key rnd in
                (key', storageRemove LEGACY_DEVICE_ID_KEY (storageSet DEVICE_KEY_KEY key' st)))
      | None \<Rightarrow>
          (let key' = new_device_key rnd in
           (key', storageRemove LEGACY_DEVICE_ID_KEY (storageSet DEVICE_KEY_KEY key' st))))"

definition octets :: "nat \<Rightarrow> byte list \<Rightarrow> bool" where
  "octets n bs = (length bs = n \<and> list_all (\<lambda>b. b < 256) bs)"

lemma hex_digit_is_hex: "d < 16 \<Longrightarrow> is_hex (hex_digit d)"
  by (auto simp: hex_digit_def is_hex_def)

lemma hex_octet:
  assumes "x < 256"
  shows "padStart 2 48 (hex_string x) = [hex_digit (x div 16), hex_digit (x mod 16)]"
  by (simp add: padStart_def hex_string_def hex_digit_def)

lemma new_device_key_valid:
  assumes "list_all (\<lambda>b. b < 256) rnd"
  shows "length (new_device_key rnd) = 2 * length rnd \<and> list_all is_hex (new_device_key rnd)"
  using assms
proof (induction rnd)
  case (Cons b bs)
  then have "b < 256" by simp
  then have "is_hex (hex_digit (b div 16))" and "is_hex (hex_digit (b mod 16))"
    by (auto intro!: hex_digit_is_hex)
  with Cons show ?case by (simp add: new_device_key_def hex_octet)
qed (simp add: new_device_key_def)

text \<open>Reading pairs of hexadecimal digits back, as the hub does with the key.\<close>

definition hex_value :: "jchar \<Rightarrow> nat" where
  "hex_value c = (if c < 58 then c - 48 else c - 87)"

fun hex_pairs :: "jstr \<Rightarrow> byte list" where
  "hex_pairs (a # b # s) = (16 * hex_value a + hex_value b) # hex_pairs s"
| "hex_pairs _ = []"

lemma hex_value_digit [simp]: "hex_value (hex_digit d) = d"
  by (auto simp: hex_value_def hex_digit_def)

lemma hex_pairs_new_device_key:
  "list_all (\<lambda>b. b < 256) rnd \<Longrightarrow> hex_pairs (new_device_key rnd) = rnd"
  by (induction rnd) (simp_all add: new_device_key_def hex_octet)

text \<open>
  C39. The key handed to the server is always a well-formed device key: 64 lower-case hexadecimal
  digits, whatever the storage holds and whether or not it can be written.  A new one spells the
  32 random octets exactly, so no randomness is lost.
\<close>

theorem getDeviceKey_valid:
  assumes "octets 32 rnd"
  shows "is_device_key (fst (getDeviceKey rnd st))
    \<and> (storageGet st DEVICE_KEY_KEY = None \<longrightarrow> hex_pairs (fst (getDeviceKey rnd st)) = rnd)"
proof -
  from assms have "list_all (\<lambda>b. b < 256) rnd" and "length rnd = 32"
    by (simp_all add: octets_def)
  with new_device_key_valid [of rnd] hex_pairs_new_device_key [of rnd] show ?thesis
    by (auto simp: getDeviceKey_def is_device_key_def Let_def split: option.splits)
qed

theorem getDeviceKey_valid_witness:
  "is_device_key (fst (getDeviceKey (replicate 32 255) \<lparr>readable = True, writable = True, items = Map.empty\<rparr>))"
  using getDeviceKey_valid [of "replicate 32 255"] by (simp add: octets_def list_all_iff)

lemma getDeviceKey_is_key: "octets 32 rnd \<Longrightarrow> is_device_key (fst (getDeviceKey rnd st))"
  using new_device_key_valid [of rnd]
  by (auto simp: octets_def getDeviceKey_def is_device_key_def Let_def split: option.splits)

lemma device_key_names [simp]:
  "LEGACY_DEVICE_ID_KEY \<noteq> DEVICE_KEY_KEY" "DEVICE_KEY_KEY \<noteq> LEGACY_DEVICE_ID_KEY"
  by (simp_all add: LEGACY_DEVICE_ID_KEY_def DEVICE_KEY_KEY_def lit_def)

lemma getDeviceKey_stored:
  assumes "octets 32 rnd" and "durable_storage st"
  shows "storageGet (snd (getDeviceKey rnd st)) DEVICE_KEY_KEY = Some (fst (getDeviceKey rnd st))"
  using kv.put_del_other [OF assms(2), of LEGACY_DEVICE_ID_KEY DEVICE_KEY_KEY]
  by (auto simp: getDeviceKey_def Let_def split: option.splits)

text \<open>
  The device keeps its identity: when storage works, a later page load gets the same key,
  whatever its random numbers are, and leaves storage as it was.
\<close>

theorem getDeviceKey_stable:
  assumes "octets 32 rnd" and "durable_storage st"
    and "getDeviceKey rnd st = (key, st')"
  shows "getDeviceKey rnd' st' = (key, st')"
proof -
  have "is_device_key key" and "storageGet st' DEVICE_KEY_KEY = Some key"
    using getDeviceKey_is_key [OF assms(1), of st] getDeviceKey_stored [OF assms(1,2)] assms(3)
    by simp_all
  moreover from this(1) have "key \<noteq> []"
    by (auto simp: is_device_key_def)
  ultimately show ?thesis by (simp add: getDeviceKey_def)
qed

theorem getDeviceKey_stable_witness:
  "\<exists>key st'. getDeviceKey (replicate 32 7) \<lparr>readable = True, writable = True, items = Map.empty\<rparr> = (key, st')
     \<and> getDeviceKey (replicate 32 9) st' = (key, st')"
proof -
  let ?st = "\<lparr>readable = True, writable = True, items = Map.empty\<rparr>"
  obtain key st' where *: "getDeviceKey (replicate 32 7) ?st = (key, st')"
    by (cases "getDeviceKey (replicate 32 7) ?st")
  have "getDeviceKey (replicate 32 9) st' = (key, st')"
    by (rule getDeviceKey_stable [OF _ _ *]) (simp_all add: octets_def list_all_iff durable_storage_def)
  with * show ?thesis by blast
qed

end
