(* ===== verification/Upload_Client.thy ===== *)
theory Upload_Client
  imports Upload_Wire Identity "HOL-Library.While_Combinator"
begin

text \<open>
  The page's resumable upload: \<open>httpError\<close>, \<open>openUploadSession\<close> and \<open>uploadResumable\<close> of
  web/static/app.js.  Each takes the two things the page waits for as arguments: \<open>ask\<close>, one
  request (\<open>xhrRequest\<close>), and \<open>nap\<close>, one pause (\<open>sleep\<close> followed by the test of
  \<open>signal.aborted\<close>); \<open>'s\<close> is the world they act on.  The loop is \<open>while_option\<close>: a run that
  never ends is \<open>None\<close>.

  The second half proves, for every provider of the upload interface, that the page uploads
  exactly the file and that a failed run can be resumed.
\<close>

section \<open>Errors\<close>

text \<open>\<open>UploadError message retryable status\<close>; the other errors have none of the fields.\<close>

datatype js_error = AbortError | UploadError jstr bool nat | TypeError

fun retryable :: "js_error \<Rightarrow> bool" where
  "retryable (UploadError m r st) = r"
| "retryable _ = False"

fun err_status :: "js_error \<Rightarrow> nat" where
  "err_status (UploadError m r st) = st"
| "err_status _ = 0"

fun err_message :: "js_error \<Rightarrow> jstr" where
  "err_message (UploadError m r st) = m"
| "err_message AbortError = [0x5DF2, 0x53D6, 0x6D88]"
| "err_message TypeError = lit ''TypeError''"

definition network_error :: js_error where
  "network_error = UploadError [0x7F51, 0x7EDC, 0x4E2D, 0x65AD] True 0"

definition httpError :: "nat \<Rightarrow> json_data \<Rightarrow> jstr \<Rightarrow> js_error" where
  "httpError status data fallback =
     (let detail = (case data of JStr t \<Rightarrow> take 200 (trim t) | _ \<Rightarrow> []) in
      if status = 401 then UploadError [0x9700, 0x8981, 0x623F, 0x95F4, 0x53E3, 0x4EE4, 0xFF0C, 0x8BF7, 0x5237, 0x65B0, 0x9875, 0x9762, 0x91CD, 0x65B0, 0x8FDB, 0x5165] False 401
      else UploadError
        (fallback @ lit '' (HTTP '' @ show_nat status @ lit '')'' @
           (if detail \<noteq> [] then [0xFF1A] @ detail else []))
        (status \<ge> 500 \<or> status = 400 \<or> status = 0) status)"

section \<open>Opening a session\<close>

record js_file =
  f_name :: jstr
  f_type :: jstr
  f_lastModified :: nat
  f_content :: "byte list"

definition f_size :: "js_file \<Rightarrow> nat" where
  "f_size file = length (f_content file)"

definition UPLOAD_MAX_RETRIES :: nat where
  "UPLOAD_MAX_RETRIES = 10"

definition upload_storeKey :: "js_file \<Rightarrow> jstr" where
  "upload_storeKey file =
     lit ''lanroom-upload:'' @ f_name file @ [124] @ show_nat (f_size file) @ [124] @
     show_nat (f_lastModified file)"

text \<open>
  The content is not part of the key: two files of one name, size and time of change share it, and a saved session of the
  one is continued with the other.
\<close>

lemma storeKey_collision:
  "length c = f_size file \<Longrightarrow> upload_storeKey (file\<lparr>f_content := c\<rparr>) = upload_storeKey file"
  by (simp add: upload_storeKey_def f_size_def)

text \<open>The \<open>FILE_ID_RE\<close> of the page.\<close>

definition file_id_re :: "jstr \<Rightarrow> bool" where
  "file_id_re i = (length i = 32 \<and> list_all is_hex i)"

text \<open>A property in a template string.\<close>

definition text_of :: "jstr option \<Rightarrow> jstr" where
  "text_of x = (case x of Some t \<Rightarrow> t | None \<Rightarrow> lit ''undefined'')"

definition createSession ::
    "(request \<Rightarrow> 's \<Rightarrow> xhr_result \<times> 's) \<Rightarrow> js_file \<Rightarrow> jstr \<Rightarrow> storage \<Rightarrow> 's \<Rightarrow>
     (js_error + upload_state) \<times> storage \<times> 's" where
  "createSession ask file storeKey st s =
     (case ask (ReqCreate (f_name file) (f_size file) (f_type file)) s of
        (XAbort, s') \<Rightarrow> (Inl AbortError, st, s')
      | (XError, s') \<Rightarrow> (Inl network_error, st, s')
      | (XOk status data, s') \<Rightarrow>
          if status \<noteq> 201 then (Inl (httpError status data [0x521B, 0x5EFA, 0x4E0A, 0x4F20, 0x5931, 0x8D25]), st, s')
          else (case data_fields data of
                  None \<Rightarrow> (Inl TypeError, st, s')
                | Some d \<Rightarrow>
                    (Inr d,
                     if st_file d = None then storageSet storeKey (text_of (uploadId d)) st else st,
                     s')))"

definition openUploadSession ::
    "(request \<Rightarrow> 's \<Rightarrow> xhr_result \<times> 's) \<Rightarrow> js_file \<Rightarrow> jstr \<Rightarrow> storage \<Rightarrow> 's \<Rightarrow>
     (js_error + upload_state) \<times> storage \<times> 's" where
  "openUploadSession ask file storeKey st s =
     (case storageGet st storeKey of
        Some savedId \<Rightarrow>
          if savedId \<noteq> [] \<and> file_id_re savedId then
            (case ask (ReqState savedId) s of
               (XAbort, s') \<Rightarrow> (Inl AbortError, st, s')
             | (XError, s') \<Rightarrow> (Inl network_error, st, s')
             | (XOk status data, s') \<Rightarrow>
                 (case data_fields data of
                    Some d \<Rightarrow>
                      if status = 200 \<and> uploadId d \<noteq> None \<and> uploadId d \<noteq> Some [] then (Inr d, st, s')
                      else createSession ask file storeKey (storageRemove storeKey st) s'
                  | None \<Rightarrow> createSession ask file storeKey (storageRemove storeKey st) s'))
          else createSession ask file storeKey st s
      | None \<Rightarrow> createSession ask file storeKey st s)"

section \<open>The chunk loop\<close>

text \<open>
  The variables of the loop, what it reported to \<open>onProgress\<close> (octets, and the note shown while it
  waits), how long it paused, and the error it threw, if it did.
\<close>

record 's upload_run =
  session :: upload_state
  offset :: "nat option"
  failures :: nat
  progress :: "(nat option \<times> jstr option) list"
  pauses :: "nat list"
  thrown :: "js_error option"
  world :: 's

text \<open>
  \<open>file.slice(offset, Math.min(offset + chunkSize, file.size))\<close>.  With an undefined operand the
  upper bound is NaN, which \<open>slice\<close> reads as 0.
\<close>

definition chunk_body :: "js_file \<Rightarrow> nat option \<Rightarrow> nat option \<Rightarrow> byte list" where
  "chunk_body file off chunk =
     (case (off, chunk) of
        (Some i, Some k) \<Rightarrow> slice (f_content file) i (min (i + k) (f_size file))
      | _ \<Rightarrow> [])"

definition retry_note :: "nat \<Rightarrow> jstr" where
  "retry_note n =
     [0x7F51, 0x7EDC, 0x4E2D, 0x65AD, 0xFF0C] @ show_nat (min (2 ^ (n - 1)) 30) @ (lit ''s '' @ [0x540E, 0x91CD, 0x8BD5, 0xFF08]) @ show_nat n @ (lit ''/'') @
     show_nat UPLOAD_MAX_RETRIES @ [0xFF09]"

text \<open>The \<open>catch\<close> block of one attempt.\<close>

definition recover ::
    "(request \<Rightarrow> 's \<Rightarrow> xhr_result \<times> 's) \<Rightarrow> (nat \<Rightarrow> 's \<Rightarrow> bool \<times> 's) \<Rightarrow> jstr \<Rightarrow> js_error \<Rightarrow>
     's upload_run \<Rightarrow> 's upload_run" where
  "recover ask nap uid err r =
     (if err = AbortError \<or> \<not> retryable err then r\<lparr>thrown := Some err\<rparr>
      else
        let n = failures r + 1; r1 = r\<lparr>failures := n\<rparr> in
        if n > UPLOAD_MAX_RETRIES
        then r1\<lparr>thrown := Some (UploadError
               (err_message err @ ([0xFF0C, 0x91CD, 0x8BD5] @ lit '' '') @ show_nat UPLOAD_MAX_RETRIES @ (lit '' '' @ [0x6B21, 0x540E, 0x653E, 0x5F03])) False 0)\<rparr>
        else
          let ms = min (1000 * 2 ^ (n - 1)) 30000;
              (aborted, w) = nap ms (world r1);
              r2 = r1\<lparr>progress := progress r1 @ [(offset r1, Some (retry_note n))],
                      pauses := pauses r1 @ [ms], world := w\<rparr>
          in if aborted then r2\<lparr>thrown := Some AbortError\<rparr>
             else (case ask (ReqState uid) w of
                     (XAbort, w') \<Rightarrow> r2\<lparr>thrown := Some AbortError, world := w'\<rparr>
                   | (XError, w') \<Rightarrow> r2\<lparr>world := w'\<rparr>
                   | (XOk status data, w') \<Rightarrow>
                       if status = 200 then
                         (case data_fields data of
                            None \<Rightarrow> r2\<lparr>thrown := Some TypeError, world := w'\<rparr>
                          | Some d \<Rightarrow> r2\<lparr>session := d, offset := st_offset d, world := w'\<rparr>)
                       else if status \<noteq> 0
                       then r2\<lparr>thrown := Some (httpError status data [0x4E0A, 0x4F20, 0x4F1A, 0x8BDD, 0x5DF2, 0x5931, 0x6548]), world := w'\<rparr>
                       else r2\<lparr>world := w'\<rparr>))"

text \<open>One round of the loop; \<open>uid\<close> and \<open>chunk\<close> are the constants taken from the first session.\<close>

definition put_chunk ::
    "(request \<Rightarrow> 's \<Rightarrow> xhr_result \<times> 's) \<Rightarrow> (nat \<Rightarrow> 's \<Rightarrow> bool \<times> 's) \<Rightarrow> jstr \<Rightarrow> nat option \<Rightarrow>
     js_file \<Rightarrow> 's upload_run \<Rightarrow> 's upload_run" where
  "put_chunk ask nap uid chunk file r =
     (let r0 = r\<lparr>progress := progress r @ [(offset r, None)]\<rparr>;
          (x, w) = ask (ReqPut uid (offset r) (chunk_body file (offset r) chunk)) (world r);
          r1 = r0\<lparr>world := w\<rparr>
      in case x of
           XOk status data \<Rightarrow>
             if status = 200 \<or> status = 409 then
               (case data_fields data of
                  None \<Rightarrow> recover ask nap uid TypeError r1
                | Some d \<Rightarrow>
                    r1\<lparr>session := d, offset := st_offset d,
                       failures := (if status = 200 then 0 else failures r1)\<rparr>)
             else recover ask nap uid (httpError status data [0x4E0A, 0x4F20, 0x5931, 0x8D25]) r1
         | XError \<Rightarrow> recover ask nap uid network_error r1
         | XAbort \<Rightarrow> recover ask nap uid AbortError r1)"

definition upload_loop ::
    "(request \<Rightarrow> 's \<Rightarrow> xhr_result \<times> 's) \<Rightarrow> (nat \<Rightarrow> 's \<Rightarrow> bool \<times> 's) \<Rightarrow> jstr \<Rightarrow> nat option \<Rightarrow>
     js_file \<Rightarrow> 's upload_run \<Rightarrow> 's upload_run option" where
  "upload_loop ask nap uid chunk file r =
     while_option (\<lambda>r. thrown r = None \<and> st_file (session r) = None)
       (put_chunk ask nap uid chunk file) r"

definition start_run :: "upload_state \<Rightarrow> 's \<Rightarrow> 's upload_run" where
  "start_run d s = \<lparr>session = d, offset = Some (case st_offset d of Some i \<Rightarrow> i | None \<Rightarrow> 0),
     failures = 0, progress = [], pauses = [], thrown = None, world = s\<rparr>"

text \<open>The outer \<open>catch\<close>: what a thrown error does to the saved session.\<close>

definition give_up ::
    "(request \<Rightarrow> 's \<Rightarrow> xhr_result \<times> 's) \<Rightarrow> jstr \<Rightarrow> jstr \<Rightarrow> js_error \<Rightarrow> storage \<Rightarrow> 's \<Rightarrow> storage \<times> 's" where
  "give_up ask uid storeKey err st s =
     (if err = AbortError then (storageRemove storeKey st, snd (ask (ReqDelete uid) s))
      else if \<not> retryable err \<and> err_status err \<noteq> 0 \<and> err_status err \<noteq> 401
      then (storageRemove storeKey st, s)
      else (st, s))"

record 's upload_outcome =
  result :: "js_error + file_resp"
  saved :: storage
  final_world :: 's
  reported :: "(nat option \<times> jstr option) list"
  slept :: "nat list"

definition uploadResumable ::
    "(request \<Rightarrow> 's \<Rightarrow> xhr_result \<times> 's) \<Rightarrow> (nat \<Rightarrow> 's \<Rightarrow> bool \<times> 's) \<Rightarrow> js_file \<Rightarrow> storage \<Rightarrow> 's \<Rightarrow>
     's upload_outcome option" where
  "uploadResumable ask nap file st s =
     (let storeKey = upload_storeKey file in
      case openUploadSession ask file storeKey st s of
        (Inl e, st', s') \<Rightarrow>
          Some \<lparr>result = Inl e, saved = st', final_world = s', reported = [], slept = []\<rparr>
      | (Inr d, st', s') \<Rightarrow>
          let uid = text_of (uploadId d) in
          (case upload_loop ask nap uid (chunkSize d) file (start_run d s') of
             None \<Rightarrow> None
           | Some r \<Rightarrow>
               (case thrown r of
                  Some e \<Rightarrow>
                    let (st'', w) = give_up ask uid storeKey e st' (world r) in
                    Some \<lparr>result = Inl e, saved = st'', final_world = w, reported = progress r,
                      slept = pauses r\<rparr>
                | None \<Rightarrow>
                    (case st_file (session r) of
                       None \<Rightarrow> None
                     | Some f \<Rightarrow>
                         Some \<lparr>result = Inr f, saved = storageRemove storeKey st',
                           final_world = world r,
                           reported = progress r @ [(Some (f_size file), None)],
                           slept = pauses r\<rparr>))))"

section \<open>Content stays a leading piece of the file\<close>

text \<open>What is stored agrees with the file \<open>c\<close> as far as it goes.\<close>

fun agrees :: "byte list \<Rightarrow> slot \<Rightarrow> bool" where
  "agrees c Absent = True"
| "agrees c (Partial n p) = (n = length c \<and> p = take (length p) c)"
| "agrees c (Complete x) = (x = c)"

lemma agrees_kept: "kept v v' \<Longrightarrow> agrees c v \<Longrightarrow> agrees c v'"
  by (cases v; cases v') auto

lemma take_slice_take:
  "take m c @ take k (slice c m j) = take (m + min k (j - m)) c"
  by (simp add: slice_def take_add min.commute)

lemma agrees_appended:
  assumes "agrees c v" and "appended off body v v'"
    and "\<And>m. off = Some m \<Longrightarrow> \<exists>j. body = slice c m j"
  shows "agrees c v'"
proof (cases v)
  case (Partial n p)
  with assms(1) have n: "n = length c" and p: "p = take (length p) c" by simp_all
  have ext: "\<exists>m. p @ take k body = take m c" if "off = Some (length p)" for k
  proof -
    from assms(3) [OF that] obtain j where "body = slice c (length p) j" by blast
    with take_slice_take [of "length p" c k j] p show ?thesis by metis
  qed
  show ?thesis
  proof (cases v')
    case (Partial n' p')
    with assms(2) \<open>v = Partial n p\<close> have "n' = n"
      and "p' = p \<or> off = Some (length p) \<and> (\<exists>k. p' = p @ take k body)" by auto
    then have "\<exists>m. p' = take m c" using ext p by metis
    then have "p' = take (length p') c" by (auto simp: min_def)
    with Partial \<open>n' = n\<close> n show ?thesis by simp
  next
    case (Complete x)
    with assms(2) \<open>v = Partial n p\<close> have "length x = n"
      and "x = p \<or> off = Some (length p) \<and> x = p @ take (length body) body" by auto
    then have "\<exists>m. x = take m c" using ext p by metis
    with \<open>length x = n\<close> n Complete show ?thesis by auto
  qed simp
next
  case (Complete x)
  with assms(1,2) show ?thesis by (cases v') auto
qed (use assms(2) in \<open>cases v'; simp\<close>)

lemma chunk_body_slice: "off = Some m \<Longrightarrow> \<exists>j. chunk_body file off chunk = slice (f_content file) m j"
  by (cases chunk) (auto simp: chunk_body_def slice_def intro: exI [of _ "0::nat"])

text \<open>
  What a saved session must be for the page to go on with it: the id in storage belongs to an
  upload of this very file.  A run needs it and, successful or not, leaves it behind.
\<close>

definition resumable ::
    "('s \<Rightarrow> jstr \<Rightarrow> bool) \<Rightarrow> ('s \<Rightarrow> jstr \<Rightarrow> slot) \<Rightarrow> js_file \<Rightarrow> storage \<Rightarrow> 's \<Rightarrow> bool" where
  "resumable owned view file st s \<longleftrightarrow>
     (\<forall>i. storageGet st (upload_storeKey file) = Some i \<longrightarrow> file_id_re i \<longrightarrow>
        owned s i \<and> agrees (f_content file) (view s i))"

section \<open>Correctness over any provider of the service\<close>

locale upload_client = upload_service +
  fixes nap :: "nat \<Rightarrow> 's \<Rightarrow> bool \<times> 's"
  assumes nap_view: "view (snd (nap ms s)) i = view s i"
    and nap_owned: "owned (snd (nap ms s)) i = owned s i"
    and nap_ready: "ready (snd (nap ms s)) = ready s"
begin

text \<open>The world is sound for the upload \<open>i\<close> of the file \<open>c\<close>.\<close>

definition sound :: "byte list \<Rightarrow> jstr \<Rightarrow> 's \<Rightarrow> bool" where
  "sound c i s \<longleftrightarrow> ready s \<and> owned s i \<and> agrees c (view s i)"

definition told :: "byte list \<Rightarrow> jstr \<Rightarrow> upload_state \<Rightarrow> 's \<Rightarrow> bool" where
  "told c i d s \<longleftrightarrow>
     (\<forall>f. st_file d = Some f \<longrightarrow> fileId f = i \<and> fr_size f = length c \<and> view s i = Complete c)"

lemma reports_told: "sound c i s \<Longrightarrow> reports i d (view s i) \<Longrightarrow> told c i d s"
  by (cases "view s i") (auto simp: sound_def told_def)

lemma sound_nap: "sound c i s \<Longrightarrow> sound c i (snd (nap ms s))"
  by (simp add: sound_def nap_view nap_owned nap_ready)

lemma sound_state: "sound c i s \<Longrightarrow> sound c i (snd (ask (ReqState i) s))"
  unfolding sound_def by (blast intro: ready_ask owned_ask agrees_kept state_view)

lemma told_state:
  assumes "sound c i s" and "ask (ReqState i) s = (XOk 200 data, s')" and "data_fields data = Some d"
  shows "told c i d s'"
proof -
  have "sound c i s'" using sound_state [OF assms(1)] assms(2) by simp
  moreover have "reports i d (view s' i)"
    using state_report [OF _ _ assms(2)] assms(1,3) by (auto simp: sound_def)
  ultimately show ?thesis by (rule reports_told)
qed

lemma sound_put:
  assumes "sound (f_content file) i s"
  shows "sound (f_content file) i (snd (ask (ReqPut i off (chunk_body file off chunk)) s))"
proof -
  from assms have s: "ready s" "owned s i" "agrees (f_content file) (view s i)"
    by (simp_all add: sound_def)
  have "agrees (f_content file) (view (snd (ask (ReqPut i off (chunk_body file off chunk)) s)) i)"
    using s(3) put_view [OF s(1,2)] chunk_body_slice by (rule agrees_appended)
  with s show ?thesis by (simp add: sound_def ready_ask owned_ask)
qed

lemma told_put:
  assumes "sound (f_content file) i s"
    and "ask (ReqPut i off (chunk_body file off chunk)) s = (XOk status data, s')"
    and "status = 200 \<or> status = 409" and "data_fields data = Some d"
  shows "told (f_content file) i d s'"
proof -
  have "sound (f_content file) i s'"
    using sound_put [OF assms(1), of off chunk] assms(2) by simp
  moreover have "reports i d (view s' i)"
    using put_report [OF _ _ assms(2)] assms(1,3,4) by (auto simp: sound_def)
  ultimately show ?thesis by (rule reports_told)
qed

text \<open>The loop invariant: a session that names a file names the stored, complete file.\<close>

definition run_inv :: "js_file \<Rightarrow> jstr \<Rightarrow> 's upload_run \<Rightarrow> bool" where
  "run_inv file i r \<longleftrightarrow>
     sound (f_content file) i (world r) \<and>
     (thrown r = None \<longrightarrow> told (f_content file) i (session r) (world r))"

lemma told_no_file: "st_file d = None \<Longrightarrow> told c i d s"
  by (simp add: told_def)

lemma recover_inv:
  assumes "sound (f_content file) i (world r)" and "st_file (session r) = None" and "thrown r = None"
  shows "run_inv file i (recover ask nap i err r)"
proof (cases "err = AbortError \<or> \<not> retryable err \<or> failures r + 1 > UPLOAD_MAX_RETRIES")
  case True
  with assms(1) show ?thesis by (auto simp: recover_def run_inv_def Let_def)
next
  case False
  let ?ms = "min (1000 * 2 ^ failures r) 30000"
  obtain ab w where nap: "nap ?ms (world r) = (ab, w)" by (cases "nap ?ms (world r)")
  have w: "sound (f_content file) i w" using sound_nap [OF assms(1), of ?ms] nap by simp
  obtain x w' where ask: "ask (ReqState i) w = (x, w')" by (cases "ask (ReqState i) w")
  have w': "sound (f_content file) i w'" using sound_state [OF w] ask by simp
  show ?thesis
  proof (cases x)
    case (XOk status data)
    show ?thesis
    proof (cases "status = 200 \<and> data_fields data \<noteq> None")
      case True
      then obtain d where "status = 200" "data_fields data = Some d" by blast
      with told_state [OF w, of data w' d] ask XOk False nap w w' assms show ?thesis
        by (auto simp: recover_def run_inv_def Let_def)
    next
      case other: False
      with XOk ask False nap w w' assms show ?thesis
        by (auto simp: recover_def run_inv_def told_no_file Let_def)
    qed
  qed (use ask False nap w w' assms in \<open>auto simp: recover_def run_inv_def told_no_file Let_def\<close>)
qed

lemma put_chunk_inv:
  assumes "run_inv file i r" and "thrown r = None \<and> st_file (session r) = None"
  shows "run_inv file i (put_chunk ask nap i chunk file r)"
proof -
  let ?body = "chunk_body file (offset r) chunk"
  obtain x w where ask: "ask (ReqPut i (offset r) ?body) (world r) = (x, w)"
    by (cases "ask (ReqPut i (offset r) ?body) (world r)")
  from assms(1) have s: "sound (f_content file) i (world r)" by (simp add: run_inv_def)
  have w: "sound (f_content file) i w" using sound_put [OF s, of "offset r" chunk] ask by simp
  have rec: "run_inv file i (recover ask nap i err
      (r\<lparr>progress := progress r @ [(offset r, None)], world := w\<rparr>))" for err
    using w assms(2) by (intro recover_inv) simp_all
  show ?thesis
  proof (cases x)
    case (XOk status data)
    show ?thesis
    proof (cases "(status = 200 \<or> status = 409) \<and> data_fields data \<noteq> None")
      case True
      then obtain d where "status = 200 \<or> status = 409" "data_fields data = Some d" by blast
      with told_put [OF s ask [unfolded XOk]] XOk ask w assms(2) show ?thesis
        by (auto simp: put_chunk_def run_inv_def Let_def)
    next
      case False
      with XOk ask rec show ?thesis
        by (auto simp: put_chunk_def Let_def split: option.split)
    qed
  qed (use ask rec in \<open>auto simp: put_chunk_def Let_def\<close>)
qed

lemma upload_loop_inv:
  assumes "run_inv file i r" and "upload_loop ask nap i chunk file r = Some r'"
  shows "run_inv file i r'"
  using assms(1)
  by (rule while_option_rule [where P = "run_inv file i", rotated 2])
    (use assms(2) put_chunk_inv in \<open>auto simp: upload_loop_def\<close>)

lemma resumable_none: "storageGet st (upload_storeKey file) = None \<Longrightarrow> resumable owned view file st s"
  by (simp add: resumable_def)

lemma resumable_removed: "resumable owned view file (storageRemove (upload_storeKey file) st) s"
  by (simp add: resumable_def kv.get_del_same)

lemma resumable_sound:
  assumes "sound (f_content file) i s"
    and "\<And>j. storageGet st (upload_storeKey file) = Some j \<Longrightarrow> file_id_re j \<Longrightarrow> j = i"
  shows "resumable owned view file st s"
  using assms by (auto simp: resumable_def sound_def)

definition opened :: "js_file \<Rightarrow> upload_state \<Rightarrow> storage \<Rightarrow> 's \<Rightarrow> jstr \<Rightarrow> bool" where
  "opened file d st s i \<longleftrightarrow>
     uploadId d = Some i \<and> sound (f_content file) i s \<and> told (f_content file) i d s \<and>
     (\<forall>j. storageGet st (upload_storeKey file) = Some j \<longrightarrow> file_id_re j \<longrightarrow> j = i)"

lemma createSession_opened:
  assumes "ready s"
    and none: "\<And>j. storageGet st (upload_storeKey file) = Some j \<Longrightarrow> \<not> file_id_re j"
    and "createSession ask file (upload_storeKey file) st s = (res, st', s')"
  shows "ready s' \<and> (case res of Inl e \<Rightarrow> st' = st | Inr d \<Rightarrow> \<exists>i. opened file d st' s' i)"
proof -
  obtain x w where ask: "ask (ReqCreate (f_name file) (f_size file) (f_type file)) s = (x, w)"
    by (cases "ask (ReqCreate (f_name file) (f_size file) (f_type file)) s")
  have w: "ready w" using assms(1) ask by (rule ready_stable)
  show ?thesis
  proof (cases "\<exists>data. x = XOk 201 data")
    case True
    then obtain data where x: "x = XOk 201 data" by blast
    from create_report [OF assms(1) ask [unfolded x]] obtain d i where
      d: "data = JObj d" "uploadId d = Some i" "owned w i" "reports i d (view w i)"
      "agrees (f_content file) (view w i)"
      by (auto simp: f_size_def)
    then have "sound (f_content file) i w" using w by (simp add: sound_def)
    moreover from reports_told [OF this d(4)] have "told (f_content file) i d w" .
    moreover have "j = i" if "storageGet st' (upload_storeKey file) = Some j" "file_id_re j"
        "st' = (if st_file d = None then storageSet (upload_storeKey file) i st else st)" for j
      using that none by (auto simp: storageGet_def storageSet_def split: if_splits)
    ultimately show ?thesis
      using assms(3) ask x d w
      by (auto simp: createSession_def opened_def text_of_def intro!: exI [of _ i])
  next
    case False
    with assms(3) ask w show ?thesis
      by (auto simp: createSession_def split: xhr_result.splits if_splits)
  qed
qed

lemma openUploadSession_opened:
  assumes "ready s" and "resumable owned view file st s"
    and open_eq: "openUploadSession ask file (upload_storeKey file) st s = (res, st', s')"
  shows "ready s' \<and> (case res of Inl e \<Rightarrow> resumable owned view file st' s' | Inr d \<Rightarrow> \<exists>i. opened file d st' s' i)"
proof (cases "\<exists>i. storageGet st (upload_storeKey file) = Some i \<and> file_id_re i")
  case False
  then have none: "\<And>j. storageGet st (upload_storeKey file) = Some j \<Longrightarrow> \<not> file_id_re j" by blast
  from False open_eq have "createSession ask file (upload_storeKey file) st s = (res, st', s')"
    by (auto simp: openUploadSession_def split: option.splits if_splits)
  from createSession_opened [OF assms(1) none this] none show ?thesis
    by (cases res) (auto simp: resumable_def)
next
  case True
  then obtain i where i: "storageGet st (upload_storeKey file) = Some i" "file_id_re i" by blast
  then have "i \<noteq> []" by (auto simp: file_id_re_def)
  obtain x w where ask: "ask (ReqState i) s = (x, w)" by (cases "ask (ReqState i) s")
  have s: "sound (f_content file) i s" using assms(1,2) i by (simp add: sound_def resumable_def)
  have w: "sound (f_content file) i w" using sound_state [OF s] ask by simp
  then have "ready w" by (simp add: sound_def)
  let ?st = "storageRemove (upload_storeKey file) st"
  have gone: "\<And>j. storageGet ?st (upload_storeKey file) = Some j \<Longrightarrow> \<not> file_id_re j"
    by (simp add: kv.get_del_same)
  have create: ?thesis if "createSession ask file (upload_storeKey file) ?st w = (res, st', s')"
    using createSession_opened [OF \<open>ready w\<close> gone that] resumable_removed by (cases res) auto
  have stay: "resumable owned view file st w" using w i by (intro resumable_sound) auto
  show ?thesis
  proof (cases "\<exists>data d. x = XOk 200 data \<and> data_fields data = Some d \<and> uploadId d \<noteq> None \<and> uploadId d \<noteq> Some []")
    case True
    then obtain data d where x: "x = XOk 200 data" and d: "data_fields data = Some d"
      and "uploadId d \<noteq> None" "uploadId d \<noteq> Some []" by blast
    with open_eq i ask \<open>i \<noteq> []\<close> have res: "res = Inr d" "st' = st" "s' = w"
      by (auto simp: openUploadSession_def)
    from state_report [OF _ _ ask [unfolded x]] s d have "uploadId d = Some i"
      by (auto simp: sound_def)
    moreover have "told (f_content file) i d w" using s ask [unfolded x] d by (rule told_state)
    ultimately show ?thesis using res i w by (auto simp: opened_def sound_def)
  next
    case False
    with open_eq i ask \<open>i \<noteq> []\<close> stay \<open>ready w\<close> create show ?thesis
      by (auto simp: openUploadSession_def split: xhr_result.splits option.splits if_splits)
  qed
qed

text \<open>How a run ends: with the loop's last state, or before the loop.\<close>

lemma uploadResumable_cases [consumes 3, case_names refused failed finished]:
  assumes "ready s" and "resumable owned view file st s" and "uploadResumable ask nap file st s = Some out"
  obtains (refused) e where "result out = Inl e" "ready (final_world out)"
      "resumable owned view file (saved out) (final_world out)"
  | (failed) i e st' and r :: "'s upload_run" where "sound (f_content file) i (world r)" "result out = Inl e"
      "(saved out, final_world out) = give_up ask i (upload_storeKey file) e st' (world r)"
      "\<And>j. storageGet st' (upload_storeKey file) = Some j \<Longrightarrow> file_id_re j \<Longrightarrow> j = i"
  | (finished) i f and r :: "'s upload_run" where "sound (f_content file) i (world r)" "result out = Inr f"
      "told (f_content file) i (session r) (world r)" "st_file (session r) = Some f"
      "final_world out = world r" "\<exists>st'. saved out = storageRemove (upload_storeKey file) st'"
proof -
  obtain res st' s' where op: "openUploadSession ask file (upload_storeKey file) st s = (res, st', s')"
    by (cases "openUploadSession ask file (upload_storeKey file) st s")
  note opened = openUploadSession_opened [OF assms(1,2) op]
  show thesis
  proof (cases res)
    case (Inl e)
    with assms(3) op opened show thesis
      by (intro refused [of e]) (auto simp: uploadResumable_def Let_def)
  next
    case (Inr d)
    with opened obtain i where i: "opened file d st' s' i" by auto
    then have uid: "text_of (uploadId d) = i" by (simp add: opened_def text_of_def)
    have "run_inv file i (start_run d s')"
      using i by (simp add: run_inv_def start_run_def opened_def)
    moreover obtain r where r: "upload_loop ask nap i (chunkSize d) file (start_run d s') = Some r"
      using assms(3) op Inr uid by (auto simp: uploadResumable_def Let_def split: option.splits)
    ultimately have inv: "run_inv file i r" by (rule upload_loop_inv)
    show thesis
    proof (cases "thrown r")
      case (Some e)
      obtain st2 w where g: "give_up ask i (upload_storeKey file) e st' (world r) = (st2, w)"
        by (cases "give_up ask i (upload_storeKey file) e st' (world r)")
      have "out = \<lparr>result = Inl e, saved = st2, final_world = w, reported = progress r, slept = pauses r\<rparr>"
        using assms(3) op Inr r Some uid g by (auto simp: uploadResumable_def Let_def)
      with inv i g show thesis by (intro failed [of i r e st']) (auto simp: run_inv_def opened_def)
    next
      case None
      then obtain f where f: "st_file (session r) = Some f"
        and "out = \<lparr>result = Inr f, saved = storageRemove (upload_storeKey file) st', final_world = world r,
          reported = progress r @ [(Some (f_size file), None)], slept = pauses r\<rparr>"
        using assms(3) op Inr r uid by (auto simp: uploadResumable_def Let_def split: option.splits)
      with inv None show thesis by (intro finished [of i r f]) (auto simp: run_inv_def)
    qed
  qed
qed

lemma uploads_exactly:
  assumes "ready s" and "resumable owned view file st s" and "uploadResumable ask nap file st s = Some out"
    and "result out = Inr f"
  shows "view (final_world out) (fileId f) = Complete (f_content file)" and "fr_size f = f_size file"
    and "owned (final_world out) (fileId f)"
proof -
  have "view (final_world out) (fileId f) = Complete (f_content file) \<and> fr_size f = f_size file
      \<and> owned (final_world out) (fileId f)"
    using assms(1-3) by (cases rule: uploadResumable_cases) (use assms(4) in \<open>auto simp: told_def f_size_def sound_def\<close>)
  then show "view (final_world out) (fileId f) = Complete (f_content file)" and "fr_size f = f_size file"
    and "owned (final_world out) (fileId f)"
    by simp_all
qed

lemma stays_resumable:
  assumes "ready s" and "resumable owned view file st s" and "uploadResumable ask nap file st s = Some out"
  shows "ready (final_world out) \<and> resumable owned view file (saved out) (final_world out)"
  using assms
proof (cases rule: uploadResumable_cases)
  case (failed i e st' r)
  show ?thesis
  proof (cases "saved out = st' \<and> final_world out = world r")
    case True
    with failed(1,4) resumable_sound [OF failed(1), of st'] show ?thesis by (simp add: sound_def)
  next
    case False
    with failed(3) have "saved out = storageRemove (upload_storeKey file) st'"
      and "final_world out = world r \<or> final_world out = snd (ask (ReqDelete i) (world r))"
      by (auto simp: give_up_def split: if_splits)
    with failed(1) show ?thesis by (auto simp: sound_def ready_ask resumable_removed)
  qed
next
  case (finished i f r)
  then show ?thesis by (auto simp: sound_def resumable_removed)
qed simp

end

end
