(* ===== verification/Page.thy ===== *)
theory Page
  imports Chat_Log Transfers Upload_Client
begin

text \<open>
  The state of the page (the globals of web/static/app.js with what they are shown as) and the
  operations on its connection: \<open>setConnected\<close>, \<open>isOpen\<close>, \<open>connect\<close> with the four handlers it
  installs, the reconnection timer, \<open>reconnectIfStale\<close>, \<open>enterChat\<close> and \<open>leaveChat\<close>.

  Sockets, timers and uploads are numbered, and a number is never used again.  A socket has the
  \<open>readyState\<close> of the WebSocket API and remembers whether its \<open>onclose\<close> is still installed; the
  other three handlers stay installed for ever, but the API delivers messages only to an open
  socket.
\<close>

section \<open>State\<close>

datatype ready_state = Connecting | Open | Closing | Closed

record socket =
  readyState :: ready_state
  onclose_set :: bool
  url_name :: jstr

text \<open>The status line: the text, and whether the send buttons work.\<close>

record conn_status =
  status_text :: jstr
  can_send :: bool

datatype task_phase = Uploading | Waiting nat file_resp | Sent | Unsent_end

record upload_task =
  ut_file :: js_file
  ut_to :: "jstr list option"
  ut_targetName :: "jstr option"
  ut_transfer :: nat
  ut_phase :: task_phase
  ut_aborted :: bool

text \<open>A message handed to \<open>ws.send\<close>: the socket, the payload and the \<open>to\<close> field.\<close>

record sent_msg =
  sent_on :: nat
  sent_payload :: msg_payload
  sent_to :: "jstr list option"

record page =
  inChat :: bool
  chatName :: "jstr option"
  ws :: "nat option"
  sockets :: "nat \<Rightarrow> socket option"
  next_socket :: nat
  reconnectTimer :: "nat option"
  timers :: "nat \<Rightarrow> nat option"
  next_timer :: nat
  reconnectAttempts :: nat
  asking :: nat
  conn :: conn_status
  panel_open :: bool
  pin_row :: bool
  page_room :: room
  page_chat :: chat
  page_transfers :: transfer_list
  tasks :: "nat \<Rightarrow> upload_task option"
  next_task :: nat
  activeUploads :: "nat list"
  messageInput :: jstr
  outbox :: "sent_msg list"
  alerts :: "jstr list"
  page_storage :: storage

definition STORAGE_KEY :: jstr where
  "STORAGE_KEY = lit ''lanroom-device-name''"

section \<open>The connection\<close>

definition isOpen :: "page \<Rightarrow> bool" where
  "isOpen p =
     (case ws p of
        None \<Rightarrow> False
      | Some w \<Rightarrow> (case sockets p w of None \<Rightarrow> False | Some s \<Rightarrow> readyState s = Open))"

definition setConnected :: "bool \<Rightarrow> page \<Rightarrow> page" where
  "setConnected online p =
     p\<lparr>conn := \<lparr>status_text = (if online then [0x5DF2, 0x8FDE, 0x63A5] else if inChat p then [0x91CD, 0x8FDE, 0x4E2D, 0x2026] else [0x672A, 0x8FDE, 0x63A5]),
                can_send = online\<rparr>\<rparr>"

text \<open>\<open>ws.onclose = null; ws.close(); ws = null\<close>.\<close>

definition drop_socket :: "page \<Rightarrow> page" where
  "drop_socket p =
     (case ws p of
        None \<Rightarrow> p
      | Some w \<Rightarrow>
          p\<lparr>sockets := (sockets p)(w := map_option (\<lambda>s. s\<lparr>onclose_set := False,
                readyState := (if readyState s = Closed then Closed else Closing)\<rparr>) (sockets p w)),
             ws := None\<rparr>)"

text \<open>
  \<open>connect(name)\<close>.  \<open>URLSearchParams\<close> turns a missing name into the text \<open>null\<close>.
\<close>

definition connect :: "jstr option \<Rightarrow> page \<Rightarrow> page" where
  "connect name p =
     (let q = drop_socket p; w = next_socket q in
      q\<lparr>sockets := (sockets q)(w \<mapsto> \<lparr>readyState = Connecting, onclose_set = True,
            url_name = (case name of Some n \<Rightarrow> n | None \<Rightarrow> lit ''null'')\<rparr>),
        next_socket := w + 1, ws := Some w\<rparr>)"

text \<open>\<open>if (reconnectTimer) { clearTimeout(reconnectTimer); reconnectTimer = null; }\<close>\<close>

definition clear_timer :: "page \<Rightarrow> page" where
  "clear_timer p =
     (case reconnectTimer p of
        None \<Rightarrow> p
      | Some t \<Rightarrow> p\<lparr>timers := (timers p)(t := None), reconnectTimer := None\<rparr>)"

definition set_ready :: "nat \<Rightarrow> ready_state \<Rightarrow> page \<Rightarrow> page" where
  "set_ready w st p = p\<lparr>sockets := (sockets p)(w := map_option (\<lambda>s. s\<lparr>readyState := st\<rparr>) (sockets p w))\<rparr>"

text \<open>\<open>ws.onopen\<close>.\<close>

definition on_open :: "nat \<Rightarrow> page \<Rightarrow> page" where
  "on_open w p = clear_timer ((setConnected True (set_ready w Open p))\<lparr>reconnectAttempts := 0\<rparr>)"

text \<open>\<open>Math.min(1000 * 2 ** reconnectAttempts, 15000)\<close>; the jitter is below 500.\<close>

definition backoff :: "nat \<Rightarrow> nat" where
  "backoff attempts = min (1000 * 2 ^ attempts) 15000"

text \<open>\<open>isInChat() && chatName\<close>: an empty name is falsy.\<close>

definition chatting :: "page \<Rightarrow> bool" where
  "chatting p = (inChat p \<and> chatName p \<noteq> None \<and> chatName p \<noteq> Some [])"

definition arm_timer :: "nat \<Rightarrow> page \<Rightarrow> page" where
  "arm_timer delay p =
     p\<lparr>timers := (timers p)(next_timer p \<mapsto> delay), reconnectTimer := Some (next_timer p),
       next_timer := next_timer p + 1\<rparr>"

text \<open>The browser closes socket \<open>w\<close>; its \<open>onclose\<close> runs if it is still installed.\<close>

definition on_close :: "nat \<Rightarrow> nat \<Rightarrow> page \<Rightarrow> page" where
  "on_close jitter w p =
     (let p1 = set_ready w Closed p in
      case sockets p w of
        None \<Rightarrow> p1
      | Some s \<Rightarrow>
          if \<not> onclose_set s then p1
          else
            let p2 = setConnected False (p1\<lparr>ws := None\<rparr>) in
            if \<not> chatting p2 then p2
            else arm_timer (backoff (reconnectAttempts p2) + jitter)
                   (p2\<lparr>reconnectAttempts := reconnectAttempts p2 + 1\<rparr>))"

definition on_error :: "nat \<Rightarrow> page \<Rightarrow> page" where
  "on_error w p = setConnected False p"

definition reconnectIfStale :: "page \<Rightarrow> page" where
  "reconnectIfStale p =
     (if \<not> chatting p \<or> isOpen p then p
      else let q = (clear_timer p)\<lparr>reconnectAttempts := 0\<rparr> in connect (chatName q) q)"

section \<open>Entering and leaving\<close>

text \<open>\<open>setDevicesPanel\<close>; the panel opens in the mobile layout only.\<close>

definition setDevicesPanel :: "bool \<Rightarrow> bool \<Rightarrow> page \<Rightarrow> page" where
  "setDevicesPanel mobile op p = (if op \<and> \<not> mobile then p else p\<lparr>panel_open := op\<rparr>)"

definition alert :: "jstr \<Rightarrow> page \<Rightarrow> page" where
  "alert m p = p\<lparr>alerts := alerts p @ [m]\<rparr>"

definition showPinRow :: "bool \<Rightarrow> page \<Rightarrow> page" where
  "showPinRow b p = p\<lparr>pin_row := b\<rparr>"

definition enterChat :: "bool \<Rightarrow> jstr \<Rightarrow> page \<Rightarrow> page" where
  "enterChat mobile name p =
     (let p1 = p\<lparr>chatName := Some name, page_storage := storageSet STORAGE_KEY name (page_storage p),
                 inChat := True, page_room := renderTargetBar mobile (page_room p)\<rparr>
      in connect (Some name) (setDevicesPanel mobile False (setConnected False p1)))"

definition abort_tasks :: "nat list \<Rightarrow> (nat \<Rightarrow> upload_task option) \<Rightarrow> nat \<Rightarrow> upload_task option" where
  "abort_tasks is ts i = (if i \<in> set is then map_option (\<lambda>t. t\<lparr>ut_aborted := True\<rparr>) (ts i) else ts i)"

definition leaveChat :: "bool \<Rightarrow> page \<Rightarrow> page" where
  "leaveChat mobile p =
     (let p1 = drop_socket (clear_timer p);
          r = (setSendTarget mobile None ((page_room p1)\<lparr>selfDevice := None\<rparr>))\<lparr>devicesSignature := None\<rparr>
      in setDevicesPanel mobile False
           (p1\<lparr>chatName := None, page_room := r, page_chat := clear_chat (page_chat p1),
               tasks := abort_tasks (activeUploads p1) (tasks p1),
               page_transfers := clearTransfers (page_transfers p1), inChat := False\<rparr>))"

section \<open>The reconnection timer\<close>

text \<open>
  The timer's callback up to its first \<open>await\<close>, and the rest of it once the answer of \<open>/api/info\<close>
  is there (\<open>None\<close> when it failed).  The variable \<open>reconnectTimer\<close> is not reset when the timer
  fires.
\<close>

definition timer_fires :: "nat \<Rightarrow> page \<Rightarrow> page" where
  "timer_fires t p =
     (let p1 = p\<lparr>timers := (timers p)(t := None)\<rparr> in
      if chatting p1 then p1\<lparr>asking := asking p1 + 1\<rparr> else p1)"

definition info_arrives :: "bool \<Rightarrow> conn_info option \<Rightarrow> page \<Rightarrow> page" where
  "info_arrives mobile info p =
     (let p1 = p\<lparr>asking := asking p - 1\<rparr> in
      if (case info of Some i \<Rightarrow> pinRequired i \<and> \<not> authorized i | None \<Rightarrow> False)
      then alert [0x9700, 0x8981, 0x91CD, 0x65B0, 0x8F93, 0x5165, 0x623F, 0x95F4, 0x53E3, 0x4EE4] (showPinRow True (leaveChat mobile p1))
      else connect (chatName p1) p1)"

text \<open>\<open>loadRoomInfo\<close> once the answer is there.\<close>

definition room_info_arrives :: "conn_info option \<Rightarrow> page \<Rightarrow> page" where
  "room_info_arrives info p =
     (case info of
        None \<Rightarrow> p
      | Some i \<Rightarrow> if inChat p then p\<lparr>page_room := setRoomInfo i (page_room p)\<rparr> else p)"

section \<open>Messages from the hub\<close>

datatype server_msg =
    Presence "device list"
  | Welcome "device option"
  | History "chat_msg list"
  | Message chat_msg
  | Other

definition received_transfer :: "chat_msg \<Rightarrow> transfer_list \<Rightarrow> transfer_list" where
  "received_transfer msg l =
     (let pl = msg_payload msg;
          sz = meta_size_text pl
      in snd (addTransfer (meta_name_or pl (if kind pl = lit ''image'' then [0x56FE, 0x7247] else [0x6587, 0x4EF6])) Done
           [0x5DF2, 0x63A5, 0x6536] 1000
           ((if sz \<noteq> [] then sz @ (lit '' '' @ [0x00B7] @ lit '' '') else []) @ ([0x6765, 0x81EA] @ lit '' '') @ from_name msg) l))"

text \<open>\<open>ws.onmessage\<close>.\<close>

definition on_message :: "browser \<Rightarrow> bool \<Rightarrow> server_msg \<Rightarrow> page \<Rightarrow> page" where
  "on_message b mobile m p =
     (case m of
        Presence users \<Rightarrow> p\<lparr>page_room := renderDevices mobile users (page_room p)\<rparr>
      | Welcome d \<Rightarrow> p\<lparr>page_room := on_welcome d (page_room p)\<rparr>
      | History msgs \<Rightarrow> p\<lparr>page_chat := receive_history b (page_room p) msgs (page_chat p)\<rparr>
      | Message msg \<Rightarrow>
          let isSelf = own_message (page_room p) msg;
              k = kind (msg_payload msg);
              p1 = p\<lparr>page_chat := appendMessage b (page_room p) msg isSelf (page_chat p)\<rparr>
          in if \<not> isSelf \<and> (k = lit ''file'' \<or> k = lit ''image'')
             then p1\<lparr>page_transfers := received_transfer msg (page_transfers p1)\<rparr> else p1
      | Other \<Rightarrow> p)"

text \<open>The values at start.\<close>

definition initial_page :: "storage \<Rightarrow> page" where
  "initial_page st =
     \<lparr>inChat = False, chatName = None, ws = None, sockets = Map.empty, next_socket = 0,
      reconnectTimer = None, timers = Map.empty, next_timer = 0, reconnectAttempts = 0, asking = 0,
      conn = \<lparr>status_text = [], can_send = False\<rparr>, panel_open = False, pin_row = False,
      page_room = initial_room, page_chat = \<lparr>chatLog = [], dom = []\<rparr>,
      page_transfers = \<lparr>transfers = [], transferSeq = 0\<rparr>, tasks = Map.empty, next_task = 0,
      activeUploads = [], messageInput = [], outbox = [], alerts = [], page_storage = st\<rparr>"

end
