(* ===== verification/Sending.thy ===== *)
theory Sending
  imports Page
begin

text \<open>
  Sending (web/static/app.js: \<open>sendWS\<close>, \<open>sendText\<close>, \<open>createUploadCard\<close> with its \<open>update\<close>,
  \<open>waitForOpen\<close>, \<open>uploadAndSend\<close>, \<open>handleComposerPaste\<close>).  \<open>uploadAndSend\<close> is split at its
  \<open>await\<close>s: the start, the reports of \<open>uploadResumable\<close>, its end, and the polls of \<open>waitForOpen\<close>.
  What the upload itself does is the subject of the upload theories; here its end is an event.
\<close>

section \<open>Messages\<close>

text \<open>An empty list of recipients is left out, like a missing one.\<close>

definition sendWS :: "msg_payload \<Rightarrow> jstr list option \<Rightarrow> page \<Rightarrow> bool \<times> page" where
  "sendWS payload to p =
     (if \<not> isOpen p then (False, p)
      else (case ws p of
              None \<Rightarrow> (False, p)
            | Some w \<Rightarrow>
                (True, p\<lparr>outbox := outbox p @ [\<lparr>sent_on = w, sent_payload = payload,
                   sent_to = (if to = Some [] then None else to)\<rparr>]\<rparr>)))"

definition text_payload :: "jstr \<Rightarrow> msg_payload" where
  "text_payload t = \<lparr>kind = lit ''text'', pl_content = Some t, pl_fileId = None, pl_meta = None\<rparr>"

definition sendText :: "page \<Rightarrow> page" where
  "sendText p =
     (let text = trim (messageInput p) in
      if text = [] then p
      else (let (ok, q) = sendWS (text_payload text) (currentRecipients (page_room p)) p in
            if ok then q\<lparr>messageInput := []\<rparr> else q))"

section \<open>Upload cards\<close>

definition updateTransferOf :: "nat \<Rightarrow> (transfer \<Rightarrow> transfer) \<Rightarrow> page \<Rightarrow> page" where
  "updateTransferOf i f p = p\<lparr>page_transfers := updateTransfer i f (page_transfers p)\<rparr>"

text \<open>The HTML of a card.\<close>

definition uploadCardHTML :: "js_file \<Rightarrow> jstr option \<Rightarrow> jstr" where
  \<open>uploadCardHTML file targetName =
     nl 4 @ lit ''<div class="msg-body">'' @ nl 6 @
     lit ''<div class="msg-meta"><span>'' @ [0x4E0A, 0x4F20, 0x4E2D] @ lit ''</span>'' @
     (if targetName = None \<or> targetName = Some [] then []
      else lit ''<span class="msg-private-tag">'' @ iconSVG (lit ''lock'') @ ([0x79C1, 0x804A] @ lit '' '' @ [0x2192] @ lit '' '') @
        escapeHTML (text_of targetName) @ lit ''</span>'') @ lit ''</div>'' @ nl 6 @
     lit ''<div class="msg-bubble upload-card">'' @ nl 8 @ lit ''<div class="file-card">'' @
     fileRowHTML (f_name file)
       (lit ''<span class="upload-bytes">0 B / '' @ formatSize (f_size file) @ lit ''</span>'')
       (lit ''<button type="button" class="icon-btn upload-cancel" title="'' @ [0x53D6, 0x6D88, 0x4E0A, 0x4F20] @ lit ''" aria-label="'' @
        [0x53D6, 0x6D88, 0x4E0A, 0x4F20] @ lit ''">'' @ iconSVG (lit ''x'') @ lit ''</button>'') @
     lit ''</div>'' @ nl 8 @
     lit ''<div class="upload-progress"><div class="upload-progress-bar"></div></div>'' @ nl 8 @
     lit ''<div class="upload-status mono">'' @ nl 10 @
     lit ''<span class="upload-text">'' @ [0x51C6, 0x5907, 0x4E2D, 0x2026] @ lit ''</span>'' @ nl 10 @
     lit ''<span class="upload-eta"></span>'' @ nl 8 @ lit ''</div>'' @ nl 6 @ lit ''</div>'' @ nl 4 @ lit ''</div>''\<close>

text \<open>
  The percentage in tenths, and as \<open>toFixed(0)\<close> prints it; both in exact arithmetic.
\<close>

definition pct_tenths :: "nat \<Rightarrow> nat \<Rightarrow> nat" where
  "pct_tenths bytes sz = (if sz = 0 then 1000 else min 1000 (tenths (100 * bytes) sz))"

definition pct_round :: "nat \<Rightarrow> nat \<Rightarrow> nat" where
  "pct_round bytes sz = (if sz = 0 then 100 else min 100 ((200 * bytes + sz) div (2 * sz)))"

record card_view =
  card_width :: nat
  card_bytes :: jstr
  card_retrying :: bool
  card_text :: jstr
  card_eta :: jstr

text \<open>
  \<open>update(bytes, note)\<close>: what the card shows.  The measured speed is real-valued; the model takes
  its text and the remaining seconds as arguments.
\<close>

definition update_card :: "jstr \<Rightarrow> nat \<Rightarrow> nat \<Rightarrow> nat \<Rightarrow> jstr option \<Rightarrow> card_view" where
  "update_card speedText remaining sz bytes note =
     (let n = (case note of Some t \<Rightarrow> t | None \<Rightarrow> []) in
      \<lparr>card_width = pct_tenths bytes sz,
       card_bytes = formatSize bytes @ lit '' / '' @ formatSize sz,
       card_retrying = (n \<noteq> []),
       card_text = or_default n (join (lit '' '' @ [0x00B7] @ lit '' '') (filter (\<lambda>s. s \<noteq> [])
         [show_nat (pct_round bytes sz) @ [37], speedText])),
       card_eta = (if n = [] \<and> remaining > 0 then ([0x5269, 0x4F59, 0x7EA6] @ lit '' '') @ formatDuration remaining else [])\<rparr>)"

definition progress_transfer :: "jstr \<Rightarrow> nat \<Rightarrow> nat \<Rightarrow> jstr option \<Rightarrow> transfer \<Rightarrow> transfer" where
  "progress_transfer speedText sz bytes note t =
     (let n = (case note of Some t \<Rightarrow> t | None \<Rightarrow> []); pct = show_nat (pct_round bytes sz) @ [37] in
      t\<lparr>tr_state := (if n \<noteq> [] then Retry else Up),
        tr_label := (if n \<noteq> [] then ([0x91CD, 0x8BD5, 0x4E2D] @ lit '' '') @ pct else ([0x4E0A, 0x4F20, 0x4E2D] @ lit '' '') @ pct),
        tr_pct := pct_tenths bytes sz,
        tr_detail := or_default n (join (lit '' '' @ [0x00B7] @ lit '' '') (filter (\<lambda>s. s \<noteq> [])
          [formatSize bytes @ lit '' / '' @ formatSize sz, speedText]))\<rparr>)"

section \<open>The upload of a file\<close>

text \<open>Up to the call of \<open>uploadResumable\<close>: the recipients are taken here, once.\<close>

definition upload_start :: "js_file \<Rightarrow> page \<Rightarrow> page" where
  "upload_start file p =
     (if \<not> inChat p then p
      else if \<not> isOpen p
      then alert [0x672A, 0x8FDE, 0x63A5, 0x804A, 0x5929, 0x5BA4, 0xFF0C, 0x65E0, 0x6CD5, 0x53D1, 0x9001, 0x6587, 0x4EF6, 0x3002, 0x8BF7, 0x786E, 0x8BA4, 0x9876, 0x90E8, 0x663E, 0x793A, 0x300C, 0x5DF2, 0x8FDE, 0x63A5, 0x300D, 0x540E, 0x518D, 0x8BD5, 0x3002] p
      else
        let i = next_task p;
            (t, l) = addTransfer (f_name file) Up [0x51C6, 0x5907, 0x4E2D] 0 (formatSize (f_size file)) (page_transfers p)
        in p\<lparr>next_task := i + 1, page_transfers := l, page_chat := add_card i (page_chat p),
             tasks := (tasks p)(i \<mapsto> \<lparr>ut_file = file, ut_to = currentRecipients (page_room p),
               ut_targetName = map_option tg_name (sendTarget (page_room p)), ut_transfer = tr_id t,
               ut_phase = Uploading, ut_aborted = False\<rparr>),
             activeUploads := activeUploads p @ [i]\<rparr>)"

text \<open>The card's cancel button.\<close>

definition cancel_upload :: "nat \<Rightarrow> page \<Rightarrow> page" where
  "cancel_upload i p = p\<lparr>tasks := (tasks p)(i := map_option (\<lambda>t. t\<lparr>ut_aborted := True\<rparr>) (tasks p i))\<rparr>"

definition upload_progress :: "jstr \<Rightarrow> nat \<Rightarrow> nat \<Rightarrow> jstr option \<Rightarrow> page \<Rightarrow> page" where
  "upload_progress speedText i bytes note p =
     (case tasks p i of
        None \<Rightarrow> p
      | Some t \<Rightarrow> updateTransferOf (ut_transfer t) (progress_transfer speedText (f_size (ut_file t)) bytes note) p)"

definition set_phase :: "nat \<Rightarrow> task_phase \<Rightarrow> page \<Rightarrow> page" where
  "set_phase i ph p = p\<lparr>tasks := (tasks p)(i := map_option (\<lambda>t. t\<lparr>ut_phase := ph\<rparr>) (tasks p i))\<rparr>"

definition file_payload :: "file_resp \<Rightarrow> msg_payload" where
  "file_payload f =
     \<lparr>kind = (if startsWith (fr_mime f) (lit ''image/'') then lit ''image'' else lit ''file''),
      pl_content = None, pl_fileId = Some (fileId f),
      pl_meta = Some \<lparr>meta_name = fr_name f, meta_size = int (fr_size f), meta_mime = fr_mime f\<rparr>\<rparr>"

definition sent_transfer :: "upload_task \<Rightarrow> transfer \<Rightarrow> transfer" where
  "sent_transfer t x =
     x\<lparr>tr_state := Done, tr_label := [0x5DF2, 0x53D1, 0x9001], tr_pct := 1000,
       tr_detail := formatSize (f_size (ut_file t)) @
         (if ut_targetName t = None \<or> ut_targetName t = Some [] then []
          else (lit '' '' @ [0x00B7] @ lit '' '' @ [0x79C1, 0x804A] @ lit '' '') @ text_of (ut_targetName t))\<rparr>"

definition unsent_transfer :: "transfer \<Rightarrow> transfer" where
  "unsent_transfer x =
     x\<lparr>tr_state := Failed, tr_label := [0x672A, 0x53D1, 0x9001], tr_pct := 1000, tr_detail := [0x5DF2, 0x4E0A, 0x4F20, 0xFF0C, 0x4F46, 0x8FDE, 0x63A5, 0x4E2D, 0x65AD, 0x672A, 0x80FD, 0x53D1, 0x9001]\<rparr>"

definition failed_transfer :: "js_file \<Rightarrow> js_error \<Rightarrow> transfer \<Rightarrow> transfer" where
  "failed_transfer file err x =
     x\<lparr>tr_state := (if err = AbortError then Canceled else Failed),
       tr_label := (if err = AbortError then [0x5DF2, 0x53D6, 0x6D88] else [0x5931, 0x8D25]),
       tr_detail := (if err = AbortError then formatSize (f_size file) else err_message err)\<rparr>"

definition quoted :: "jstr \<Rightarrow> jstr" where
  "quoted n = [0x300C] @ n @ [0x300D]"

definition give_up_sending :: "nat \<Rightarrow> upload_task \<Rightarrow> page \<Rightarrow> page" where
  "give_up_sending i t p =
     alert (quoted (f_name (ut_file t)) @ [0x5DF2, 0x4E0A, 0x4F20, 0xFF0C, 0x4F46, 0x804A, 0x5929, 0x5BA4, 0x8FDE, 0x63A5, 0x4E2D, 0x65AD, 0xFF0C, 0x672A, 0x80FD, 0x53D1, 0x9001, 0x3002, 0x8BF7, 0x5728, 0x6062, 0x590D, 0x8FDE, 0x63A5, 0x540E, 0x91CD, 0x65B0, 0x53D1, 0x9001, 0x8BE5, 0x6587, 0x4EF6, 0x3002])
       (updateTransferOf (ut_transfer t) unsent_transfer (set_phase i Unsent_end p))"

definition try_send :: "nat \<Rightarrow> upload_task \<Rightarrow> file_resp \<Rightarrow> page \<Rightarrow> bool \<times> page" where
  "try_send i t f p =
     (let (ok, q) = sendWS (file_payload f) (ut_to t) p in
      if ok then (True, updateTransferOf (ut_transfer t) (sent_transfer t) (set_phase i Sent q)) else (False, q))"

text \<open>
  \<open>waitForOpen\<close> goes on while the socket is not open, the deadline not reached and the page in the
  chat; \<open>left\<close> is the time to the deadline in milliseconds.  Afterwards one more attempt is made.
\<close>

definition wait_or_finish :: "nat \<Rightarrow> upload_task \<Rightarrow> file_resp \<Rightarrow> nat \<Rightarrow> page \<Rightarrow> page" where
  "wait_or_finish i t f left p =
     (if \<not> isOpen p \<and> 0 < left \<and> inChat p then set_phase i (Waiting left f) p
      else (let (ok, q) = (if isOpen p then try_send i t f p else (False, p)) in
            if ok then q else give_up_sending i t q))"

text \<open>\<open>uploadResumable\<close> settles; \<open>finally\<close> removes the controller and the card.\<close>

definition upload_settles :: "nat \<Rightarrow> js_error + file_resp \<Rightarrow> page \<Rightarrow> page" where
  "upload_settles i res p =
     (case tasks p i of
        None \<Rightarrow> p
      | Some t \<Rightarrow>
          let p1 = p\<lparr>activeUploads := filter (\<lambda>x. x \<noteq> i) (activeUploads p), page_chat := remove_card i (page_chat p)\<rparr>
          in case res of
               Inl err \<Rightarrow>
                 let p2 = updateTransferOf (ut_transfer t) (failed_transfer (ut_file t) err) (set_phase i Unsent_end p1) in
                 if err = AbortError then p2
                 else alert (quoted (f_name (ut_file t)) @ [0x4E0A, 0x4F20, 0x5931, 0x8D25, 0xFF1A] @ err_message err) p2
             | Inr f \<Rightarrow>
                 (let (ok, q) = try_send i t f p1 in
                  if ok then q else wait_or_finish i t f 30000 q))"

text \<open>One poll of \<open>waitForOpen\<close>, \<open>ms\<close> after the last.\<close>

definition wait_tick :: "nat \<Rightarrow> nat \<Rightarrow> page \<Rightarrow> page" where
  "wait_tick i ms p =
     (case tasks p i of
        None \<Rightarrow> p
      | Some t \<Rightarrow> (case ut_phase t of Waiting left f \<Rightarrow> wait_or_finish i t f (left - ms) p | _ \<Rightarrow> p))"

section \<open>Pasting\<close>

text \<open>\<open>handleComposerPaste\<close>: the files it uploads.  A clipboard item is its kind, type and file.\<close>

record clip_item =
  ci_kind :: jstr
  ci_type :: jstr
  ci_file :: "js_file option"

definition image_files :: "clip_item list \<Rightarrow> js_file list" where
  "image_files its =
     concat (map (\<lambda>it. if ci_kind it \<noteq> lit ''file'' \<or> \<not> startsWith (ci_type it) (lit ''image/'') then []
        else (case ci_file it of None \<Rightarrow> [] | Some f \<Rightarrow> [f])) its)"

definition second_part :: "jstr \<Rightarrow> jstr" where
  "second_part ty = (case splitOn 47 ty of a # b # ps \<Rightarrow> b | _ \<Rightarrow> [])"

definition paste_name :: "nat \<Rightarrow> nat \<Rightarrow> js_file \<Rightarrow> js_file" where
  "paste_name now_ms i f =
     (if f_name f \<noteq> [] then f
      else f\<lparr>f_name := lit ''paste-'' @ show_nat now_ms @ [45] @ show_nat i @ [46] @
        replaceFirst (lit ''jpeg'') (lit ''jpg'') (or_default (second_part (f_type f)) (lit ''png'')),
        f_lastModified := now_ms\<rparr>)"

definition pasted_files :: "(nat \<Rightarrow> nat) \<Rightarrow> clip_item list \<Rightarrow> js_file list" where
  "pasted_files clock_ms its =
     (let fs = image_files its in map (\<lambda>i. paste_name (clock_ms i) i (fs ! i)) [0..<length fs])"

end
