(* ===== verification/Session.thy ===== *)
theory Session
  imports Sending
begin

text \<open>
  The page as a state machine: every event that can reach web/static/app.js once it is loaded (the
  user's clicks, the WebSocket's four events, timers, answers of \<open>/api/info\<close>, the reports of running
  uploads), the handler it runs, and when the browser can deliver it.  \<open>reachable\<close> is the set of
  states the page can be in; the locale \<open>page_invariant\<close> is what a property must satisfy to hold in
  all of them.
\<close>

section \<open>Events\<close>

datatype event =
    Enter jstr
  | Leave
  | BecomeVisible
  | SockOpen nat
  | SockClosing nat
  | SockClose nat nat
  | SockError nat
  | SockMsg nat server_msg
  | TimerFires nat
  | InfoArrives "conn_info option"
  | RoomInfoArrives "conn_info option"
  | ClickDevice nat
  | ClickReply jstr
  | ClickGroup
  | ClearTarget
  | TogglePanel
  | ClosePanel
  | LayoutChange
  | TypeText jstr
  | PressSend
  | PickFile js_file
  | CancelUpload nat
  | Progress jstr nat nat "jstr option"
  | Settles nat "js_error + file_resp"
  | Poll nat nat

definition on_room :: "(room \<Rightarrow> room) \<Rightarrow> page \<Rightarrow> page" where
  "on_room f p = p\<lparr>page_room := f (page_room p)\<rparr>"

text \<open>The handlers of the device list, the group entry, the panel and the layout query.\<close>

definition device_list_click :: "bool \<Rightarrow> nat \<Rightarrow> page \<Rightarrow> page" where
  "device_list_click mobile k p =
     (if k < length (list_items (page_room p)) \<and> \<not> it_self (list_items (page_room p) ! k)
      then setDevicesPanel mobile False (on_room (click_device mobile (list_items (page_room p) ! k)) p) else p)"

definition group_click :: "bool \<Rightarrow> page \<Rightarrow> page" where
  "group_click mobile p = setDevicesPanel mobile False (on_room (setSendTarget mobile None) p)"

definition clear_target_click :: "bool \<Rightarrow> page \<Rightarrow> page" where
  "clear_target_click mobile p = on_room (setSendTarget mobile None) p"

definition toggle_panel :: "bool \<Rightarrow> page \<Rightarrow> page" where
  "toggle_panel mobile p = setDevicesPanel mobile (\<not> panel_open p) p"

definition layout_change :: "bool \<Rightarrow> page \<Rightarrow> page" where
  "layout_change mobile p =
     (let q = setDevicesPanel mobile False p in if inChat q then on_room (renderTargetBar mobile) q else q)"

lemmas click_handlers [simp] = device_list_click_def group_click_def clear_target_click_def toggle_panel_def layout_change_def

text \<open>
  \<open>b\<close> is what rendering takes from the browser, \<open>mobile\<close> the layout at the time of the event.  A
  click on the device list closes the panel; so does one on the group entry.
\<close>

fun handle_event :: "browser \<Rightarrow> bool \<Rightarrow> event \<Rightarrow> page \<Rightarrow> page" where
  "handle_event b mobile (Enter name) p = enterChat mobile name p"
| "handle_event b mobile Leave p = leaveChat mobile p"
| "handle_event b mobile BecomeVisible p = reconnectIfStale p"
| "handle_event b mobile (SockOpen w) p = on_open w p"
| "handle_event b mobile (SockClosing w) p = set_ready w Closing p"
| "handle_event b mobile (SockClose w jitter) p = on_close jitter w p"
| "handle_event b mobile (SockError w) p = on_error w p"
| "handle_event b mobile (SockMsg w m) p = on_message b mobile m p"
| "handle_event b mobile (TimerFires t) p = timer_fires t p"
| "handle_event b mobile (InfoArrives info) p = info_arrives mobile info p"
| "handle_event b mobile (RoomInfoArrives info) p = room_info_arrives info p"
| "handle_event b mobile (ClickDevice k) p = device_list_click mobile k p"
| "handle_event b mobile (ClickReply attrs) p = on_room (click_reply mobile attrs) p"
| "handle_event b mobile ClickGroup p = group_click mobile p"
| "handle_event b mobile ClearTarget p = clear_target_click mobile p"
| "handle_event b mobile TogglePanel p = toggle_panel mobile p"
| "handle_event b mobile ClosePanel p = setDevicesPanel mobile False p"
| "handle_event b mobile LayoutChange p = layout_change mobile p"
| "handle_event b mobile (TypeText t) p = p\<lparr>messageInput := t\<rparr>"
| "handle_event b mobile PressSend p = sendText p"
| "handle_event b mobile (PickFile f) p = upload_start f p"
| "handle_event b mobile (CancelUpload i) p = cancel_upload i p"
| "handle_event b mobile (Progress sp i n note) p = upload_progress sp i n note p"
| "handle_event b mobile (Settles i res) p = upload_settles i res p"
| "handle_event b mobile (Poll i ms) p = wait_tick i ms p"

definition sock_in :: "page \<Rightarrow> nat \<Rightarrow> ready_state set \<Rightarrow> bool" where
  "sock_in p w S = (case sockets p w of None \<Rightarrow> False | Some s \<Rightarrow> readyState s \<in> S)"

definition phase_is :: "page \<Rightarrow> nat \<Rightarrow> (task_phase \<Rightarrow> bool) \<Rightarrow> bool" where
  "phase_is p i P = (case tasks p i of None \<Rightarrow> False | Some t \<Rightarrow> P (ut_phase t))"

text \<open>
  When an event can occur.  The join button and the automatic entry never pass an empty name
  (\<open>defaultDeviceName\<close>, \<open>savedName &&\<close>); the jitter of the back-off is below 500; the polls of
  \<open>waitForOpen\<close> are at least 500 ms apart.
\<close>

fun enabled :: "event \<Rightarrow> page \<Rightarrow> bool" where
  "enabled (Enter name) p = (name \<noteq> [])"
| "enabled (SockOpen w) p = sock_in p w {Connecting}"
| "enabled (SockClosing w) p = sock_in p w {Connecting, Open}"
| "enabled (SockClose w jitter) p = (sock_in p w {Connecting, Open, Closing} \<and> jitter < 500)"
| "enabled (SockError w) p = sock_in p w {Connecting, Open, Closing}"
| "enabled (SockMsg w m) p = sock_in p w {Open}"
| "enabled (TimerFires t) p = (timers p t \<noteq> None)"
| "enabled (InfoArrives info) p = (0 < asking p)"
| "enabled (Progress sp i n note) p = phase_is p i (\<lambda>ph. ph = Uploading)"
| "enabled (Settles i res) p = phase_is p i (\<lambda>ph. ph = Uploading)"
| "enabled (Poll i ms) p = (phase_is p i (\<lambda>ph. case ph of Waiting left f \<Rightarrow> True | _ \<Rightarrow> False) \<and> 500 \<le> ms)"
| "enabled _ p = True"

inductive steps :: "page \<Rightarrow> page \<Rightarrow> bool" where
  refl: "steps p p"
| step: "steps p q \<Longrightarrow> enabled e q \<Longrightarrow> steps p (handle_event b mobile e q)"

inductive_cases steps_cases: "steps p q"

definition reachable :: "page \<Rightarrow> bool" where
  "reachable p \<longleftrightarrow> (\<exists>st. steps (initial_page st) p)"

lemma reachable_initial: "reachable (initial_page st)"
  unfolding reachable_def using steps.refl by blast

lemma reachable_step: "reachable p \<Longrightarrow> enabled e p \<Longrightarrow> reachable (handle_event b mobile e p)"
  unfolding reachable_def using steps.step by blast

text \<open>What a property of states must promise to hold in every reachable state.\<close>

locale page_invariant =
  fixes I :: "page \<Rightarrow> bool"
  assumes at_start: "I (initial_page st)"
    and each_event: "I p \<Longrightarrow> enabled e p \<Longrightarrow> I (handle_event b mobile e p)"
begin

lemma along: "steps p q \<Longrightarrow> I p \<Longrightarrow> I q"
  by (induction rule: steps.induct) (simp_all add: each_event)

lemma always: "reachable p \<Longrightarrow> I p"
  unfolding reachable_def using along at_start by blast

end

section \<open>The connection\<close>

text \<open>
  A socket other than the current one is closing or closed, and while it closes its \<open>onclose\<close> is no
  longer installed; the current one is not closed, and its \<open>onclose\<close> is installed.  In the chat the
  page has a name, and a socket, an armed timer or a question to the hub that will lead to one.
\<close>

definition socket_ok :: "nat option \<Rightarrow> nat \<Rightarrow> socket \<Rightarrow> bool" where
  "socket_ok cur w s \<longleftrightarrow>
     (if cur = Some w then onclose_set s \<and> readyState s \<noteq> Closed
      else readyState s = Closed \<or> readyState s = Closing \<and> \<not> onclose_set s)"

definition sockets_ok :: "nat option \<Rightarrow> (nat \<Rightarrow> socket option) \<Rightarrow> nat \<Rightarrow> bool" where
  "sockets_ok cur so n \<longleftrightarrow>
     (\<forall>w s. so w = Some s \<longrightarrow> w < n \<and> socket_ok cur w s) \<and> (\<forall>w. cur = Some w \<longrightarrow> so w \<noteq> None)"

definition timers_ok :: "(nat \<Rightarrow> nat option) \<Rightarrow> nat \<Rightarrow> bool" where
  "timers_ok tm n \<longleftrightarrow> (\<forall>t d. tm t = Some d \<longrightarrow> t < n \<and> 1000 \<le> d \<and> d < 15500)"

definition conn_base :: "page \<Rightarrow> bool" where
  "conn_base p \<longleftrightarrow>
     sockets_ok (ws p) (sockets p) (next_socket p) \<and> timers_ok (timers p) (next_timer p) \<and>
     (inChat p \<longrightarrow> chatName p \<noteq> None \<and> chatName p \<noteq> Some [])"

definition on_the_way :: "page \<Rightarrow> bool" where
  "on_the_way p \<longleftrightarrow> ws p \<noteq> None \<or> (\<exists>t. timers p t \<noteq> None) \<or> 0 < asking p"

definition conn_ok :: "page \<Rightarrow> bool" where
  "conn_ok p \<longleftrightarrow> conn_base p \<and> (inChat p \<longrightarrow> on_the_way p)"

text \<open>The fields this depends on.\<close>

definition conn_view where
  "conn_view p = (inChat p, chatName p, ws p, sockets p, next_socket p, timers p, next_timer p, asking p)"

lemma conn_ok_view: "conn_view p = conn_view q \<Longrightarrow> conn_ok p = conn_ok q"
  by (simp add: conn_view_def conn_ok_def conn_base_def on_the_way_def)

lemma conn_view_frames [simp]:
  "conn_view (p\<lparr>page_room := r\<rparr>) = conn_view p" "conn_view (p\<lparr>page_chat := c\<rparr>) = conn_view p"
  "conn_view (p\<lparr>page_transfers := l\<rparr>) = conn_view p" "conn_view (p\<lparr>messageInput := x\<rparr>) = conn_view p"
  "conn_view (p\<lparr>panel_open := x1\<rparr>) = conn_view p" "conn_view (p\<lparr>pin_row := x1\<rparr>) = conn_view p"
  "conn_view (p\<lparr>alerts := x2\<rparr>) = conn_view p" "conn_view (p\<lparr>tasks := x3\<rparr>) = conn_view p"
  "conn_view (p\<lparr>next_task := x4\<rparr>) = conn_view p" "conn_view (p\<lparr>activeUploads := x5\<rparr>) = conn_view p"
  "conn_view (p\<lparr>outbox := x6\<rparr>) = conn_view p" "conn_view (p\<lparr>conn := x7\<rparr>) = conn_view p"
  "conn_view (p\<lparr>page_storage := x8\<rparr>) = conn_view p" "conn_view (p\<lparr>reconnectAttempts := x9\<rparr>) = conn_view p"
  by (simp_all add: conn_view_def)

lemma conn_view_ops [simp]:
  "conn_view (on_room f p) = conn_view p" "conn_view (setDevicesPanel mobile op p) = conn_view p"
  "conn_view (setConnected on p) = conn_view p" "conn_view (on_error w p) = conn_view p"
  "conn_view (alert m p) = conn_view p" "conn_view (showPinRow x p) = conn_view p"
  "conn_view (room_info_arrives info p) = conn_view p" "conn_view (on_message b mobile sm p) = conn_view p"
  "conn_view (updateTransferOf i g p) = conn_view p" "conn_view (set_phase i ph p) = conn_view p"
  "conn_view (cancel_upload i p) = conn_view p" "conn_view (snd (sendWS pl to p)) = conn_view p"
  by (simp_all add: on_room_def setDevicesPanel_def setConnected_def on_error_def alert_def showPinRow_def
      room_info_arrives_def on_message_def updateTransferOf_def set_phase_def cancel_upload_def sendWS_def Let_def
      split: option.split server_msg.split)

lemma conn_view_sendText [simp]: "conn_view (sendText p) = conn_view p"
  using conn_view_ops(12) [of "text_payload (trim (messageInput p))" "currentRecipients (page_room p)" p]
  by (auto simp: sendText_def Let_def split_beta)

lemma conn_view_try_send [simp]: "conn_view (snd (try_send i t f p)) = conn_view p"
  using conn_view_ops(12) [of "file_payload f" "ut_to t" p] by (auto simp: try_send_def Let_def split_beta)

lemma conn_view_uploads [simp]:
  "conn_view (upload_start file p) = conn_view p" "conn_view (upload_progress sp i n note p) = conn_view p"
  "conn_view (give_up_sending i t p) = conn_view p" "conn_view (wait_or_finish i t f left p) = conn_view p"
  "conn_view (wait_tick i ms p) = conn_view p" "conn_view (upload_settles i res p) = conn_view p"
proof -
  show give: "conn_view (give_up_sending i t p) = conn_view p" for t p
    by (simp add: give_up_sending_def)
  show wait: "conn_view (wait_or_finish i t f left p) = conn_view p" for t f left p
    by (simp add: wait_or_finish_def split_beta Let_def give)
  show "conn_view (upload_start file p) = conn_view p"
    by (simp add: upload_start_def split_beta Let_def)
  show "conn_view (upload_progress sp i n note p) = conn_view p"
    by (simp add: upload_progress_def split: option.split)
  show "conn_view (wait_tick i ms p) = conn_view p"
    by (simp add: wait_tick_def wait split: option.split task_phase.split)
  show "conn_view (upload_settles i res p) = conn_view p"
    by (simp add: upload_settles_def Let_def split_beta wait split: option.split sum.split)
qed

text \<open>The operations that do change the connection.\<close>

lemma socket_less: "sockets_ok cur so n \<Longrightarrow> so w = Some s \<Longrightarrow> w < n \<and> socket_ok cur w s"
  by (simp add: sockets_ok_def)

lemma sockets_drop:
  assumes "sockets_ok (Some w) so n"
  shows "sockets_ok None (so(w := map_option (\<lambda>s. s\<lparr>onclose_set := False,
     readyState := (if readyState s = Closed then Closed else Closing)\<rparr>) (so w))) n"
  unfolding sockets_ok_def
proof (intro conjI allI impI)
  fix v s
  assume v: "(so(w := map_option (\<lambda>s. s\<lparr>onclose_set := False,
     readyState := (if readyState s = Closed then Closed else Closing)\<rparr>) (so w))) v = Some s"
  then obtain s0 where s0: "so v = Some s0" by (auto split: if_splits)
  from socket_less [OF assms this] show "v < n" by simp
  from socket_less [OF assms s0] v show "socket_ok None v s"
    by (cases "v = w") (auto simp: socket_ok_def s0)
qed simp

lemma sockets_new:
  assumes "sockets_ok None so n"
  shows "sockets_ok (Some n) (so(n \<mapsto> \<lparr>readyState = Connecting, onclose_set = True, url_name = x\<rparr>)) (n + 1)"
  unfolding sockets_ok_def
proof (rule conjI; intro allI impI)
  fix v s
  assume v: "(so(n \<mapsto> \<lparr>readyState = Connecting, onclose_set = True, url_name = x\<rparr>)) v = Some s"
  show "v < n + 1 \<and> socket_ok (Some n) v s"
  proof (cases "v = n")
    case False
    with v socket_less [OF assms, of v s] show ?thesis by (simp add: socket_ok_def)
  qed (use v in \<open>auto simp: socket_ok_def\<close>)
qed simp

lemma sockets_ready:
  assumes "sockets_ok cur so n" and "so w = Some s" and "socket_ok cur' w (s\<lparr>readyState := st\<rparr>)"
    and "\<And>v s. v \<noteq> w \<Longrightarrow> socket_ok cur v s \<Longrightarrow> socket_ok cur' v s" and "cur' = cur \<or> cur' = None"
  shows "sockets_ok cur' (so(w := map_option (\<lambda>s. s\<lparr>readyState := st\<rparr>) (so w))) n"
  unfolding sockets_ok_def
proof (intro conjI allI impI)
  fix v s'
  assume v: "(so(w := map_option (\<lambda>s. s\<lparr>readyState := st\<rparr>) (so w))) v = Some s'"
  show "v < n"
  proof (cases "v = w")
    case False
    with v socket_less [OF assms(1), of v s'] show ?thesis by simp
  qed (use socket_less [OF assms(1,2)] in simp)
  show "socket_ok cur' v s'"
  proof (cases "v = w")
    case False
    with v socket_less [OF assms(1), of v s'] assms(4) show ?thesis by simp
  qed (use v assms(2,3) in auto)
next
  fix v
  assume "cur' = Some v"
  with assms(1,5) show "(so(w := map_option (\<lambda>s. s\<lparr>readyState := st\<rparr>) (so w))) v \<noteq> None"
    by (auto simp: sockets_ok_def)
qed

lemma timers_clear: "timers_ok tm n \<Longrightarrow> timers_ok (tm(t := None)) n"
  by (simp add: timers_ok_def)

lemma timers_arm: "timers_ok tm n \<Longrightarrow> 1000 \<le> d \<Longrightarrow> d < 15500 \<Longrightarrow> timers_ok (tm(n \<mapsto> d)) (n + 1)"
  by (auto simp: timers_ok_def less_Suc_eq)

lemma drop_socket_frame [simp]:
  "inChat (drop_socket p) = inChat p" "chatName (drop_socket p) = chatName p" "timers (drop_socket p) = timers p"
  "next_timer (drop_socket p) = next_timer p" "asking (drop_socket p) = asking p"
  "next_socket (drop_socket p) = next_socket p" "activeUploads (drop_socket p) = activeUploads p"
  "reconnectTimer (drop_socket p) = reconnectTimer p" "ws (drop_socket p) = None"
  by (simp_all add: drop_socket_def split: option.split)

lemma drop_socket_base: "conn_base p \<Longrightarrow> conn_base (drop_socket p)"
  by (cases "ws p") (simp_all add: conn_base_def drop_socket_def sockets_drop)

lemma clear_timer_base: "conn_base p \<Longrightarrow> conn_base (clear_timer p)"
  by (cases "reconnectTimer p") (simp_all add: conn_base_def clear_timer_def timers_clear)

lemma clear_timer_frame [simp]:
  "inChat (clear_timer p) = inChat p" "chatName (clear_timer p) = chatName p" "sockets (clear_timer p) = sockets p"
  "asking (clear_timer p) = asking p" "ws (clear_timer p) = ws p"
  by (simp_all add: clear_timer_def split: option.split)

lemma conn_base_view: "conn_view p = conn_view q \<Longrightarrow> conn_base p = conn_base q"
  by (simp add: conn_view_def conn_base_def)

lemma connect_ok:
  assumes "conn_base p"
  shows "conn_ok (connect name p)"
  using drop_socket_base [OF assms]
  by (simp add: conn_ok_def conn_base_def on_the_way_def connect_def Let_def sockets_new [simplified])

lemma conn_ok_base: "conn_ok p \<Longrightarrow> conn_base p"
  by (simp add: conn_ok_def)

lemma sock_inE: "sock_in p w S \<Longrightarrow> (\<And>s. sockets p w = Some s \<Longrightarrow> readyState s \<in> S \<Longrightarrow> thesis) \<Longrightarrow> thesis"
  by (auto simp: sock_in_def split: option.splits)

lemma on_open_ok:
  assumes "conn_ok p" and "sock_in p w {Connecting}"
  shows "conn_ok (on_open w p)"
proof -
  from assms(2) obtain s where s: "sockets p w = Some s" "readyState s = Connecting" by (auto elim: sock_inE)
  have so: "sockets_ok (ws p) (sockets p) (next_socket p)" using assms(1) by (simp add: conn_ok_def conn_base_def)
  from socket_less [OF so s(1)] s(2) have cur: "ws p = Some w" "onclose_set s"
    by (auto simp: socket_ok_def split: if_splits)
  let ?q = "(setConnected True (set_ready w Open p))\<lparr>reconnectAttempts := 0\<rparr>"
  have "sockets_ok (ws p) ((sockets p)(w := map_option (\<lambda>s. s\<lparr>readyState := Open\<rparr>) (sockets p w))) (next_socket p)"
    using so s cur by (intro sockets_ready) (simp_all add: socket_ok_def)
  with assms(1) have "conn_base ?q"
    by (simp add: conn_ok_def conn_base_def set_ready_def setConnected_def)
  with cur show ?thesis
    using clear_timer_base [of ?q]
    by (simp add: conn_ok_def on_open_def on_the_way_def set_ready_def setConnected_def)
qed

lemma closing_ok:
  assumes "conn_ok p" and "sock_in p w {Connecting, Open}"
  shows "conn_ok (set_ready w Closing p)"
proof -
  from assms(2) obtain s where s: "sockets p w = Some s" "readyState s \<in> {Connecting, Open}" by (auto elim: sock_inE)
  have so: "sockets_ok (ws p) (sockets p) (next_socket p)" using assms(1) by (simp add: conn_ok_def conn_base_def)
  from socket_less [OF so s(1)] s(2) have cur: "ws p = Some w" "onclose_set s"
    by (auto simp: socket_ok_def split: if_splits)
  have "sockets_ok (ws p) ((sockets p)(w := map_option (\<lambda>s. s\<lparr>readyState := Closing\<rparr>) (sockets p w))) (next_socket p)"
    using so s cur by (intro sockets_ready) (simp_all add: socket_ok_def)
  with assms(1) show ?thesis
    by (simp add: conn_ok_def conn_base_def set_ready_def on_the_way_def)
qed

lemma backoff_range: "1000 \<le> backoff n" "backoff n \<le> 15000"
proof -
  have "(1::nat) \<le> 2 ^ n" by simp
  then show "1000 \<le> backoff n" "backoff n \<le> 15000" unfolding backoff_def by linarith+
qed

lemma on_close_ok:
  assumes "conn_ok p" and "sock_in p w {Connecting, Open, Closing}" and "jitter < 500"
  shows "conn_ok (on_close jitter w p)"
proof -
  from assms(2) obtain s where s: "sockets p w = Some s" "readyState s \<noteq> Closed" by (auto elim: sock_inE)
  have so: "sockets_ok (ws p) (sockets p) (next_socket p)" and tm: "timers_ok (timers p) (next_timer p)"
    using assms(1) by (simp_all add: conn_ok_def conn_base_def)
  let ?so = "(sockets p)(w := map_option (\<lambda>s. s\<lparr>readyState := Closed\<rparr>) (sockets p w))"
  show ?thesis
  proof (cases "ws p = Some w")
    case True
    then have on: "onclose_set s" using socket_less [OF so s(1)] by (simp add: socket_ok_def)
    have so': "sockets_ok None ?so (next_socket p)"
      using so s True by (intro sockets_ready [where cur = "ws p"]) (auto simp: socket_ok_def split: if_splits)
    have "timers_ok ((timers p)(next_timer p \<mapsto> backoff (reconnectAttempts p) + jitter)) (next_timer p + 1)"
      using tm assms(3) backoff_range [of "reconnectAttempts p"] by (intro timers_arm) linarith+
    with so' tm on s(1) assms(1) show ?thesis
      by (cases "inChat p")
        (auto simp: conn_ok_def conn_base_def on_the_way_def on_close_def set_ready_def setConnected_def
          chatting_def arm_timer_def Let_def)
  next
    case False
    then have off: "\<not> onclose_set s" using socket_less [OF so s(1)] s(2) by (simp add: socket_ok_def)
    have "sockets_ok (ws p) ?so (next_socket p)"
      using so s False by (intro sockets_ready [where cur = "ws p"]) (simp_all add: socket_ok_def)
    with off s(1) assms(1) show ?thesis
      by (simp add: conn_ok_def conn_base_def on_the_way_def on_close_def set_ready_def Let_def)
  qed
qed

lemma reconnectIfStale_ok: "conn_ok p \<Longrightarrow> conn_ok (reconnectIfStale p)"
  using clear_timer_base [of p]
  by (simp add: reconnectIfStale_def Let_def connect_ok conn_ok_base conn_base_view [of "(clear_timer p)\<lparr>reconnectAttempts := 0\<rparr>" "clear_timer p"])

lemma enterChat_ok:
  assumes "conn_ok p" and "name \<noteq> []"
  shows "conn_ok (enterChat mobile name p)"
  unfolding enterChat_def Let_def
proof (rule connect_ok)
  show "conn_base (setDevicesPanel mobile False (setConnected False
      (p\<lparr>chatName := Some name, page_storage := storageSet STORAGE_KEY name (page_storage p),
         inChat := True, page_room := renderTargetBar mobile (page_room p)\<rparr>)))"
    using assms by (simp add: conn_ok_def conn_base_def setDevicesPanel_def setConnected_def)
qed

lemma leaveChat_frame [simp]:
  "inChat (leaveChat mobile p) = False" "chatName (leaveChat mobile p) = None" "ws (leaveChat mobile p) = None"
  "asking (leaveChat mobile p) = asking p"
  by (simp_all add: leaveChat_def setDevicesPanel_def Let_def)

lemma leaveChat_ok: "conn_base p \<Longrightarrow> conn_ok (leaveChat mobile p)"
  using drop_socket_base [OF clear_timer_base]
  by (simp add: conn_ok_def conn_base_def leaveChat_def setDevicesPanel_def Let_def)

lemma timer_fires_ok: "conn_ok p \<Longrightarrow> conn_ok (timer_fires t p)"
  by (auto simp: conn_ok_def conn_base_def timer_fires_def chatting_def on_the_way_def timers_clear Let_def)

lemma info_arrives_ok:
  assumes "conn_ok p"
  shows "conn_ok (info_arrives mobile info p)"
proof -
  have base: "conn_base (p\<lparr>asking := asking p - 1\<rparr>)" using assms by (simp add: conn_ok_def conn_base_def)
  have shown: "conn_ok (alert m (showPinRow x q)) = conn_ok q" for m x q
    by (rule conn_ok_view) simp
  from base show ?thesis by (simp add: info_arrives_def Let_def shown leaveChat_ok connect_ok)
qed

interpretation connection: page_invariant conn_ok
proof
  show "conn_ok (initial_page st)" for st
    by (simp add: initial_page_def conn_ok_def conn_base_def sockets_ok_def timers_ok_def)
  show "conn_ok (handle_event b mobile e p)" if "conn_ok p" "enabled e p" for p e b mobile
  proof (cases "conn_view (handle_event b mobile e p) = conn_view p")
    case True
    with that(1) show ?thesis using conn_ok_view by blast
  next
    case False
    with that show ?thesis
      by (cases e)
        (simp_all add: enterChat_ok leaveChat_ok conn_ok_base reconnectIfStale_ok on_open_ok closing_ok on_close_ok
          timer_fires_ok info_arrives_ok Let_def split: if_splits)
  qed
qed

end
