(* ===== verification/Page_Content.thy ===== *)
theory Page_Content
  imports Session
begin

text \<open>
  What the page shows stays consistent with what it does: the invariant of the chat area, the
  transfer list and the uploads (every running transfer and every card belongs to an upload that
  is still going on), and the invariant of the target bar.
\<close>

section \<open>Uploads, transfers and cards\<close>

definition busy :: "task_phase \<Rightarrow> bool" where
  "busy ph \<longleftrightarrow> ph = Uploading \<or> (\<exists>left f. ph = Waiting left f)"

definition owners_ok :: "(nat \<Rightarrow> upload_task option) \<Rightarrow> transfer list \<Rightarrow> bool" where
  "owners_ok ts l \<longleftrightarrow>
     (\<forall>x \<in> set l. running x \<longrightarrow> (\<exists>i t. ts i = Some t \<and> ut_transfer t = tr_id x \<and> busy (ut_phase t)))"

definition cards_ok :: "(nat \<Rightarrow> upload_task option) \<Rightarrow> dom_entry list \<Rightarrow> bool" where
  "cards_ok ts es \<longleftrightarrow> (\<forall>i. CardEl i \<in> set es \<longrightarrow> (\<exists>t. ts i = Some t \<and> ut_phase t = Uploading))"

definition content_ok :: "page \<Rightarrow> bool" where
  "content_ok p \<longleftrightarrow>
     chat_ok (page_chat p) \<and> transfers_ok (page_transfers p) \<and>
     owners_ok (tasks p) (transfers (page_transfers p)) \<and> cards_ok (tasks p) (dom (page_chat p)) \<and>
     (\<forall>i t. tasks p i = Some t \<longrightarrow> i < next_task p)"

definition content_view where
  "content_view p = (page_chat p, page_transfers p, tasks p, next_task p)"

lemma content_ok_view: "content_view p = content_view q \<Longrightarrow> content_ok p = content_ok q"
  by (simp add: content_view_def content_ok_def)

lemma content_view_ops [simp]:
  "content_view (on_room f p) = content_view p" "content_view (setDevicesPanel mobile op p) = content_view p"
  "content_view (setConnected on p) = content_view p" "content_view (on_error w p) = content_view p"
  "content_view (alert m p) = content_view p" "content_view (showPinRow x p) = content_view p"
  "content_view (room_info_arrives info p) = content_view p" "content_view (set_ready w st p) = content_view p"
  "content_view (snd (sendWS pl to p)) = content_view p" "content_view (drop_socket p) = content_view p"
  "content_view (clear_timer p) = content_view p" "content_view (timer_fires t p) = content_view p"
  by (simp_all add: content_view_def on_room_def setDevicesPanel_def setConnected_def on_error_def alert_def
      showPinRow_def room_info_arrives_def sendWS_def set_ready_def drop_socket_def clear_timer_def timer_fires_def
      Let_def split: option.split)

lemma content_view_fields [simp]:
  "content_view (p\<lparr>sockets := a\<rparr>) = content_view p" "content_view (p\<lparr>next_socket := n\<rparr>) = content_view p"
  "content_view (p\<lparr>ws := x1\<rparr>) = content_view p" "content_view (p\<lparr>reconnectAttempts := n\<rparr>) = content_view p"
  "content_view (p\<lparr>timers := tm\<rparr>) = content_view p" "content_view (p\<lparr>reconnectTimer := x1\<rparr>) = content_view p"
  "content_view (p\<lparr>next_timer := n\<rparr>) = content_view p" "content_view (p\<lparr>asking := n\<rparr>) = content_view p"
  "content_view (p\<lparr>chatName := nm\<rparr>) = content_view p" "content_view (p\<lparr>page_storage := st\<rparr>) = content_view p"
  "content_view (p\<lparr>inChat := c\<rparr>) = content_view p" "content_view (p\<lparr>page_room := r\<rparr>) = content_view p"
  "content_view (p\<lparr>messageInput := inp\<rparr>) = content_view p" "content_view (p\<lparr>activeUploads := au\<rparr>) = content_view p"
  by (simp_all add: content_view_def)

lemma content_view_connect [simp]:
  "content_view (connect name p) = content_view p" "content_view (on_open w p) = content_view p"
  "content_view (on_close jitter w p) = content_view p" "content_view (reconnectIfStale p) = content_view p"
  "content_view (enterChat mobile nm p) = content_view p" "content_view (sendText p) = content_view p"
proof -
  show con: "content_view (connect name p) = content_view p" for name p
    by (simp add: connect_def Let_def)
  show "content_view (on_open w p) = content_view p" by (simp add: on_open_def)
  show "content_view (on_close jitter w p) = content_view p"
    by (simp add: on_close_def arm_timer_def Let_def split: option.split)
  show "content_view (reconnectIfStale p) = content_view p" by (simp add: reconnectIfStale_def Let_def con)
  show "content_view (enterChat mobile nm p) = content_view p" by (simp add: enterChat_def Let_def con)
  show "content_view (sendText p) = content_view p"
    using content_view_ops(9) [of "text_payload (trim (messageInput p))" "currentRecipients (page_room p)" p]
    by (simp add: sendText_def Let_def split_beta)
qed

lemma content_ok_same: "content_ok p \<Longrightarrow> content_view q = content_view p \<Longrightarrow> content_ok q"
  using content_ok_view by blast

text \<open>Steps on the four fields.\<close>

lemma owners_mono:
  assumes "owners_ok ts l" and "\<And>x. x \<in> set l' \<Longrightarrow> running x \<Longrightarrow> x \<in> set l"
    and "\<And>i t. ts i = Some t \<Longrightarrow> busy (ut_phase t) \<Longrightarrow>
      \<exists>t'. ts' i = Some t' \<and> ut_transfer t' = ut_transfer t \<and> busy (ut_phase t')"
  shows "owners_ok ts' l'"
  unfolding owners_ok_def
proof (intro ballI impI)
  fix x assume "x \<in> set l'" "running x"
  with assms(1,2) obtain i t where t: "ts i = Some t" "ut_transfer t = tr_id x" "busy (ut_phase t)"
    by (fastforce simp: owners_ok_def)
  from assms(3) [OF t(1,3)] t(2)
  show "\<exists>i t. ts' i = Some t \<and> ut_transfer t = tr_id x \<and> busy (ut_phase t)" by metis
qed

lemma addTransfer_set:
  "addTransfer name st label pct detail l = (t, l') \<Longrightarrow> set (transfers l') \<subseteq> insert t (set (transfers l))"
  by (auto simp: addTransfer_def Let_def dest!: subsetD [OF trim_list_set])

lemma leaveChat_content:
  assumes "content_ok p"
  shows "content_ok (leaveChat mobile p)"
proof -
  have "content_view (drop_socket (clear_timer p)) = content_view p" by simp
  then have same: "tasks (drop_socket (clear_timer p)) = tasks p" "next_task (drop_socket (clear_timer p)) = next_task p"
    by (simp_all add: content_view_def)
  have "abort_tasks is ts i = Some t \<Longrightarrow> \<exists>t. ts i = Some t" for "is" ts i t
    by (auto simp: abort_tasks_def split: if_splits)
  with assms have "\<forall>i t. abort_tasks is (tasks p) i = Some t \<longrightarrow> i < next_task p" for "is"
    by (fastforce simp: content_ok_def)
  then show ?thesis
    by (simp add: content_ok_def leaveChat_def setDevicesPanel_def Let_def same owners_ok_def cards_ok_def
        clear_chat_def clearTransfers_def chat_ok_def transfers_ok_def)
qed

lemma content_fields:
  assumes "content_view q = content_view p"
  shows "tasks q = tasks p" and "page_chat q = page_chat p" and "page_transfers q = page_transfers p"
    and "next_task q = next_task p"
  using assms by (simp_all add: content_view_def)

lemma owners_update:
  assumes "owners_ok ts l" and "\<And>x. tr_id (g x) = tr_id x"
    and "\<And>x. running (g x) \<Longrightarrow> \<exists>i t. ts' i = Some t \<and> ut_transfer t = k \<and> busy (ut_phase t)"
    and "\<And>i t. ts i = Some t \<Longrightarrow> busy (ut_phase t) \<Longrightarrow> ut_transfer t \<noteq> k \<Longrightarrow>
      \<exists>t'. ts' i = Some t' \<and> ut_transfer t' = ut_transfer t \<and> busy (ut_phase t')"
  shows "owners_ok ts' (map (\<lambda>x. if tr_id x = k then g x else x) l)"
  unfolding owners_ok_def
proof (intro ballI impI)
  fix y assume "y \<in> set (map (\<lambda>x. if tr_id x = k then g x else x) l)" and run: "running y"
  then obtain x where x: "x \<in> set l" "y = (if tr_id x = k then g x else x)" by auto
  show "\<exists>i t. ts' i = Some t \<and> ut_transfer t = tr_id y \<and> busy (ut_phase t)"
  proof (cases "tr_id x = k")
    case True
    with x run assms(2,3) show ?thesis by simp
  next
    case False
    with x run assms(1) obtain i t where "ts i = Some t" "ut_transfer t = tr_id x" "busy (ut_phase t)"
      by (fastforce simp: owners_ok_def)
    with assms(4) [of i t] False x show ?thesis by auto
  qed
qed

lemma updateTransfer_ok:
  "transfers_ok l \<Longrightarrow> (\<And>x. tr_id (g x) = tr_id x) \<Longrightarrow> transfers_ok (updateTransfer k g l)"
  by (rule transfers_ok_update)

text \<open>An upload that ends takes its transfer with it.\<close>

lemma finish_content:
  assumes ok: "content_ok p" and t: "tasks p i = Some t" and "CardEl i \<notin> set (dom (page_chat p))"
    and g: "\<And>x. tr_id (g x) = tr_id x" "\<And>x. \<not> running (g x)"
  shows "content_ok (updateTransferOf (ut_transfer t) g (set_phase i ph p))"
proof -
  let ?ts = "(tasks p)(i := map_option (\<lambda>t. t\<lparr>ut_phase := ph\<rparr>) (tasks p i))"
  have "owners_ok ?ts (map (\<lambda>x. if tr_id x = ut_transfer t then g x else x) (transfers (page_transfers p)))"
    using ok g t by (intro owners_update [where ts = "tasks p"]) (auto simp: content_ok_def)
  moreover have "cards_ok ?ts (dom (page_chat p))"
    using ok assms(3) unfolding content_ok_def cards_ok_def by (metis fun_upd_other)
  moreover have "\<forall>j u. ?ts j = Some u \<longrightarrow> j < next_task p"
    using ok t by (auto simp: content_ok_def)
  moreover have "transfers_ok (updateTransfer (ut_transfer t) g (page_transfers p))"
    using ok g(1) by (intro updateTransfer_ok) (simp_all add: content_ok_def)
  ultimately show ?thesis
    using ok by (simp add: content_ok_def updateTransferOf_def set_phase_def updateTransfer_def)
qed

lemma waiting_content:
  assumes ok: "content_ok p" and t: "tasks p i = Some t" and "CardEl i \<notin> set (dom (page_chat p))"
  shows "content_ok (set_phase i (Waiting n f) p)"
proof -
  let ?ts = "(tasks p)(i := map_option (\<lambda>t. t\<lparr>ut_phase := Waiting n f\<rparr>) (tasks p i))"
  have "owners_ok (tasks p) (transfers (page_transfers p))" using ok by (simp add: content_ok_def)
  then have "owners_ok ?ts (transfers (page_transfers p))"
  proof (rule owners_mono)
    show "\<exists>t'. ?ts j = Some t' \<and> ut_transfer t' = ut_transfer u \<and> busy (ut_phase t')"
      if "tasks p j = Some u" "busy (ut_phase u)" for j u
      using that by (cases "j = i") (simp_all add: busy_def)
  qed
  moreover have "cards_ok ?ts (dom (page_chat p))"
    using ok assms(3) unfolding content_ok_def cards_ok_def by (metis fun_upd_other)
  moreover have "\<forall>j u. ?ts j = Some u \<longrightarrow> j < next_task p"
    using ok t by (auto simp: content_ok_def)
  ultimately show ?thesis
    using ok by (simp add: content_ok_def set_phase_def)
qed

lemma transfer_updates:
  "tr_id (x\<lparr>tr_state := s, tr_label := l, tr_pct := n, tr_detail := d\<rparr>) = tr_id x"
  "tr_state (x\<lparr>tr_state := s, tr_label := l, tr_pct := n, tr_detail := d\<rparr>) = s"
  "tr_id (x\<lparr>tr_state := s, tr_label := l, tr_detail := d\<rparr>) = tr_id x"
  "tr_state (x\<lparr>tr_state := s, tr_label := l, tr_detail := d\<rparr>) = s"
  by simp_all

lemma kept_ids [simp]:
  "tr_id (sent_transfer t x) = tr_id x" "tr_id (unsent_transfer x) = tr_id x"
  "tr_id (failed_transfer fl e x) = tr_id x" "tr_id (progress_transfer sp sz n note x) = tr_id x"
  unfolding sent_transfer_def unsent_transfer_def failed_transfer_def progress_transfer_def Let_def
  by (rule transfer_updates)+

lemma ended_transfers [simp]:
  "\<not> running (sent_transfer t x)" "\<not> running (unsent_transfer x)" "\<not> running (failed_transfer fl e x)"
  by (simp_all only: running_def sent_transfer_def unsent_transfer_def failed_transfer_def transfer_updates)
    (simp_all split: if_split)

lemma try_send_content:
  assumes "content_ok p" and "tasks p i = Some t" and "CardEl i \<notin> set (dom (page_chat p))"
    and "try_send i t f p = (ok, q)"
  shows "content_ok q" and "\<not> ok \<Longrightarrow> q = p"
proof -
  obtain a r where send: "sendWS (file_payload f) (ut_to t) p = (a, r)" by (cases "sendWS (file_payload f) (ut_to t) p")
  then have same: "content_view r = content_view p" using content_view_ops(9) [of "file_payload f" "ut_to t" p] by simp
  have r: "content_ok r" "tasks r i = Some t" "CardEl i \<notin> set (dom (page_chat r))"
    using content_ok_same [OF assms(1) same] content_fields [OF same] assms(2,3) by simp_all
  have "\<not> a \<Longrightarrow> r = p" using send by (auto simp: sendWS_def split: if_splits option.splits)
  with assms(4) send finish_content [OF r, of "sent_transfer t"] r(1)
  show "content_ok q" and "\<not> ok \<Longrightarrow> q = p"
    by (auto simp: try_send_def split: if_splits)
qed

lemma wait_or_finish_content:
  assumes "content_ok p" and "tasks p i = Some t" and "CardEl i \<notin> set (dom (page_chat p))"
  shows "content_ok (wait_or_finish i t f n p)"
proof -
  have give: "content_ok (give_up_sending i t p)"
    unfolding give_up_sending_def
    by (rule content_ok_same [OF finish_content [OF assms]]) simp_all
  obtain ok q where send: "try_send i t f p = (ok, q)" by (cases "try_send i t f p")
  from try_send_content [OF assms send] have "content_ok q" and "\<not> ok \<Longrightarrow> q = p" by simp_all
  then show ?thesis
    using give waiting_content [OF assms] send by (auto simp: wait_or_finish_def Let_def)
qed

lemma remove_card_content:
  assumes "content_ok p"
  shows "content_ok (p\<lparr>activeUploads := au, page_chat := remove_card i (page_chat p)\<rparr>)"
  using assms remove_card_ok [of "page_chat p" i]
  by (auto simp: content_ok_def cards_ok_def) (auto simp: remove_card_def)

lemma upload_settles_content:
  assumes "content_ok p"
  shows "content_ok (upload_settles i res p)"
proof (cases "tasks p i")
  case (Some t)
  let ?p = "p\<lparr>activeUploads := filter (\<lambda>x. x \<noteq> i) (activeUploads p), page_chat := remove_card i (page_chat p)\<rparr>"
  have p: "content_ok ?p" "tasks ?p i = Some t" "CardEl i \<notin> set (dom (page_chat ?p))"
    using remove_card_content [OF assms] Some by (simp_all add: remove_card_def)
  show ?thesis
  proof (cases res)
    case (Inl e)
    have "content_ok (updateTransferOf (ut_transfer t) (failed_transfer (ut_file t) e) (set_phase i Unsent_end ?p))"
      using p by (rule finish_content) simp_all
    with Some Inl content_ok_same [OF this] show ?thesis by (simp add: upload_settles_def Let_def)
  next
    case (Inr f)
    obtain ok q where send: "try_send i t f ?p = (ok, q)" by (cases "try_send i t f ?p")
    from try_send_content [OF p send] have "content_ok q" and "\<not> ok \<Longrightarrow> q = ?p" by simp_all
    with Some Inr send wait_or_finish_content [OF p] show ?thesis
      by (auto simp: upload_settles_def Let_def)
  qed
qed (simp add: upload_settles_def assms)

lemma wait_tick_content:
  assumes ok: "content_ok p"
  shows "content_ok (wait_tick i ms p)"
proof (cases "\<exists>t n f. tasks p i = Some t \<and> ut_phase t = Waiting n f")
  case True
  then obtain t n f where t: "tasks p i = Some t" "ut_phase t = Waiting n f" by blast
  with ok have "CardEl i \<notin> set (dom (page_chat p))" by (auto simp: content_ok_def cards_ok_def)
  from wait_or_finish_content [OF ok t(1) this] t show ?thesis by (simp add: wait_tick_def)
next
  case False
  with ok show ?thesis by (auto simp: wait_tick_def split: option.split task_phase.split)
qed

lemma upload_progress_content:
  assumes ok: "content_ok p" and ph: "phase_is p i (\<lambda>ph. ph = Uploading)"
  shows "content_ok (upload_progress sp i n note p)"
proof -
  from ph obtain t where t: "tasks p i = Some t" "ut_phase t = Uploading"
    by (auto simp: phase_is_def split: option.splits)
  let ?g = "progress_transfer sp (f_size (ut_file t)) n note"
  have "owners_ok (tasks p) (map (\<lambda>x. if tr_id x = ut_transfer t then ?g x else x) (transfers (page_transfers p)))"
  proof (rule owners_update [where ts = "tasks p"])
    show "owners_ok (tasks p) (transfers (page_transfers p))" using ok by (simp add: content_ok_def)
    show "\<exists>i u. tasks p i = Some u \<and> ut_transfer u = ut_transfer t \<and> busy (ut_phase u)"
      using t by (auto simp: busy_def)
  qed auto
  moreover have "transfers_ok (updateTransfer (ut_transfer t) ?g (page_transfers p))"
    using ok by (intro updateTransfer_ok) (simp_all add: content_ok_def)
  ultimately show ?thesis
    using ok t by (simp add: upload_progress_def updateTransferOf_def content_ok_def updateTransfer_def)
qed

text \<open>A new upload owns its entry.\<close>

lemma owners_ok_new:
  assumes owners: "owners_ok ts (transfers l0)" and add: "addTransfer name st label pct detail l0 = (t, l)"
    and "ts k = None" and "ut_transfer u = tr_id t" and "busy (ut_phase u)"
  shows "owners_ok (ts(k \<mapsto> u)) (transfers l)"
  unfolding owners_ok_def
proof (intro ballI impI)
  fix x assume x: "x \<in> set (transfers l)" "running x"
  show "\<exists>i v. (ts(k \<mapsto> u)) i = Some v \<and> ut_transfer v = tr_id x \<and> busy (ut_phase v)"
  proof (cases "x = t")
    case True
    with assms(4,5) show ?thesis by (intro exI [of _ k] exI [of _ u]) simp
  next
    case False
    with x addTransfer_set [OF add] owners obtain i v where
      v: "ts i = Some v" "ut_transfer v = tr_id x" "busy (ut_phase v)"
      by (fastforce simp: owners_ok_def)
    with assms(3) have "i \<noteq> k" by auto
    with v show ?thesis by (intro exI [of _ i] exI [of _ v]) simp
  qed
qed

lemma upload_start_content:
  assumes ok: "content_ok p"
  shows "content_ok (upload_start file p)"
proof (cases "inChat p \<and> isOpen p")
  case False
  then have "upload_start file p = p \<or> (\<exists>m. upload_start file p = alert m p)"
    by (auto simp: upload_start_def)
  with content_ok_same [OF ok] ok show ?thesis by fastforce
next
  case True
  obtain t l where add: "addTransfer (f_name file) Up [0x51C6, 0x5907, 0x4E2D] 0 (formatSize (f_size file)) (page_transfers p) = (t, l)"
    by (cases "addTransfer (f_name file) Up [0x51C6, 0x5907, 0x4E2D] 0 (formatSize (f_size file)) (page_transfers p)")
  define u where "u = \<lparr>ut_file = file, ut_to = currentRecipients (page_room p),
      ut_targetName = map_option tg_name (sendTarget (page_room p)), ut_transfer = tr_id t,
      ut_phase = Uploading, ut_aborted = False\<rparr>"
  let ?ts = "(tasks p)(next_task p \<mapsto> u)"
  have fresh: "tasks p (next_task p) = None"
  proof (rule ccontr)
    assume "tasks p (next_task p) \<noteq> None"
    with ok show False unfolding content_ok_def by blast
  qed
  have owners: "owners_ok (tasks p) (transfers (page_transfers p))" and cards: "cards_ok (tasks p) (dom (page_chat p))"
    using ok by (simp_all add: content_ok_def)
  have "owners_ok ?ts (transfers l)"
    using fresh by (intro owners_ok_new [OF owners add]) (simp_all add: u_def busy_def)
  moreover have "cards_ok ?ts (dom (page_chat p) @ [CardEl (next_task p)])"
    using cards by (auto simp: cards_ok_def u_def)
  moreover have "transfers_ok l"
    using ok transfers_ok_add [of "page_transfers p" "f_name file" Up "[0x51C6, 0x5907, 0x4E2D]" 0 "formatSize (f_size file)"] add
    by (simp add: content_ok_def)
  moreover have "\<forall>i v. ?ts i = Some v \<longrightarrow> i < next_task p + 1"
    using ok by (auto simp: content_ok_def less_Suc_eq)
  ultimately have "content_ok (p\<lparr>next_task := next_task p + 1, page_transfers := l,
      page_chat := add_card (next_task p) (page_chat p), tasks := ?ts, activeUploads := activeUploads p @ [next_task p]\<rparr>)"
    using ok add_card_ok [of "page_chat p" "next_task p"] by (simp add: content_ok_def add_card_def)
  with True add show ?thesis by (simp add: upload_start_def u_def Let_def)
qed

lemma cancel_content: "content_ok p \<Longrightarrow> content_ok (cancel_upload i p)"
proof -
  assume ok: "content_ok p"
  let ?ts = "(tasks p)(i := map_option (\<lambda>t. t\<lparr>ut_aborted := True\<rparr>) (tasks p i))"
  have "owners_ok (tasks p) (transfers (page_transfers p))" using ok by (simp add: content_ok_def)
  then have "owners_ok ?ts (transfers (page_transfers p))"
    by (rule owners_mono) auto
  moreover have "cards_ok ?ts (dom (page_chat p))" using ok by (auto simp: content_ok_def cards_ok_def)
  moreover have "\<forall>j t. ?ts j = Some t \<longrightarrow> j < next_task p" using ok by (auto simp: content_ok_def)
  ultimately show ?thesis using ok by (simp add: content_ok_def cancel_upload_def)
qed

lemma dom_cards_append: "CardEl i \<in> set (dom (appendMessage b r msg s c)) \<longleftrightarrow> CardEl i \<in> set (dom c)"
proof -
  have "set (insert_message e es) = insert e (set (takeWhile (\<lambda>x. \<not> is_card x) es @ dropWhile (\<lambda>x. \<not> is_card x) es))"
    for e es by (simp add: insert_message_def del: takeWhile_dropWhile_id)
  then have "set (insert_message e es) = insert e (set es)" for e es unfolding takeWhile_dropWhile_id .
  then show ?thesis by (simp add: appendMessage_def Let_def)
qed

lemma dom_cards_history: "CardEl i \<in> set (dom (receive_history b r msgs c)) \<Longrightarrow> CardEl i \<in> set (dom c)"
proof -
  assume "CardEl i \<in> set (dom (receive_history b r msgs c))"
  then have "CardEl i \<in> set (filter is_card (dom (receive_history b r msgs c)))" by simp
  then have "CardEl i \<in> set (filter is_card (dom c))" by (simp add: receive_history_def cards_fold)
  then show ?thesis by simp
qed

lemma received_content:
  assumes "transfers_ok l" and "owners_ok ts (transfers l)"
  shows "transfers_ok (received_transfer msg l) \<and> owners_ok ts (transfers (received_transfer msg l))"
proof -
  obtain n d where eq: "received_transfer msg l = snd (addTransfer n Done [0x5DF2, 0x63A5, 0x6536] 1000 d l)"
    by (auto simp: received_transfer_def Let_def)
  obtain t l' where add: "addTransfer n Done [0x5DF2, 0x63A5, 0x6536] 1000 d l = (t, l')"
    by (cases "addTransfer n Done [0x5DF2, 0x63A5, 0x6536] 1000 d l")
  have "\<not> running t" using add by (auto simp: addTransfer_def Let_def running_def)
  with addTransfer_set [OF add] have "x \<in> set (transfers l') \<Longrightarrow> running x \<Longrightarrow> x \<in> set (transfers l)" for x
    by auto
  then have "owners_ok ts (transfers l')" by (rule owners_mono [OF assms(2)]) auto
  with transfers_ok_add [OF assms(1), of n Done "[0x5DF2, 0x63A5, 0x6536]" 1000 d] add show ?thesis by (simp add: eq)
qed

lemma on_message_content:
  assumes ok: "content_ok p"
  shows "content_ok (on_message b mobile m p)"
proof (cases m)
  case (Message msg)
  let ?c = "appendMessage b (page_room p) msg (own_message (page_room p) msg) (page_chat p)"
  have "chat_ok ?c" and "cards_ok (tasks p) (dom ?c)"
    using ok by (simp_all add: content_ok_def appendMessage_ok cards_ok_def dom_cards_append)
  with ok received_content [of "page_transfers p" "tasks p" msg] Message show ?thesis
    by (auto simp: content_ok_def on_message_def Let_def)
next
  case (History msgs)
  have "cards_ok (tasks p) (dom (receive_history b (page_room p) msgs (page_chat p)))"
    using ok dom_cards_history by (fastforce simp: content_ok_def cards_ok_def)
  with ok History show ?thesis by (simp add: content_ok_def on_message_def receive_history_ok)
qed (use ok in \<open>auto simp: content_ok_def on_message_def\<close>)

lemma info_arrives_content: "content_ok p \<Longrightarrow> content_ok (info_arrives mobile info p)"
proof -
  assume ok: "content_ok p"
  have a: "content_ok (p\<lparr>asking := asking p - 1\<rparr>)" by (rule content_ok_same [OF ok]) simp
  have shown: "content_ok (alert m (showPinRow x q)) = content_ok q" for m x q
    by (rule content_ok_view) simp
  have "content_ok (connect nm (p\<lparr>asking := asking p - 1\<rparr>))" for nm
    by (rule content_ok_same [OF a]) simp
  with a show ?thesis by (simp add: info_arrives_def Let_def shown leaveChat_content)
qed

interpretation content: page_invariant content_ok
proof
  show "content_ok (initial_page st)" for st
    by (simp add: initial_page_def content_ok_def chat_ok_def transfers_ok_def owners_ok_def cards_ok_def)
  show "content_ok (handle_event b mobile e p)" if "content_ok p" "enabled e p" for p e b mobile
  proof (cases "content_view (handle_event b mobile e p) = content_view p")
    case True
    with that(1) show ?thesis by (rule content_ok_same)
  next
    case False
    with that show ?thesis
      by (cases e)
        (simp_all add: leaveChat_content on_message_content upload_start_content cancel_content
          upload_progress_content upload_settles_content wait_tick_content info_arrives_content
          Let_def split: if_splits)
  qed
qed

end
