(* ===== verification/Page_Properties.thy ===== *)
theory Page_Properties
  imports Page_Content
begin

text \<open>
  What holds of the page in every reachable state: one live connection at most, a way back to the
  hub while in the chat, the delays of the reconnections, silence after leaving, where messages go,
  and that nothing shown as running is stuck.  The proofs rest on the two invariants of the state
  machine (\<open>connection.always\<close>, \<open>content.always\<close>).
\<close>

section \<open>A run\<close>

text \<open>The examples below: entering under the name \<open>a\<close>, and the socket opening.\<close>

definition plain_browser :: browser where
  "plain_browser = \<lparr>time_text = (\<lambda>t. []), now = 0, canCopyImages = False\<rparr>"

definition empty_storage :: storage where
  "empty_storage = \<lparr>readable = True, writable = True, items = Map.empty\<rparr>"

definition entered :: page where
  "entered = handle_event plain_browser False (Enter [97]) (initial_page empty_storage)"

definition opened_page :: page where
  "opened_page = handle_event plain_browser False (SockOpen 0) entered"

lemma entered_conn:
  "inChat entered" "chatName entered = Some [97]" "ws entered = Some 0" "timers entered = Map.empty"
  "sockets entered = [0 \<mapsto> \<lparr>readyState = Connecting, onclose_set = True, url_name = [97]\<rparr>]"
  "asking entered = 0" "reconnectAttempts entered = 0" "next_timer entered = 0" "reconnectTimer entered = None"
  by (simp_all add: entered_def enterChat_def setDevicesPanel_def setConnected_def connect_def drop_socket_def
      initial_page_def Let_def)

lemma reachable_entered: "reachable entered"
  unfolding entered_def by (rule reachable_step [OF reachable_initial]) simp

lemma enabled_opened: "enabled (SockOpen 0) entered"
  by (simp add: sock_in_def entered_conn)

lemma reachable_opened: "reachable opened_page"
  unfolding opened_page_def by (rule reachable_step [OF reachable_entered enabled_opened])

lemma opened_conn:
  "inChat opened_page" "chatName opened_page = Some [97]" "ws opened_page = Some 0"
  "sockets opened_page = [0 \<mapsto> \<lparr>readyState = Open, onclose_set = True, url_name = [97]\<rparr>]"
  "asking opened_page = 0" "reconnectAttempts opened_page = 0" "isOpen opened_page"
  by (simp_all add: opened_page_def on_open_def set_ready_def setConnected_def clear_timer_def entered_conn isOpen_def)

section \<open>One connection\<close>

text \<open>
  C4. The page never has two live connections: in every reachable state a socket that
  is connecting or open is the current one.  So the handlers of replaced sockets cannot deliver
  messages twice, and the hub does not see the device twice.
\<close>

theorem one_live_socket:
  assumes "reachable p" and "sockets p w = Some s" and "readyState s \<in> {Connecting, Open}"
  shows "ws p = Some w"
proof -
  have "sockets_ok (ws p) (sockets p) (next_socket p)"
    using connection.always [OF assms(1)] by (simp add: conn_ok_def conn_base_def)
  from socket_less [OF this assms(2)] assms(3) show ?thesis
    by (auto simp: socket_ok_def split: if_splits)
qed

theorem one_live_socket_witness: "ws opened_page = Some 0"
  by (rule one_live_socket [OF reachable_opened, of 0 "\<lparr>readyState = Open, onclose_set = True, url_name = [97]\<rparr>"])
    (simp_all add: opened_conn)

section \<open>The way back\<close>

text \<open>
  The events of the connection that the browser, its timers and the network deliver, without the user: the socket opens, starts
  to close or is closed, a timer fires, the answer of \<open>/api/info\<close> is there.
\<close>

fun automatic :: "event \<Rightarrow> bool" where
  "automatic (SockOpen w) = True"
| "automatic (SockClosing w) = True"
| "automatic (SockClose w jitter) = True"
| "automatic (TimerFires t) = True"
| "automatic (InfoArrives info) = True"
| "automatic _ = False"

text \<open>A course of events, each of which can occur when its turn comes.\<close>

fun run_events :: "browser \<Rightarrow> bool \<Rightarrow> event list \<Rightarrow> page \<Rightarrow> page option" where
  "run_events b mobile [] p = Some p"
| "run_events b mobile (e # es) p =
     (if enabled e p then run_events b mobile es (handle_event b mobile e p) else None)"

text \<open>At most \<open>n\<close> automatic events lead to an open connection.\<close>

definition back_online :: "browser \<Rightarrow> bool \<Rightarrow> nat \<Rightarrow> page \<Rightarrow> bool" where
  "back_online b mobile n p \<longleftrightarrow>
     (\<exists>es q. length es \<le> n \<and> (\<forall>e \<in> set es. automatic e) \<and> run_events b mobile es p = Some q \<and> inChat q \<and> isOpen q)"

lemma back_step:
  assumes "enabled e p" and "automatic e" and "back_online b mobile n (handle_event b mobile e p)"
  shows "back_online b mobile (Suc n) p"
proof -
  from assms(3) obtain es q where "length es \<le> n" "\<forall>e \<in> set es. automatic e"
    "run_events b mobile es (handle_event b mobile e p) = Some q" "inChat q" "isOpen q"
    unfolding back_online_def by blast
  with assms(1,2) show ?thesis unfolding back_online_def by (intro exI [of _ "e # es"] exI [of _ q]) simp
qed

lemma back_more: "back_online b mobile n p \<Longrightarrow> n \<le> m \<Longrightarrow> back_online b mobile m p"
  unfolding back_online_def using le_trans by blast

lemma open_back:
  assumes "inChat p" and "ws p = Some w" and "sockets p w = Some s" and "readyState s = Connecting"
  shows "back_online b mobile 1 p"
proof -
  have "enabled (SockOpen w) p" using assms by (simp add: sock_in_def)
  moreover have "inChat (on_open w p)" and "isOpen (on_open w p)"
    using assms by (simp_all add: on_open_def isOpen_def set_ready_def setConnected_def)
  ultimately show ?thesis
    unfolding back_online_def by (intro exI [of _ "[SockOpen w]"] exI [of _ "on_open w p"]) simp
qed

lemma connect_back: "inChat p \<Longrightarrow> back_online b mobile 1 (connect name p)"
  by (rule open_back [where w = "next_socket p" and s = "\<lparr>readyState = Connecting, onclose_set = True,
      url_name = (case name of Some n \<Rightarrow> n | None \<Rightarrow> lit ''null'')\<rparr>"])
    (simp_all add: connect_def Let_def)

text \<open>The answer of the hub is missing or does not ask for the PIN.\<close>

lemma asking_back:
  assumes "inChat p" and "0 < asking p"
  shows "back_online b mobile 2 p"
proof -
  have "back_online b mobile (Suc 1) p"
  proof (rule back_step [where e = "InfoArrives None"])
    show "enabled (InfoArrives None) p" using assms(2) by simp
    show "back_online b mobile 1 (handle_event b mobile (InfoArrives None) p)"
      using connect_back [of "p\<lparr>asking := asking p - 1\<rparr>"] assms(1) by (simp add: info_arrives_def Let_def)
  qed simp
  then show ?thesis by (simp add: numeral_2_eq_2)
qed

lemma timer_back:
  assumes "conn_ok p" and "inChat p" and "timers p t = Some d"
  shows "back_online b mobile 3 p"
proof -
  have "back_online b mobile (Suc 2) p"
  proof (rule back_step [where e = "TimerFires t"])
    show "enabled (TimerFires t) p" using assms(3) by simp
    have "chatting p" using assms(1,2) by (simp add: conn_ok_def conn_base_def chatting_def)
    then have "inChat (timer_fires t p)" and "0 < asking (timer_fires t p)"
      using assms(2) by (simp_all add: timer_fires_def chatting_def Let_def)
    then show "back_online b mobile 2 (handle_event b mobile (TimerFires t) p)" by (simp add: asking_back)
  qed simp
  then show ?thesis by (simp add: numeral_3_eq_3)
qed

text \<open>
  C11. The page never gets stuck offline: in every reachable state in the chat, at most four events
  that need no user (the end of the old socket, the timer, the answer of \<open>/api/info\<close>, the opening of the new
  socket) lead to an open connection, the page still being in the chat.  Whatever happened before (failed handshakes, closed sockets,
  pending questions, old timers), what it takes to go on is there: a live or closing socket with its handler, an armed timer or a pending question.
\<close>

theorem can_reconnect:
  assumes "reachable p" and "inChat p"
  shows "\<exists>es q. length es \<le> 4 \<and> (\<forall>e \<in> set es. automatic e) \<and> run_events b mobile es p = Some q \<and> inChat q \<and> isOpen q"
proof -
  have ok: "conn_ok p" using assms(1) by (rule connection.always)
  have so: "sockets_ok (ws p) (sockets p) (next_socket p)" using ok by (simp add: conn_ok_def conn_base_def)
  have "back_online b mobile 4 p"
  proof (cases "ws p")
    case None
    with ok assms(2) have "(\<exists>t d. timers p t = Some d) \<or> 0 < asking p" by (auto simp: conn_ok_def on_the_way_def)
    with timer_back [OF ok assms(2)] asking_back [OF assms(2)] show ?thesis
      by (elim disjE exE) (rule back_more, blast, simp)+
  next
    case (Some w)
    with so obtain s where s: "sockets p w = Some s" by (auto simp: sockets_ok_def)
    with socket_less [OF so s] Some have live: "onclose_set s" "readyState s \<noteq> Closed" by (simp_all add: socket_ok_def)
    show ?thesis
    proof (cases "readyState s")
      case Connecting
      from back_more [OF open_back [OF assms(2) Some s this]] show ?thesis by simp
    next
      case Open
      then have "isOpen p" using Some s by (simp add: isOpen_def)
      with assms(2) show ?thesis unfolding back_online_def by (intro exI [of _ "[]"] exI [of _ p]) simp
    next
      case Closing
      let ?q = "on_close 0 w p"
      have en: "enabled (SockClose w 0) p" using Closing s by (simp add: sock_in_def)
      have "conn_ok (handle_event b mobile (SockClose w 0) p)"
        using ok en by (rule connection.each_event)
      moreover have "chatting p" using ok assms(2) by (simp add: conn_ok_def conn_base_def chatting_def)
      then have "inChat ?q" and "timers ?q (next_timer p) = Some (backoff (reconnectAttempts p) + 0)"
        using s live by (auto simp: on_close_def set_ready_def setConnected_def chatting_def arm_timer_def Let_def)
      ultimately have "back_online b mobile 3 (handle_event b mobile (SockClose w 0) p)"
        using timer_back [of ?q] by simp
      from back_step [OF en _ this] show ?thesis by (simp add: eval_nat_numeral)
    qed (use live in simp)
  qed
  then show ?thesis by (simp add: back_online_def)
qed

theorem can_reconnect_witness:
  "\<exists>es q. length es \<le> 4 \<and> (\<forall>e \<in> set es. automatic e) \<and> run_events plain_browser False es entered = Some q
    \<and> inChat q \<and> isOpen q"
  by (rule can_reconnect [OF reachable_entered entered_conn(1)])

text \<open>
  C40. When the connection is lost in the chat, the page shows it, stops the sending
  and arms exactly one timer, \<open>min (1000 * 2 ^ n) 15000\<close> milliseconds plus the jitter after the
  \<open>n\<close>-th failure in a row: never less than a second, never more than fifteen and a half.
\<close>

theorem reconnect_delay:
  assumes "reachable p" and "inChat p" and "ws p = Some w" and "enabled (SockClose w jitter) p"
  shows "\<exists>d. timers (handle_event b mobile (SockClose w jitter) p) = (timers p)(next_timer p \<mapsto> d)
    \<and> d = min (1000 * 2 ^ reconnectAttempts p) 15000 + jitter \<and> 1000 \<le> d \<and> d < 15500
    \<and> reconnectAttempts (handle_event b mobile (SockClose w jitter) p) = reconnectAttempts p + 1
    \<and> \<not> can_send (conn (handle_event b mobile (SockClose w jitter) p))"
proof -
  have ok: "conn_ok p" using assms(1) by (rule connection.always)
  then have so: "sockets_ok (ws p) (sockets p) (next_socket p)" by (simp add: conn_ok_def conn_base_def)
  from assms(4) obtain s where s: "sockets p w = Some s" by (auto elim: sock_inE)
  with socket_less [OF so s] assms(3) have live: "onclose_set s" by (simp add: socket_ok_def)
  have chat: "chatName p \<noteq> None" "chatName p \<noteq> Some []" using ok assms(2) by (auto simp: conn_ok_def conn_base_def)
  have "1000 \<le> backoff (reconnectAttempts p) + jitter" and "backoff (reconnectAttempts p) + jitter < 15500"
    using backoff_range [of "reconnectAttempts p"] assms(4) by simp_all
  with s live chat assms(2,4) show ?thesis
    by (intro exI [of _ "backoff (reconnectAttempts p) + jitter"])
      (simp add: on_close_def set_ready_def setConnected_def chatting_def arm_timer_def backoff_def Let_def)
qed

theorem reconnect_delay_witness:
  "timers (handle_event plain_browser False (SockClose 0 7) opened_page) (next_timer opened_page) = Some 1007"
proof -
  have "enabled (SockClose 0 7) opened_page" by (simp add: sock_in_def opened_conn)
  from reconnect_delay [OF reachable_opened opened_conn(1,3) this, of plain_browser False] show ?thesis
    by (auto simp: opened_conn(6))
qed

section \<open>Leaving\<close>

definition quiet :: "page \<Rightarrow> bool" where
  "quiet p \<longleftrightarrow> \<not> inChat p \<and> ws p = None \<and> asking p = 0"

lemma quiet_view: "conn_view p = conn_view q \<Longrightarrow> quiet p = quiet q"
  by (simp add: conn_view_def quiet_def)

lemma quiet_step:
  assumes ok: "conn_ok p" and q: "quiet p" and en: "enabled e p" and enter: "\<And>n. e \<noteq> Enter n"
  shows "quiet (handle_event b mobile e p)"
proof (cases "conn_view (handle_event b mobile e p) = conn_view p")
  case True
  with q quiet_view show ?thesis by blast
next
  case False
  have so: "sockets_ok None (sockets p) (next_socket p)"
    using ok q by (simp add: conn_ok_def conn_base_def quiet_def)
  have off: "\<not> sock_in p w {Connecting}" "\<not> sock_in p w {Connecting, Open}" for w
    using socket_less [OF so] by (fastforce simp: sock_in_def socket_ok_def split: option.splits)+
  have closed: "\<not> onclose_set s" if "sockets p w = Some s" "sock_in p w {Connecting, Open, Closing}" for w s
    using socket_less [OF so that(1)] that by (auto simp: sock_in_def socket_ok_def)
  show ?thesis
  proof (cases e)
    case (SockClose w jitter)
    with en q closed show ?thesis
      by (auto simp: on_close_def quiet_def set_ready_def Let_def split: option.split)
  next
    case (TimerFires t)
    with q show ?thesis by (simp add: timer_fires_def chatting_def quiet_def Let_def)
  next
    case BecomeVisible
    with q show ?thesis by (simp add: reconnectIfStale_def chatting_def quiet_def)
  next
    case Leave
    with q show ?thesis by (simp add: quiet_def)
  next
    case (SockOpen w)
    with en off(1) show ?thesis by simp
  next
    case (SockClosing w)
    with en off(2) show ?thesis by simp
  next
    case (InfoArrives info)
    with en q show ?thesis by (simp add: quiet_def)
  qed (use False enter in \<open>auto simp: Let_def split: if_splits\<close>)
qed

inductive stays :: "page \<Rightarrow> page \<Rightarrow> bool" where
  here: "stays p p"
| onward: "stays p q \<Longrightarrow> enabled e q \<Longrightarrow> \<forall>n. e \<noteq> Enter n \<Longrightarrow> stays p (handle_event b mobile e q)"

lemma stays_quiet: "stays p q \<Longrightarrow> conn_ok p \<Longrightarrow> quiet p \<Longrightarrow> conn_ok q \<and> quiet q"
proof (induction rule: stays.induct)
  case (onward p q e b mobile)
  then show ?case using connection.each_event quiet_step by auto
qed simp

text \<open>
  C13. After leaving the room the page is silent: if no reconnection was waiting for the
  hub's answer at that moment, then whatever happens afterwards (late events of old sockets, timers
  that were armed, the page becoming visible), until the user enters again there is no connection
  and nothing is sent.
\<close>

theorem leave_is_final:
  assumes "reachable p" and "asking p = 0" and "stays (handle_event b mobile Leave p) q"
  shows "ws q = None \<and> \<not> inChat q \<and> outbox (sendText q) = outbox q"
proof -
  let ?l = "handle_event b mobile Leave p"
  have "conn_ok ?l" using connection.each_event [OF connection.always [OF assms(1)], of Leave] by simp
  moreover have "quiet ?l" using assms(2) by (simp add: quiet_def)
  ultimately have "quiet q" using stays_quiet [OF assms(3)] by simp
  then show ?thesis by (simp add: quiet_def sendText_def sendWS_def isOpen_def Let_def)
qed

theorem leave_is_final_witness:
  "ws (handle_event plain_browser False Leave opened_page) = None
    \<and> \<not> inChat (handle_event plain_browser False Leave opened_page)"
  using leave_is_final [OF reachable_opened opened_conn(5) stays.here, of plain_browser False] by blast

text \<open>
  Without the assumption it fails.  The callback of the reconnection timer waits for \<open>/api/info\<close>
  and then connects without asking again whether the page is still in the chat: after leaving
  during that wait, the page connects under the name \<open>null\<close>.
\<close>

definition ghost_page :: page where
  "ghost_page =
     handle_event plain_browser False (InfoArrives None)
      (handle_event plain_browser False Leave
       (handle_event plain_browser False (TimerFires 0)
        (handle_event plain_browser False (SockClose 0 0) entered)))"

lemma ghost_reachable: "reachable ghost_page"
proof -
  let ?h = "handle_event plain_browser False"
  have a: "enabled (SockClose 0 0) entered" by (simp add: sock_in_def entered_conn)
  have ask: "asking (?h Leave (?h (TimerFires 0) (?h (SockClose 0 0) entered))) = 1"
    and arm: "timers (?h (SockClose 0 0) entered) 0 \<noteq> None"
    by (simp_all add: on_close_def timer_fires_def set_ready_def setConnected_def arm_timer_def chatting_def
        entered_conn Let_def)
  from reachable_step [OF reachable_entered a] have "reachable (?h (SockClose 0 0) entered)" .
  from reachable_step [OF this, of "TimerFires 0"] arm
  have "reachable (?h (TimerFires 0) (?h (SockClose 0 0) entered))" by simp
  from reachable_step [OF this, of Leave]
  have "reachable (?h Leave (?h (TimerFires 0) (?h (SockClose 0 0) entered)))" by simp
  from reachable_step [OF this, of "InfoArrives None"] ask show ?thesis by (simp add: ghost_page_def)
qed

lemma ghost_connection:
  "\<not> inChat ghost_page \<and> (\<exists>w s. ws ghost_page = Some w \<and> sockets ghost_page w = Some s \<and> url_name s = lit ''null'')"
  by (simp add: ghost_page_def info_arrives_def connect_def Let_def)

end
