(* ===== verification/Page_Sending.thy ===== *)
theory Page_Sending
  imports Page_Properties
begin

text \<open>
  Where what the user sends goes, in every reachable state: a typed text goes where the page says it
  goes, a file goes where the page pointed when its upload began, a draft is never lost, and a
  transfer shown as running, or a card in the chat area, always belongs to an upload that is going on.
\<close>

section \<open>Nothing is stuck\<close>

text \<open>
  C25. A transfer the page shows as running is one: in every reachable state, each
  running entry of the transfer list belongs to an upload that is still uploading or waiting to be
  sent.  Success, failure, cancellation and leaving the room all end the entry with the upload.
\<close>

theorem no_stuck_transfer:
  assumes "reachable p" and "x \<in> set (transfers (page_transfers p))" and "running x"
  shows "\<exists>i t. tasks p i = Some t \<and> ut_transfer t = tr_id x \<and> busy (ut_phase t)"
  using content.always [OF assms(1)] assms(2,3) unfolding content_ok_def owners_ok_def by blast


section \<open>Typed text\<close>

lemma sendText_idle: "trim (messageInput p) = [] \<or> \<not> isOpen p \<Longrightarrow> sendText p = p"
  by (auto simp: sendText_def sendWS_def Let_def)

lemma currentRecipients_some: "currentRecipients r \<noteq> Some []"
  by (simp add: currentRecipients_def)

lemma sendText_open:
  assumes "trim (messageInput p) \<noteq> []" and "isOpen p" and "ws p = Some w"
  shows "messageInput (sendText p) = [] \<and>
    outbox (sendText p) = outbox p @ [\<lparr>sent_on = w, sent_payload = text_payload (trim (messageInput p)),
      sent_to = currentRecipients (page_room p)\<rparr>]"
  using assms currentRecipients_some by (simp add: sendText_def sendWS_def Let_def)

text \<open>
  Sending never loses what was typed: the send button either leaves the whole page as
  it was, draft included, or the connection was open, exactly the trimmed text was handed to the
  current socket, and the input was cleared.
\<close>

theorem draft_kept:
  "sendText p = p \<or>
    (\<exists>w. isOpen p \<and> ws p = Some w \<and> messageInput (sendText p) = [] \<and>
       outbox (sendText p) = outbox p @ [\<lparr>sent_on = w, sent_payload = text_payload (trim (messageInput p)),
         sent_to = currentRecipients (page_room p)\<rparr>])"
proof (cases "trim (messageInput p) = [] \<or> \<not> isOpen p")
  case True
  then show ?thesis using sendText_idle by blast
next
  case False
  then obtain w where "ws p = Some w" by (cases "ws p") (simp_all add: isOpen_def)
  with False sendText_open show ?thesis by blast
qed

lemma sendText_sent:
  assumes "outbox (sendText p) = outbox p @ [m]"
  shows "isOpen p \<and> trim (messageInput p) \<noteq> [] \<and> ws p = Some (sent_on m)
    \<and> sent_payload m = text_payload (trim (messageInput p)) \<and> sent_to m = currentRecipients (page_room p)"
proof (cases "trim (messageInput p) = [] \<or> \<not> isOpen p")
  case True
  with assms show ?thesis by (simp add: sendText_idle)
next
  case False
  then obtain w where "ws p = Some w" by (cases "ws p") (simp_all add: isOpen_def)
  with False sendText_open [of p w] assms show ?thesis by auto
qed

text \<open>The invariant of the target bar.\<close>

definition shown_ok :: "page \<Rightarrow> bool" where
  "shown_ok p \<longleftrightarrow> (inChat p \<longrightarrow> bar_ok (page_room p))"

definition shown_view where
  "shown_view p = (inChat p, page_room p)"

lemma shown_view_ops [simp]:
  "shown_view (setDevicesPanel mobile op p) = shown_view p" "shown_view (setConnected on p) = shown_view p"
  "shown_view (on_error w p) = shown_view p" "shown_view (alert m p) = shown_view p"
  "shown_view (showPinRow x p) = shown_view p" "shown_view (set_ready w st p) = shown_view p"
  "shown_view (snd (sendWS pl to p)) = shown_view p" "shown_view (drop_socket p) = shown_view p"
  "shown_view (clear_timer p) = shown_view p" "shown_view (timer_fires t p) = shown_view p"
  "shown_view (updateTransferOf i g p) = shown_view p" "shown_view (set_phase i ph p) = shown_view p"
  "shown_view (cancel_upload i p) = shown_view p"
  by (simp_all add: shown_view_def setDevicesPanel_def setConnected_def on_error_def alert_def showPinRow_def
      sendWS_def set_ready_def drop_socket_def clear_timer_def timer_fires_def updateTransferOf_def set_phase_def
      cancel_upload_def Let_def split: option.split)

lemma shown_view_fields [simp]:
  "shown_view (p\<lparr>sockets := a\<rparr>) = shown_view p" "shown_view (p\<lparr>next_socket := n\<rparr>) = shown_view p"
  "shown_view (p\<lparr>ws := x1\<rparr>) = shown_view p" "shown_view (p\<lparr>reconnectAttempts := n\<rparr>) = shown_view p"
  "shown_view (p\<lparr>timers := tm\<rparr>) = shown_view p" "shown_view (p\<lparr>reconnectTimer := x1\<rparr>) = shown_view p"
  "shown_view (p\<lparr>next_timer := n\<rparr>) = shown_view p" "shown_view (p\<lparr>asking := n\<rparr>) = shown_view p"
  "shown_view (p\<lparr>messageInput := inp\<rparr>) = shown_view p" "shown_view (p\<lparr>activeUploads := au\<rparr>) = shown_view p"
  "shown_view (p\<lparr>page_chat := c\<rparr>) = shown_view p" "shown_view (p\<lparr>page_transfers := l\<rparr>) = shown_view p"
  "shown_view (p\<lparr>tasks := ts\<rparr>) = shown_view p" "shown_view (p\<lparr>next_task := n\<rparr>) = shown_view p"
  by (simp_all add: shown_view_def)

lemma shown_view_more [simp]:
  "shown_view (connect name p) = shown_view p" "shown_view (on_open w p) = shown_view p"
  "shown_view (on_close jitter w p) = shown_view p" "shown_view (reconnectIfStale p) = shown_view p"
  "shown_view (sendText p) = shown_view p"
proof -
  show con: "shown_view (connect name p) = shown_view p" for name p
    by (simp add: connect_def Let_def)
  show "shown_view (on_open w p) = shown_view p" by (simp add: on_open_def)
  show "shown_view (on_close jitter w p) = shown_view p"
    by (simp add: on_close_def arm_timer_def Let_def split: option.split)
  show "shown_view (reconnectIfStale p) = shown_view p" by (simp add: reconnectIfStale_def Let_def con)
  show "shown_view (sendText p) = shown_view p"
    using shown_view_ops(7) [of "text_payload (trim (messageInput p))" "currentRecipients (page_room p)" p]
    by (simp add: sendText_def Let_def split_beta)
qed

lemma shown_view_try [simp]: "shown_view (snd (try_send i t f p)) = shown_view p"
  using shown_view_ops(7) [of "file_payload f" "ut_to t" p] by (simp add: try_send_def Let_def split_beta)

lemma shown_view_uploads [simp]:
  "shown_view (upload_start file p) = shown_view p" "shown_view (upload_progress sp i n note p) = shown_view p"
  "shown_view (give_up_sending i t p) = shown_view p" "shown_view (wait_or_finish i t f left p) = shown_view p"
  "shown_view (wait_tick i ms p) = shown_view p" "shown_view (upload_settles i res p) = shown_view p"
proof -
  show give: "shown_view (give_up_sending i t p) = shown_view p" for t p
    by (simp add: give_up_sending_def)
  show wait: "shown_view (wait_or_finish i t f left p) = shown_view p" for t f left p
    by (simp add: wait_or_finish_def split_beta Let_def give)
  show "shown_view (upload_start file p) = shown_view p"
    by (simp add: upload_start_def split_beta Let_def)
  show "shown_view (upload_progress sp i n note p) = shown_view p"
    by (simp add: upload_progress_def split: option.split)
  show "shown_view (wait_tick i ms p) = shown_view p"
    by (simp add: wait_tick_def wait split: option.split task_phase.split)
  show "shown_view (upload_settles i res p) = shown_view p"
    by (simp add: upload_settles_def Let_def split_beta wait split: option.split sum.split)
qed

lemma shown_ok_view: "shown_view p = shown_view q \<Longrightarrow> shown_ok p = shown_ok q"
  by (simp add: shown_view_def shown_ok_def)

lemma shown_fields: "shown_view q = shown_view p \<Longrightarrow> inChat q = inChat p \<and> page_room q = page_room p"
  by (simp add: shown_view_def)

lemma click_reply_ok: "bar_ok r \<Longrightarrow> bar_ok (click_reply mobile a r)"
  by (simp add: click_reply_def setSendTarget_ok split: option.split)

lemma on_room_shown: "(bar_ok (page_room p) \<Longrightarrow> bar_ok (f (page_room p))) \<Longrightarrow> shown_ok p \<Longrightarrow> shown_ok (on_room f p)"
  by (simp add: shown_ok_def on_room_def)

lemma on_message_shown: "shown_ok p \<Longrightarrow> shown_ok (on_message b mobile m p)"
  by (cases m) (simp_all add: on_message_def shown_ok_def renderDevices_ok on_welcome_ok Let_def)

lemma enterChat_shown: "shown_ok (enterChat mobile name p)"
proof -
  have "shown_view (enterChat mobile name p) = (True, renderTargetBar mobile (page_room p))"
    by (simp add: enterChat_def Let_def) (simp add: shown_view_def setConnected_def)
  then show ?thesis by (simp add: shown_view_def shown_ok_def)
qed

lemma leaveChat_shown: "shown_ok (leaveChat mobile p)"
  by (simp add: shown_ok_def)

lemma info_arrives_shown: "shown_ok p \<Longrightarrow> shown_ok (info_arrives mobile info p)"
proof -
  assume ok: "shown_ok p"
  have shown: "shown_ok (alert m (showPinRow x q)) = shown_ok q" for m x q by (rule shown_ok_view) simp
  have "shown_ok (connect nm (p\<lparr>asking := asking p - 1\<rparr>)) = shown_ok p" for nm by (rule shown_ok_view) simp
  with ok show ?thesis by (simp add: info_arrives_def Let_def shown leaveChat_shown)
qed

lemma room_info_shown: "shown_ok p \<Longrightarrow> shown_ok (room_info_arrives info p)"
  by (simp add: shown_ok_def room_info_arrives_def setRoomInfo_ok split: option.split)

interpretation shown: page_invariant shown_ok
proof
  show "shown_ok (initial_page st)" for st by (simp add: initial_page_def shown_ok_def)
  show "shown_ok (handle_event b mobile e p)" if "shown_ok p" "enabled e p" for p e b mobile
  proof (cases "shown_view (handle_event b mobile e p) = shown_view p")
    case True
    with that(1) shown_ok_view show ?thesis by blast
  next
    case False
    have panel: "shown_ok (setDevicesPanel mobile op q) = shown_ok q" for op q by (rule shown_ok_view) simp
    from False that show ?thesis
      by (cases e)
        (simp_all add: enterChat_shown leaveChat_shown on_message_shown info_arrives_shown room_info_shown panel
          on_room_shown click_device_ok click_reply_ok setSendTarget_ok Let_def split: if_splits)
  qed
qed

text \<open>The invariant of the device list.\<close>

definition list_shown :: "page \<Rightarrow> bool" where
  "list_shown p \<longleftrightarrow> (\<exists>self. list_drawn self (page_room p))"

lemma list_shown_view: "shown_view p = shown_view q \<Longrightarrow> list_shown p = list_shown q"
  by (simp add: shown_view_def list_shown_def)

lemma on_room_list:
  "(\<And>self. list_drawn self (page_room p) \<Longrightarrow> list_drawn self (f (page_room p))) \<Longrightarrow> list_shown p \<Longrightarrow> list_shown (on_room f p)"
  by (auto simp: list_shown_def on_room_def)

lemma on_message_list: "list_shown p \<Longrightarrow> list_shown (on_message b mobile m p)"
  using list_drawn_presence(1) list_drawn_welcome
  by (cases m) (fastforce simp: on_message_def list_shown_def Let_def)+

lemma enterChat_list: "list_shown p \<Longrightarrow> list_shown (enterChat mobile name p)"
proof -
  have "page_room (enterChat mobile name p) = renderTargetBar mobile (page_room p)"
    using shown_fields [OF shown_view_more(1)] shown_fields [OF shown_view_ops(1)] shown_fields [OF shown_view_ops(2)]
    by (simp add: enterChat_def Let_def)
  then show "list_shown p \<Longrightarrow> list_shown (enterChat mobile name p)" by (simp add: list_shown_def list_drawn_bar)
qed

lemma leaveChat_list: "list_shown p \<Longrightarrow> list_shown (leaveChat mobile p)"
proof -
  assume "list_shown p"
  then obtain self where "list_drawn self (page_room p)" by (auto simp: list_shown_def)
  then have "list_drawn self ((page_room p)\<lparr>selfDevice := None\<rparr>)" by (simp add: list_drawn_def)
  then have "list_drawn self ((setSendTarget mobile None ((page_room p)\<lparr>selfDevice := None\<rparr>))\<lparr>devicesSignature := None\<rparr>)"
    using list_drawn_target [of self "(page_room p)\<lparr>selfDevice := None\<rparr>" mobile None] by (simp add: list_drawn_def)
  moreover have "page_room (drop_socket (clear_timer p)) = page_room p"
    using shown_fields [OF shown_view_ops(8)] shown_fields [OF shown_view_ops(9)] by simp
  ultimately show ?thesis
    using shown_fields [OF shown_view_ops(1)] by (auto simp: leaveChat_def list_shown_def Let_def)
qed

lemma info_arrives_list: "list_shown p \<Longrightarrow> list_shown (info_arrives mobile info p)"
proof -
  assume ok: "list_shown p"
  have shown: "list_shown (alert m (showPinRow x q)) = list_shown q" for m x q by (rule list_shown_view) simp
  have "list_shown (p\<lparr>asking := asking p - 1\<rparr>)" using ok by (simp add: list_shown_def)
  moreover have "list_shown (connect nm (p\<lparr>asking := asking p - 1\<rparr>)) = list_shown p" for nm by (rule list_shown_view) simp
  ultimately show ?thesis using ok by (simp add: info_arrives_def Let_def shown leaveChat_list)
qed

lemma room_info_list: "list_shown p \<Longrightarrow> list_shown (room_info_arrives info p)"
  using list_drawn_info by (fastforce simp: list_shown_def room_info_arrives_def split: option.split)

interpretation device_list: page_invariant list_shown
proof
  show "list_shown (initial_page st)" for st
    using list_drawn_initial by (auto simp: initial_page_def list_shown_def)
  show "list_shown (handle_event b mobile e p)" if "list_shown p" "enabled e p" for p e b mobile
  proof (cases "shown_view (handle_event b mobile e p) = shown_view p")
    case True
    with that(1) list_shown_view show ?thesis by blast
  next
    case False
    have panel: "list_shown (setDevicesPanel mobile op q) = list_shown q" for op q by (rule list_shown_view) simp
    from False that show ?thesis
      by (cases e)
        (simp_all add: enterChat_list leaveChat_list on_message_list info_arrives_list room_info_list panel
          on_room_list list_drawn_click list_drawn_reply list_drawn_target list_drawn_bar Let_def split: if_splits)
  qed
qed

text \<open>
  C38. The device list is never stale: in every reachable state of the page it has exactly one entry for each device of
  the last presence message, in order, with the entry of the present target selected, as a full rendering under some own
  id gives it.  When a presence message comes, this holds for its devices, although a list that repeats the last one is not
  drawn again: then the entries stay as they were drawn, under the own id of that time, and any other list
  is drawn under the present own id.
\<close>

theorem device_list_current:
  assumes "reachable p"
  shows "\<exists>self. list_items (page_room p) = device_items self (sendTarget (page_room p)) (onlineUsers (page_room p))
    \<and> (\<forall>b mobile w users r. page_room (handle_event b mobile (SockMsg w (Presence users)) p) = r \<longrightarrow>
        list_items r = device_items (if devicesSignature (page_room p) = Some users then self else deviceId (page_room p))
          (sendTarget (page_room p)) users)"
proof -
  obtain self where d: "list_drawn self (page_room p)" using device_list.always [OF assms] by (auto simp: list_shown_def)
  have "list_items (renderDevices mobile users (page_room p))
      = device_items (if devicesSignature (page_room p) = Some users then self else deviceId (page_room p))
          (sendTarget (page_room p)) users" for mobile users
    using list_drawn_presence(1) [OF d, of users mobile] by (simp add: list_drawn_def list_drawn_presence(2,3) [OF d])
  with d show ?thesis by (intro exI [of _ self]) (auto simp: list_drawn_def on_message_def)
qed

theorem device_list_current_witness:
  "list_items (page_room (handle_event plain_browser False (SockMsg 0 (Presence
      [\<lparr>dev_id = [7], dev_name = [65], dev_platform = [], dev_ip = []\<rparr>])) opened_page)) \<noteq> []"
proof -
  let ?us = "[\<lparr>dev_id = [7], dev_name = [65], dev_platform = [], dev_ip = []\<rparr>]"
  have "device_items self t ?us \<noteq> []" for self t by (simp add: device_items_def Let_def)
  with device_list_current [OF reachable_opened] show ?thesis by metis
qed

text \<open>
  A typed text goes where the page says: in every reachable state in the chat,
  a message sent while the title shows the group, without the private colours, goes to everyone;
  with the private colours on it goes to exactly one device, the one whose name is the title.
\<close>

theorem text_goes_where_shown:
  assumes "reachable p" and "inChat p" and "outbox (sendText p) = outbox p @ [m]"
  shows "if bar_dm (bar (page_room p))
    then (\<exists>t. sendTarget (page_room p) = Some t \<and> sent_to m = Some [tg_id t] \<and> bar_title (bar (page_room p)) = tg_name t)
    else sent_to m = None \<and> bar_title (bar (page_room p)) = [0x7FA4, 0x804A]"
proof -
  have ok: "bar_ok (page_room p)" using shown.always [OF assms(1)] assms(2) by (simp add: shown_ok_def)
  with sendText_sent [OF assms(3)] show ?thesis by (auto simp: bar_ok_def currentRecipients_def split: option.splits)
qed

lemma typed_page:
  "reachable (opened_page\<lparr>messageInput := t\<rparr>)" "sendTarget (page_room opened_page) = None"
  "\<not> bar_dm (bar (page_room opened_page))"
proof -
  show reach: "reachable (opened_page\<lparr>messageInput := t\<rparr>)"
    using reachable_step [OF reachable_opened, of "TypeText t" plain_browser False] by simp
  show target: "sendTarget (page_room opened_page) = None"
    using shown_fields [of opened_page entered] shown_view_more(2) [of 0 entered]
    by (simp add: opened_page_def)
      (simp add: entered_def enterChat_def setDevicesPanel_def setConnected_def connect_def drop_socket_def
        initial_page_def initial_room_def Let_def)
  have "shown_ok opened_page" using shown.always [OF reachable_opened] .
  then show "\<not> bar_dm (bar (page_room opened_page))"
    using target opened_conn(1) by (simp add: shown_ok_def bar_ok_def)
qed

lemma typed_page_sends:
  "trim t \<noteq> [] \<Longrightarrow> \<exists>m. outbox (sendText (opened_page\<lparr>messageInput := t\<rparr>)) = outbox (opened_page\<lparr>messageInput := t\<rparr>) @ [m]"
  using sendText_open [of "opened_page\<lparr>messageInput := t\<rparr>" 0] opened_conn(3,4) by (simp add: isOpen_def)

lemma trim_hi: "trim [104, 105] = [104, 105]"
  by (simp add: trim_def is_space_def)

theorem text_goes_where_shown_witness:
  "sent_to (last (outbox (sendText (opened_page\<lparr>messageInput := [104, 105]\<rparr>)))) = None"
proof -
  obtain m where m: "outbox (sendText (opened_page\<lparr>messageInput := [104, 105]\<rparr>)) = outbox (opened_page\<lparr>messageInput := [104, 105]\<rparr>) @ [m]"
    using typed_page_sends [of "[104, 105]"] trim_hi by auto
  with text_goes_where_shown [OF typed_page(1) _ m] typed_page(3) opened_conn(1) show ?thesis by simp
qed

section \<open>Files\<close>

text \<open>Which recipients and which file an upload has does not change.\<close>

definition same_job :: "upload_task \<Rightarrow> upload_task \<Rightarrow> bool" where
  "same_job t u \<longleftrightarrow> ut_to u = ut_to t \<and> ut_file u = ut_file t \<and> ut_targetName u = ut_targetName t
     \<and> ut_transfer u = ut_transfer t"

definition keeps_jobs :: "page \<Rightarrow> page \<Rightarrow> bool" where
  "keeps_jobs p q \<longleftrightarrow> (\<forall>i t. tasks p i = Some t \<longrightarrow> (\<exists>u. tasks q i = Some u \<and> same_job t u))"

lemma keeps_jobs_refl [simp]: "keeps_jobs p p"
  by (simp add: keeps_jobs_def same_job_def)

lemma keeps_jobs_trans: "keeps_jobs p q \<Longrightarrow> keeps_jobs q r \<Longrightarrow> keeps_jobs p r"
  unfolding keeps_jobs_def same_job_def by metis

lemma keeps_jobs_view: "content_view q = content_view p \<Longrightarrow> keeps_jobs p q"
  by (auto simp: keeps_jobs_def same_job_def dest: content_fields(1))

lemma keeps_jobs_tasks: "tasks q = tasks p \<Longrightarrow> keeps_jobs p q"
  by (simp add: keeps_jobs_def same_job_def)

lemma keeps_jobs_update:
  assumes "tasks q = (tasks p)(i := map_option f (tasks p i))" and "\<And>t. same_job t (f t)"
  shows "keeps_jobs p q"
  unfolding keeps_jobs_def
proof (intro allI impI)
  fix j t assume "tasks p j = Some t"
  with assms show "\<exists>u. tasks q j = Some u \<and> same_job t u"
    by (cases "j = i") (auto simp: same_job_def)
qed

lemma tasks_updateTransferOf [simp]: "tasks (updateTransferOf k g p) = tasks p"
  by (simp add: updateTransferOf_def)

lemma tasks_sendWS [simp]: "tasks (snd (sendWS pl to p)) = tasks p"
  by (simp add: sendWS_def split: option.split)

lemma keeps_set_phase: "keeps_jobs p (set_phase i ph p)"
  by (rule keeps_jobs_update [where f = "\<lambda>t. t\<lparr>ut_phase := ph\<rparr>"]) (simp_all add: set_phase_def same_job_def)

lemma keeps_try_send: "keeps_jobs p (snd (try_send i t f p))"
proof -
  have "keeps_jobs p (snd (sendWS (file_payload f) (ut_to t) p))" by (rule keeps_jobs_tasks) simp
  moreover have "keeps_jobs (snd (sendWS pl to p)) (updateTransferOf k g (set_phase i Sent (snd (sendWS pl to p))))" for pl to k g
    using keeps_set_phase by (rule keeps_jobs_trans) (rule keeps_jobs_tasks, simp)
  ultimately show ?thesis
    by (auto simp: try_send_def split_beta Let_def intro: keeps_jobs_trans)
qed

lemma keeps_give_up: "keeps_jobs p (give_up_sending i t p)"
  unfolding give_up_sending_def
  by (rule keeps_jobs_trans [OF keeps_set_phase]) (rule keeps_jobs_tasks, simp add: alert_def)

lemma keeps_wait: "keeps_jobs p (wait_or_finish i t f n p)"
proof -
  have "keeps_jobs p q \<Longrightarrow> keeps_jobs p (give_up_sending i t q)" for q
    using keeps_give_up keeps_jobs_trans by blast
  then show ?thesis
    using keeps_try_send [of p i t f] keeps_set_phase by (simp add: wait_or_finish_def split_beta Let_def)
qed

lemma keeps_settles: "keeps_jobs p (upload_settles i res p)"
proof (cases "tasks p i")
  case (Some t)
  let ?q = "p\<lparr>activeUploads := filter (\<lambda>x. x \<noteq> i) (activeUploads p), page_chat := remove_card i (page_chat p)\<rparr>"
  have q: "keeps_jobs p ?q" by (rule keeps_jobs_tasks) simp
  show ?thesis
  proof (cases res)
    case (Inl e)
    have "keeps_jobs ?q (updateTransferOf k g (set_phase i Unsent_end ?q))" for k g
      by (rule keeps_jobs_trans [OF keeps_set_phase]) (rule keeps_jobs_tasks, simp)
    moreover have "keeps_jobs r (alert m r)" for m r by (rule keeps_jobs_tasks) (simp add: alert_def)
    ultimately show ?thesis
      using Some Inl q by (simp add: upload_settles_def Let_def) (meson keeps_jobs_trans)
  next
    case (Inr f)
    with Some q keeps_try_send [of ?q i t f] keeps_wait show ?thesis
      by (simp add: upload_settles_def Let_def split_beta) (meson keeps_jobs_trans)
  qed
qed (simp add: upload_settles_def)

lemma keeps_start: "content_ok p \<Longrightarrow> keeps_jobs p (upload_start file p)"
proof -
  assume ok: "content_ok p"
  have "j \<noteq> next_task p" if "tasks p j = Some t" for j t
    using ok that unfolding content_ok_def by blast
  then show ?thesis
    by (auto simp: keeps_jobs_def same_job_def upload_start_def alert_def split_beta Let_def)
qed

lemma keeps_leave: "keeps_jobs p (leaveChat mobile p)"
proof -
  have "content_view (drop_socket (clear_timer p)) = content_view p" by simp
  then have "tasks (drop_socket (clear_timer p)) = tasks p" by (simp add: content_view_def)
  then show ?thesis
    by (auto simp: keeps_jobs_def same_job_def leaveChat_def setDevicesPanel_def abort_tasks_def Let_def)
qed

lemma keeps_event:
  assumes "content_ok p" and "enabled e p"
  shows "keeps_jobs p (handle_event b mobile e p)"
proof (cases "content_view (handle_event b mobile e p) = content_view p")
  case True
  then show ?thesis by (rule keeps_jobs_view)
next
  case False
  have cancel: "keeps_jobs p (cancel_upload i p)" for i
    by (rule keeps_jobs_update [where f = "\<lambda>t. t\<lparr>ut_aborted := True\<rparr>"]) (simp_all add: cancel_upload_def same_job_def)
  have msg: "keeps_jobs p (on_message b mobile m p)" for m
    by (rule keeps_jobs_tasks) (simp add: on_message_def Let_def split: server_msg.split)
  have prog: "keeps_jobs p (upload_progress sp i n nt p)" for sp i n nt
    by (rule keeps_jobs_tasks) (simp add: upload_progress_def split: option.split)
  have tick: "keeps_jobs p (wait_tick i ms p)" for i ms
    by (simp add: wait_tick_def keeps_wait split: option.split task_phase.split)
  have info: "keeps_jobs p (info_arrives mobile i p)" for i
  proof -
    let ?q = "p\<lparr>asking := asking p - 1\<rparr>"
    have "keeps_jobs p ?q" by (rule keeps_jobs_tasks) simp
    moreover have "keeps_jobs ?q (connect nm ?q)" for nm by (rule keeps_jobs_view) simp
    moreover have "keeps_jobs (leaveChat mobile ?q) (alert m (showPinRow x (leaveChat mobile ?q)))" for m x
      by (rule keeps_jobs_view) simp
    ultimately show ?thesis
      using keeps_leave [of ?q mobile] by (simp add: info_arrives_def Let_def) (meson keeps_jobs_trans)
  qed
  from False assms(1) show ?thesis
    by (cases e)
      (simp_all add: cancel msg prog tick info keeps_settles keeps_start keeps_leave Let_def split: if_splits)
qed

lemma keeps_steps: "steps p q \<Longrightarrow> content_ok p \<Longrightarrow> content_ok q \<and> keeps_jobs p q"
proof (induction rule: steps.induct)
  case (step p q e b mobile)
  then show ?case using content.each_event keeps_event keeps_jobs_trans by blast
qed simp

text \<open>What an upload's end, or a poll, puts on the wire.\<close>

lemma try_send_outbox:
  "outbox (snd (try_send i t f p)) = outbox p \<or>
   (\<exists>m. outbox (snd (try_send i t f p)) = outbox p @ [m] \<and> sent_payload m = file_payload f \<and>
      sent_to m = (if ut_to t = Some [] then None else ut_to t))"
  by (simp add: try_send_def sendWS_def updateTransferOf_def set_phase_def split: option.split)

lemma wait_outbox:
  "outbox (wait_or_finish i t f n p) = outbox p \<or>
   (\<exists>m. outbox (wait_or_finish i t f n p) = outbox p @ [m] \<and> sent_payload m = file_payload f \<and>
      sent_to m = (if ut_to t = Some [] then None else ut_to t))"
  using try_send_outbox [of i t f p]
  by (auto simp: wait_or_finish_def split_beta Let_def set_phase_def give_up_sending_def alert_def updateTransferOf_def)

lemma upload_outbox:
  assumes "tasks p i = Some t" and "e = Settles i res \<or> e = Poll i ms"
    and "outbox (handle_event b mobile e p) = outbox p @ [m]"
  shows "sent_to m = (if ut_to t = Some [] then None else ut_to t)"
proof -
  let ?q = "p\<lparr>activeUploads := filter (\<lambda>x. x \<noteq> i) (activeUploads p), page_chat := remove_card i (page_chat p)\<rparr>"
  show ?thesis
  proof (cases "e = Poll i ms")
    case True
    show ?thesis
    proof (cases "ut_phase t")
      case (Waiting n f)
      with True assms(1,3) wait_outbox [of i t f "n - ms" p] show ?thesis by (auto simp: wait_tick_def)
    qed (use True assms(1,3) in \<open>simp_all add: wait_tick_def\<close>)
  next
    case False
    then have e: "e = Settles i res" using assms(2) by simp
    show ?thesis
    proof (cases res)
      case (Inl err)
      with e assms(1,3) show ?thesis
        by (auto simp: upload_settles_def Let_def alert_def updateTransferOf_def set_phase_def split: if_splits)
    next
      case (Inr f)
      obtain ok q where send: "try_send i t f ?q = (ok, q)" by (cases "try_send i t f ?q")
      have "\<not> ok \<Longrightarrow> outbox q = outbox p"
        using send by (auto simp: try_send_def sendWS_def split: if_splits option.splits)
      with e Inr assms(1,3) send try_send_outbox [of i t f ?q] wait_outbox [of i t f 30000 q]
      show ?thesis by (auto simp: upload_settles_def Let_def split: if_splits)
    qed
  qed
qed

text \<open>
  C9. A file goes where the page pointed when the upload began: whatever happens
  while it runs (the user picks another target or goes back to the group, the connection is lost
  and found, the room is left and entered again), when its message is finally handed to the socket,
  its recipients are those of the moment the file was chosen.  A private file never becomes public.
\<close>

theorem upload_keeps_target:
  assumes "reachable p" and "inChat p" and "isOpen p"
    and "steps (handle_event b mobile (PickFile chosen) p) q"
    and "e = Settles (next_task p) res \<or> e = Poll (next_task p) ms"
    and "outbox (handle_event b' mobile' e q) = outbox q @ [m]"
  shows "sent_to m = currentRecipients (page_room p)"
proof -
  let ?p = "handle_event b mobile (PickFile chosen) p"
  have "content_ok ?p"
    using content.each_event [OF content.always [OF assms(1)], of "PickFile chosen"] by simp
  with assms(4) have keeps: "keeps_jobs ?p q" using keeps_steps by blast
  obtain t where t: "tasks ?p (next_task p) = Some t" "ut_to t = currentRecipients (page_room p)"
    using assms(2,3) by (auto simp: upload_start_def split_beta Let_def)
  from keeps t(1) obtain u where "tasks q (next_task p) = Some u" "same_job t u"
    unfolding keeps_jobs_def by blast
  then have "tasks q (next_task p) = Some u" "ut_to u = currentRecipients (page_room p)"
    using t(2) by (simp_all add: same_job_def)
  with upload_outbox [OF this(1) assms(5,6)] currentRecipients_some show ?thesis by simp
qed

text \<open>The properties on a page that has just begun to send a file.\<close>

definition note_file :: js_file where
  "note_file = \<lparr>f_name = lit ''a.txt'', f_type = lit ''text/plain'', f_lastModified = 7, f_content = [1, 2]\<rparr>"

definition note_answer :: file_resp where
  "note_answer = \<lparr>fileId = replicate 32 97, fr_name = lit ''a.txt'', fr_size = 2, fr_mime = lit ''text/plain''\<rparr>"

definition picked_page :: page where
  "picked_page = handle_event plain_browser False (PickFile note_file) opened_page"

lemma opened_rest:
  "transfers (page_transfers opened_page) = []" "transferSeq (page_transfers opened_page) = 0"
  "chatLog (page_chat opened_page) = []" "dom (page_chat opened_page) = []" "tasks opened_page = Map.empty"
  "next_task opened_page = 0" "sendTarget (page_room opened_page) = None" "outbox opened_page = []"
  by (simp_all add: opened_page_def on_open_def set_ready_def setConnected_def clear_timer_def entered_def
      enterChat_def setDevicesPanel_def connect_def drop_socket_def initial_page_def initial_room_def Let_def)

lemma picked_state:
  "tasks picked_page = [0 \<mapsto> \<lparr>ut_file = note_file, ut_to = None, ut_targetName = None, ut_transfer = 1,
     ut_phase = Uploading, ut_aborted = False\<rparr>]"
  "map tr_id (transfers (page_transfers picked_page)) = [1]"
  "map tr_state (transfers (page_transfers picked_page)) = [Up]"
  "ws picked_page = Some 0" "sockets picked_page = sockets opened_page" "outbox picked_page = []"
  "dom (page_chat picked_page) = [CardEl 0]"
  using opened_conn(1,7)
  by (simp_all add: picked_page_def upload_start_def addTransfer_def TRANSFER_LIMIT_def trim_list.simps
      opened_rest opened_conn add_card_def currentRecipients_def Let_def)

lemma reachable_picked: "reachable picked_page"
  unfolding picked_page_def by (rule reachable_step [OF reachable_opened]) simp

theorem no_stuck_transfer_witness:
  "\<exists>i t. tasks picked_page i = Some t \<and> ut_transfer t = tr_id (hd (transfers (page_transfers picked_page)))
    \<and> busy (ut_phase t)"
proof (rule no_stuck_transfer [OF reachable_picked])
  obtain x where x: "transfers (page_transfers picked_page) = [x]" "tr_state x = Up"
    using picked_state(2,3) by (cases "transfers (page_transfers picked_page)") auto
  then show "hd (transfers (page_transfers picked_page)) \<in> set (transfers (page_transfers picked_page))"
    "running (hd (transfers (page_transfers picked_page)))" by (simp_all add: running_def)
qed


theorem upload_keeps_target_witness:
  "\<exists>m. outbox (handle_event plain_browser False (Settles 0 (Inr note_answer)) picked_page) = [m] \<and> sent_to m = None"
proof -
  let ?q = "handle_event plain_browser False (Settles 0 (Inr note_answer)) picked_page"
  obtain m where m: "outbox ?q = outbox picked_page @ [m]"
    by (simp add: upload_settles_def try_send_def sendWS_def isOpen_def picked_state opened_conn
        updateTransferOf_def set_phase_def Let_def)
  have "sent_to m = currentRecipients (page_room opened_page)"
    by (rule upload_keeps_target [OF reachable_opened opened_conn(1,7) _ _ m, where chosen = note_file
        and b = plain_browser and mobile = False and res = "Inr note_answer" and ms = 0])
      (simp_all add: steps.refl opened_rest picked_page_def)
  with m show ?thesis by (simp add: picked_state currentRecipients_def opened_rest)
qed

end
