(* ===== verification/Upload_Slots.thy ===== *)
theory Upload_Slots
  imports Upload_Server
begin

text \<open>
  The hub's side of the upload contract: the invariant of its indexes and directory, and how one
  request, the clean-up task or somebody else's request can change what is stored for one id.
\<close>

section \<open>The invariant\<close>

text \<open>
  A part file is one octet longer than declared when a chunk that was too long could not be cut off again; the other
  lengths are exact as long as the file system keeps what was written (\<open>within\<close>, \<open>sized\<close>).
\<close>

definition upload_ok :: "server \<Rightarrow> jstr \<Rightarrow> upload_session \<Rightarrow> bool" where
  "upload_ok s i u \<longleftrightarrow>
     isHexFileID i \<and> us_path u = Part i \<and> files s i = None \<and>
     (\<forall>p. disk s (Part i) = Some p \<longrightarrow> length p \<le> Suc (us_size u))"

definition file_ok :: "server \<Rightarrow> jstr \<Rightarrow> file_record \<Rightarrow> bool" where
  "file_ok s i r \<longleftrightarrow>
     isHexFileID i \<and> rec_Path r = Final i \<and> (\<exists>c. disk s (Final i) = Some c \<and> length c \<le> rec_Size r)"

definition within :: "server \<Rightarrow> jstr \<Rightarrow> bool" where
  "within s i \<longleftrightarrow> (\<forall>u p. uploads s i = Some u \<longrightarrow> disk s (Part i) = Some p \<longrightarrow> length p \<le> us_size u)"

definition sized :: "server \<Rightarrow> jstr \<Rightarrow> bool" where
  "sized s i \<longleftrightarrow> (\<forall>r c. files s i = Some r \<longrightarrow> disk s (Final i) = Some c \<longrightarrow> length c = rec_Size r)"

definition server_inv :: "server \<Rightarrow> bool" where
  "server_inv s \<longleftrightarrow>
     (\<forall>i u. uploads s i = Some u \<longrightarrow> upload_ok s i u) \<and>
     (\<forall>i r. files s i = Some r \<longrightarrow> file_ok s i r)"

lemma server_inv_upload: "server_inv s \<Longrightarrow> uploads s i = Some u \<Longrightarrow> upload_ok s i u"
  and server_inv_file: "server_inv s \<Longrightarrow> files s i = Some r \<Longrightarrow> file_ok s i r"
  by (simp_all add: server_inv_def)

text \<open>The id a request is about, and the ids it may touch (a creation: the drawn one).\<close>

fun request_target :: "request \<Rightarrow> jstr option" where
  "request_target (ReqState i) = Some i"
| "request_target (ReqPut i off body) = Some i"
| "request_target (ReqDelete i) = Some i"
| "request_target (ReqCreate n z m) = None"

definition touches :: "io \<Rightarrow> request \<Rightarrow> jstr option" where
  "touches w r = (case request_target r of Some i \<Rightarrow> Some i | None \<Rightarrow> io_random w)"

text \<open>
  A drawn id is new: \<open>randomID\<close> takes 16 octets from the system's random source, and the code
  relies on it never repeating one.
\<close>

definition fresh_id :: "server \<Rightarrow> io \<Rightarrow> bool" where
  "fresh_id s w \<longleftrightarrow>
     (\<forall>i. io_random w = Some i \<longrightarrow> isHexFileID i \<and> uploads s i = None \<and> files s i = None)"

section \<open>What is stored for an id\<close>

definition slot_at :: "server \<Rightarrow> jstr \<Rightarrow> slot" where
  "slot_at s i =
     (case uploads s i of
        Some u \<Rightarrow> (case disk s (Part i) of Some p \<Rightarrow> Partial (us_size u) p | None \<Rightarrow> Absent)
      | None \<Rightarrow>
          (case files s i of
             Some r \<Rightarrow> (case disk s (Final i) of Some c \<Rightarrow> Complete c | None \<Rightarrow> Absent)
           | None \<Rightarrow> Absent))"

lemma kept_refl [simp]: "kept v v"
  by (cases v) simp_all

lemma kept_cases: "kept v v' \<longleftrightarrow> v' = v \<or> v' = Absent"
  by (cases v; cases v') auto

lemma kept_trans: "kept u v \<Longrightarrow> kept v w \<Longrightarrow> kept u w"
  by (auto simp: kept_cases)

lemma appended_refl [simp]: "appended off body v v"
  by (cases v) auto

lemma kept_appended: "kept u v \<Longrightarrow> appended off body v w \<Longrightarrow> appended off body u w"
  by (cases u; cases w) (auto simp: kept_cases)

section \<open>Frame: a request changes only what it touches\<close>

lemma finishUpload_frame:
  assumes "us_path u = Part i" and "j \<noteq> i"
  shows "uploads (snd (finishUpload w i u s)) j = uploads s j"
    and "files (snd (finishUpload w i u s)) j = files s j"
    and "disk (snd (finishUpload w i u s)) (Part j) = disk s (Part j)"
    and "disk (snd (finishUpload w i u s)) (Final j) = disk s (Final j)"
  using assms by (simp_all add: finishUpload_def registerFile_def Let_def)

lemma create_frame:
  assumes "io_random w \<noteq> Some j"
  shows "uploads (snd (createUpload w n z m s)) j = uploads s j"
    and "files (snd (createUpload w n z m s)) j = files s j"
    and "disk (snd (createUpload w n z m s)) (Part j) = disk s (Part j)"
    and "disk (snd (createUpload w n z m s)) (Final j) = disk s (Final j)"
  using assms
  by (auto simp: createUpload_def finishUpload_def registerFile_def Let_def split: option.splits)

lemma putChunk_frame:
  assumes "us_path u = Part i" and "j \<noteq> i"
  shows "uploads (snd (putChunk w i u off body s)) j = uploads s j"
    and "files (snd (putChunk w i u off body s)) j = files s j"
    and "disk (snd (putChunk w i u off body s)) (Part j) = disk s (Part j)"
    and "disk (snd (putChunk w i u off body s)) (Final j) = disk s (Final j)"
  using assms
  by (simp_all add: putChunk_def finishUpload_def registerFile_def Let_def split: option.splits)

lemma session_frame:
  assumes "server_inv s" and "j \<noteq> i"
  shows "uploads (snd (handleUploadSession w r i s)) j = uploads s j"
    and "files (snd (handleUploadSession w r i s)) j = files s j"
    and "disk (snd (handleUploadSession w r i s)) (Part j) = disk s (Part j)"
    and "disk (snd (handleUploadSession w r i s)) (Final j) = disk s (Final j)"
  using assms(2) server_inv_upload [OF assms(1), of i]
  by (auto simp: handleUploadSession_def upload_ok_def putChunk_frame split: option.splits request.splits)

lemma serve_frame:
  assumes "server_inv s" and "touches w r \<noteq> Some j"
  shows "uploads (snd (serve w r s)) j = uploads s j"
    and "files (snd (serve w r s)) j = files s j"
    and "disk (snd (serve w r s)) (Part j) = disk s (Part j)"
    and "disk (snd (serve w r s)) (Final j) = disk s (Final j)"
  using assms
  by (cases r; simp add: serve_def touches_def session_frame create_frame)+

lemma slot_frame:
  assumes "server_inv s" and "touches w r \<noteq> Some j"
  shows "slot_at (snd (serve w r s)) j = slot_at s j"
  unfolding slot_at_def serve_frame [OF assms] ..

section \<open>Every request keeps the invariant\<close>

text \<open>
  A request changes one id only, so the invariant needs checking there and nowhere else.
\<close>

definition id_ok :: "server \<Rightarrow> jstr \<Rightarrow> bool" where
  "id_ok s i \<longleftrightarrow>
     (\<forall>u. uploads s i = Some u \<longrightarrow> upload_ok s i u) \<and> (\<forall>r. files s i = Some r \<longrightarrow> file_ok s i r)"

lemma server_inv_id_ok: "server_inv s \<longleftrightarrow> (\<forall>i. id_ok s i)"
  by (auto simp: server_inv_def id_ok_def)

lemma id_ok_frame:
  assumes "server_inv s" and "touches w r \<noteq> Some j"
  shows "id_ok (snd (serve w r s)) j"
  using assms(1)
  by (simp add: id_ok_def upload_ok_def file_ok_def serve_frame [OF assms] server_inv_def)

lemma create_id_ok:
  assumes "fresh_id s w" and "io_random w = Some i"
  shows "id_ok (snd (createUpload w n z m s)) i"
  using assms
  by (auto simp: createUpload_def finishUpload_def registerFile_def Let_def fresh_id_def
      id_ok_def upload_ok_def file_ok_def split: option.splits)

lemma putChunk_id_ok:
  assumes inv: "id_ok s i" and u: "uploads s i = Some u"
  shows "id_ok (snd (putChunk w i u off body s)) i"
proof -
  from inv u have ok: "us_path u = Part i" "files s i = None"
    "\<And>p. disk s (Part i) = Some p \<Longrightarrow> length p \<le> Suc (us_size u)"
    by (auto simp: id_ok_def upload_ok_def)
  show ?thesis
    using inv u ok
    by (auto simp: putChunk_def finishUpload_def registerFile_def Let_def id_ok_def upload_ok_def
        file_ok_def split: option.splits)
qed

lemma session_id_ok:
  assumes "id_ok s i"
  shows "id_ok (snd (handleUploadSession w r i s)) i"
proof (cases "uploads s i")
  case None
  with assms show ?thesis
    by (simp add: handleUploadSession_def split: option.splits)
next
  case (Some u)
  from assms Some have u: "us_path u = Part i" by (simp add: id_ok_def upload_ok_def)
  show ?thesis
  proof (cases r)
    case (ReqPut j off body)
    with assms Some show ?thesis by (simp add: handleUploadSession_def putChunk_id_ok)
  next
    case (ReqDelete j)
    with assms Some u show ?thesis by (simp add: handleUploadSession_def id_ok_def upload_ok_def)
  qed (use assms Some in \<open>simp_all add: handleUploadSession_def split: option.splits\<close>)
qed

lemma serve_id_ok:
  assumes "server_inv s" and "fresh_id s w" and "touches w r = Some i"
  shows "id_ok (snd (serve w r s)) i"
proof -
  from assms(1) have "id_ok s i" by (simp add: server_inv_id_ok)
  with assms(2,3) show ?thesis
    by (cases r) (simp_all add: serve_def touches_def session_id_ok create_id_ok)
qed

lemma serve_inv:
  assumes "server_inv s" and "fresh_id s w"
  shows "server_inv (snd (serve w r s))"
proof -
  have "id_ok (snd (serve w r s)) i" for i
    using serve_id_ok [OF assms] id_ok_frame [OF assms(1)] by (cases "touches w r = Some i") auto
  then show ?thesis by (simp add: server_inv_id_ok)
qed

text \<open>The exact lengths.\<close>

lemma putChunk_sized:
  assumes "id_ok s i" and "uploads s i = Some u"
  shows "sized (snd (putChunk w i u off body s)) i"
    and "io_truncate w \<Longrightarrow> within s i \<Longrightarrow> within (snd (putChunk w i u off body s)) i"
proof -
  from assms have ok: "us_path u = Part i" "files s i = None" by (simp_all add: id_ok_def upload_ok_def)
  show "sized (snd (putChunk w i u off body s)) i"
    using assms(2) ok
    by (auto simp: putChunk_def finishUpload_def registerFile_def Let_def sized_def split: option.splits)
  show "within (snd (putChunk w i u off body s)) i" if "io_truncate w" "within s i"
    using assms(2) ok that
    by (auto simp: putChunk_def finishUpload_def registerFile_def Let_def within_def split: option.splits)
qed

lemma serve_sized:
  assumes inv: "server_inv s" and fresh: "fresh_id s w"
  shows "sized s i \<Longrightarrow> sized (snd (serve w r s)) i"
    and "io_truncate w \<Longrightarrow> within s i \<Longrightarrow> within (snd (serve w r s)) i"
proof -
  have ok: "id_ok s i" using inv by (simp add: server_inv_id_ok)
  have "(sized s i \<longrightarrow> sized (snd (serve w r s)) i) \<and> (io_truncate w \<longrightarrow> within s i \<longrightarrow> within (snd (serve w r s)) i)"
  proof (cases "touches w r = Some i")
    case False
    then show ?thesis by (simp add: sized_def within_def serve_frame [OF inv])
  next
    case True
    show ?thesis
    proof (cases "request_target r")
      case None
      with True fresh show ?thesis
        by (cases r)
          (auto simp: touches_def serve_def createUpload_def finishUpload_def registerFile_def Let_def fresh_id_def
            sized_def within_def split: option.splits)
    next
      case (Some j)
      with True have j: "j = i" by (simp add: touches_def)
      show ?thesis
      proof (cases "uploads s i")
        case None
        with Some j show ?thesis
          by (cases r) (auto simp: serve_def handleUploadSession_def split: option.splits)
      next
        case u: (Some u)
        with ok have path: "us_path u = Part i" "files s i = None" by (simp_all add: id_ok_def upload_ok_def)
        show ?thesis
        proof (cases r)
          case (ReqPut k off body)
          with Some j u putChunk_sized [OF ok u] show ?thesis
            by (simp add: serve_def handleUploadSession_def)
        qed (use Some j u path in \<open>auto simp: serve_def handleUploadSession_def sized_def within_def split: option.splits\<close>)
      qed
    qed
  qed
  then show "sized s i \<Longrightarrow> sized (snd (serve w r s)) i"
    and "io_truncate w \<Longrightarrow> within s i \<Longrightarrow> within (snd (serve w r s)) i" by simp_all
qed

text \<open>
  C15. The hub's index stays sound: after any request, with any outcome of the file
  system (ignored errors of a truncation or a removal included) and any break of the body, an unfinished upload still has its own part file, and is not listed as
  finished; its part file is at most one octet longer than the declared size, and not longer at all if it was not before and a truncation does not fail.
  A finished one has a file under its id, of exactly the registered size if it had it before the request or was finished by it.
\<close>

theorem serve_keeps_inv:
  assumes "server_inv s" and "fresh_id s w"
  shows "server_inv (snd (serve w r s))
    \<and> (\<forall>i. (sized s i \<longrightarrow> sized (snd (serve w r s)) i)
        \<and> (io_truncate w \<and> within s i \<longrightarrow> within (snd (serve w r s)) i))"
  using serve_inv [OF assms] serve_sized [OF assms] by simp

definition empty_server :: "nat \<Rightarrow> server" where
  "empty_server mx = \<lparr>disk = Map.empty, files = Map.empty, uploads = Map.empty,
     maxUploadBytes = mx, clock = 0\<rparr>"

lemma server_inv_empty [simp]: "server_inv (empty_server mx)"
  by (simp add: server_inv_def empty_server_def)

text \<open>An upload of one octet, and a chunk of two, with a truncation that fails.\<close>

definition stuck_io :: io where
  "stuck_io = \<lparr>io_authorized = True, io_random = Some (replicate 32 97), io_create = True,
      io_open = True, io_rename = True, io_truncate = False, io_remove = False, io_close = None, io_break = None\<rparr>"

definition overlong_server :: server where
  "overlong_server = snd (serve stuck_io (ReqCreate [97] 1 []) (empty_server 100))"

lemma stuck_fresh: "fresh_id (empty_server 100) stuck_io"
  by (simp add: fresh_id_def empty_server_def stuck_io_def isHexFileID_def list_all_iff is_hex_def)

theorem serve_keeps_inv_witness:
  "server_inv (snd (serve (stuck_io\<lparr>io_random := None\<rparr>) (ReqPut (replicate 32 97) (Some 0) [1, 2]) overlong_server))
    \<and> slot_at (snd (serve (stuck_io\<lparr>io_random := None\<rparr>) (ReqPut (replicate 32 97) (Some 0) [1, 2]) overlong_server)) (replicate 32 97)
      = Partial 1 [1, 2]"
proof -
  have "server_inv overlong_server"
    unfolding overlong_server_def using serve_inv [OF server_inv_empty stuck_fresh] .
  moreover have "fresh_id overlong_server (stuck_io\<lparr>io_random := None\<rparr>)" by (simp add: fresh_id_def)
  ultimately have "server_inv (snd (serve (stuck_io\<lparr>io_random := None\<rparr>) (ReqPut (replicate 32 97) (Some 0) [1, 2]) overlong_server))"
    using serve_keeps_inv [of overlong_server "stuck_io\<lparr>io_random := None\<rparr>" "ReqPut (replicate 32 97) (Some 0) [1, 2]"] by simp
  moreover have "isHexFileID (replicate 32 97)" by (simp add: isHexFileID_def list_all_iff is_hex_def)
  ultimately show ?thesis
    by (simp add: overlong_server_def stuck_io_def empty_server_def serve_def createUpload_def handleUploadSession_def
        putChunk_def slot_at_def UploadChunkSize_def Let_def)
qed

lemma purge_keeps_inv: "server_inv s \<Longrightarrow> server_inv (purgeExpiredFiles stuck ttl s)"
  unfolding server_inv_def upload_ok_def file_ok_def purgeExpiredFiles_def purgeStaleUploads_def Let_def
  by (auto split: option.splits if_splits)

lemma purge_sized: "sized s i \<Longrightarrow> sized (purgeExpiredFiles stuck ttl s) i"
  unfolding sized_def purgeExpiredFiles_def purgeStaleUploads_def Let_def
  by (auto split: option.splits if_splits)

lemma purge_kept:
  assumes "server_inv s"
  shows "kept (slot_at s i) (slot_at (purgeExpiredFiles stuck ttl s) i)"
  using assms
  by (auto simp: server_inv_def kept_cases slot_at_def purgeExpiredFiles_def purgeStaleUploads_def
      upload_ok_def Let_def split: option.splits)

section \<open>Forms and restarts\<close>

lemma save_part_frame:
  assumes "io_random w \<noteq> Some j"
  shows "uploads (snd (save_part w p s)) j = uploads s j" "files (snd (save_part w p s)) j = files s j"
    "disk (snd (save_part w p s)) (Part j) = disk s (Part j)" "disk (snd (save_part w p s)) (Final j) = disk s (Final j)"
  using assms
  by (auto simp: save_part_def registerFile_def Let_def split: option.split copy_end.split)

lemma save_part_id_ok:
  assumes "id_ok s i" and "fresh_id s w" and "io_random w = Some i"
  shows "id_ok (snd (save_part w p s)) i"
  using assms
  by (simp add: save_part_def registerFile_def id_ok_def fresh_id_def upload_ok_def file_ok_def Let_def split: copy_end.split option.split)

lemma handleUpload_cases:
  "snd (handleUpload w meth form s) = s \<or> (\<exists>p. snd (handleUpload w meth form s) = snd (save_part w p s))"
proof -
  have "snd (upload_parts w ps s) = s \<or> (\<exists>p. snd (upload_parts w ps s) = snd (save_part w p s))" for ps
    by (induction w ps s rule: upload_parts.induct) auto
  then show ?thesis by (auto simp: handleUpload_def split: option.split)
qed

lemma form_frame:
  assumes "io_random w \<noteq> Some j"
  shows "uploads (snd (handleUpload w meth form s)) j = uploads s j"
    "files (snd (handleUpload w meth form s)) j = files s j"
    "disk (snd (handleUpload w meth form s)) (Part j) = disk s (Part j)"
    "disk (snd (handleUpload w meth form s)) (Final j) = disk s (Final j)"
  using handleUpload_cases [of w meth form s] save_part_frame [OF assms, of _ s] by auto

lemma form_slot: "io_random w \<noteq> Some j \<Longrightarrow> slot_at (snd (handleUpload w meth form s)) j = slot_at s j"
  unfolding slot_at_def by (simp only: form_frame not_False_eq_True)

lemma form_keeps_inv:
  assumes "server_inv s" and "fresh_id s w"
  shows "server_inv (snd (handleUpload w meth form s))"
proof -
  have ok: "id_ok s j" for j using assms(1) by (simp add: server_inv_id_ok)
  have other: "id_ok (snd (handleUpload w meth form s)) j" if "io_random w \<noteq> Some j" for j
    using ok [of j] by (simp add: id_ok_def upload_ok_def file_ok_def form_frame [OF that])
  have "id_ok (snd (handleUpload w meth form s)) j" if "io_random w = Some j" for j
    using handleUpload_cases [of w meth form s] save_part_id_ok [OF ok assms(2) that] ok by auto
  with other show ?thesis by (auto simp: server_inv_id_ok)
qed

lemma restart_keeps_inv: "server_inv (restart stuck s)"
  by (simp add: server_inv_def restart_def)

lemma form_sized: "io_random w \<noteq> Some j \<Longrightarrow> sized s j \<Longrightarrow> sized (snd (handleUpload w meth form s)) j"
  by (simp add: sized_def form_frame)

lemma restart_sized: "sized (restart stuck s) i"
  by (simp add: sized_def restart_def)

lemma restart_slot: "slot_at (restart stuck s) i = Absent"
  by (simp add: slot_at_def restart_def)

lemma form_limit [simp]: "maxUploadBytes (snd (handleUpload w meth form s)) = maxUploadBytes s"
  using handleUpload_cases [of w meth form s]
  by (auto simp: save_part_def registerFile_def Let_def split: option.splits copy_end.splits)

lemma restart_limit [simp]: "maxUploadBytes (restart stuck s) = maxUploadBytes s"
  by (simp add: restart_def)

section \<open>How one's own requests change the slot\<close>

lemma slot_partial:
  "uploads s i = Some u \<Longrightarrow> disk s (Part i) = Some p \<Longrightarrow> slot_at s i = Partial (us_size u) p"
  by (simp add: slot_at_def)

lemma slot_finished:
  assumes "finishUpload w i u s = (Some f, s')" and "us_path u = Part i" and "disk s (Part i) = Some c"
  shows "slot_at s' i = Complete c"
    and "f = \<lparr>fileId = i, fr_name = us_name u, fr_size = us_size u, fr_mime = us_mime u\<rparr>"
  using assms by (auto simp: finishUpload_def registerFile_def slot_at_def Let_def split: if_splits)

lemma finish_failed: "finishUpload w i u s = (None, s') \<Longrightarrow> s' = s"
  by (auto simp: finishUpload_def registerFile_def Let_def split: if_splits)

text \<open>
  The octets \<open>putChunk\<close> copies are a leading piece of the body, at most one over the limit, and
  the state in which they are stored.
\<close>

definition put_limit :: "upload_session \<Rightarrow> byte list \<Rightarrow> int" where
  "put_limit u p = min (int UploadChunkSize) (int (us_size u) - int (length p))"

definition arriving :: "io \<Rightarrow> byte list \<Rightarrow> byte list" where
  "arriving w body = (case io_break w of None \<Rightarrow> body | Some k \<Rightarrow> take k body)"

definition put_copied :: "io \<Rightarrow> upload_session \<Rightarrow> byte list \<Rightarrow> byte list \<Rightarrow> byte list" where
  "put_copied w u p body = take (nat (put_limit u p + 1)) (arriving w body)"

definition put_broken :: "io \<Rightarrow> upload_session \<Rightarrow> byte list \<Rightarrow> byte list \<Rightarrow> bool" where
  "put_broken w u p body \<longleftrightarrow>
     io_break w \<noteq> None \<and> length (arriving w body) < nat (put_limit u p + 1)"

definition put_saved :: "jstr \<Rightarrow> upload_session \<Rightarrow> byte list \<Rightarrow> server \<Rightarrow> server" where
  "put_saved i u content s =
     s\<lparr>disk := (disk s)(Part i := Some content),
       uploads := (uploads s)(i := Some (u\<lparr>us_updatedAt := clock s\<rparr>))\<rparr>"

lemma put_copied_prefix: "\<exists>k. put_copied w u p body = take k body"
  by (cases "io_break w") (auto simp: put_copied_def arriving_def take_take)

lemma put_copied_fits:
  "int (length (put_copied w u p body)) \<le> put_limit u p \<Longrightarrow> put_copied w u p body = arriving w body"
  by (simp add: put_copied_def min_def split: if_splits)

lemma put_saved_slot: "slot_at (put_saved i u c s) i = Partial (us_size u) c"
  by (simp add: put_saved_def slot_at_def)

lemma putChunk_eq:
  assumes "us_path u = Part i" and "disk s (Part i) = Some p"
  shows "putChunk w i u off body s =
    (let cp = put_copied w u p body in
     if off \<noteq> Some (length p) then ((409, stateResponse i (length p) (us_size u) None), s)
     else if \<not> io_open w then (httpText 500 (lit ''cannot save file''), s)
     else if int (length cp) > put_limit u p
     then (httpText 413 (lit ''chunk exceeds declared size''), put_saved i u (if io_truncate w then p else p @ cp) s)
     else if put_broken w u p body
     then (httpText 400 (lit ''chunk interrupted''), put_saved i u (p @ cp) s)
     else if length p + length cp = us_size u
     then (case finishUpload w i (u\<lparr>us_updatedAt := clock s\<rparr>) (put_saved i u (p @ cp) s) of
             (None, s2) \<Rightarrow> (httpText 500 (lit ''cannot save file''), s2)
           | (Some f, s2) \<Rightarrow> ((200, stateResponse i (length p + length cp) (us_size u) (Some f)), s2))
     else ((200, stateResponse i (length p + length cp) (us_size u) None), put_saved i u (p @ cp) s))"
proof -
  have truncated: "(if io_truncate w then put_saved i u (p @ cp) s
      \<lparr>disk := (disk (put_saved i u (p @ cp) s))(Part i := Some (take (length p) (p @ cp)))\<rparr> else put_saved i u (p @ cp) s)
    = put_saved i u (if io_truncate w then p else p @ cp) s" for cp
    by (simp add: put_saved_def)
  show ?thesis
    unfolding putChunk_def assms option.case Let_def put_limit_def [symmetric]
      arriving_def [symmetric] put_copied_def [symmetric] put_saved_def [symmetric] put_broken_def [symmetric] truncated ..
qed

text \<open>What a PUT that passes the checks leaves behind, and what it answers.\<close>

definition put_good :: "jstr \<Rightarrow> nat option \<Rightarrow> byte list \<Rightarrow> slot \<Rightarrow> (nat \<times> json_data) \<times> server \<Rightarrow> bool" where
  "put_good i off body v res \<longleftrightarrow>
     appended off body v (slot_at (snd res) i) \<and>
     (fst (fst res) \<in> {200, 409} \<longrightarrow>
        (\<exists>st. snd (fst res) = JObj st \<and> reports i st (slot_at (snd res) i)))"

lemma finish_put_good:
  assumes u: "us_path u = Part i" and size: "length p + length body = us_size u"
    and s1: "s1 = put_saved i u (p @ body) s" and off: "off = Some (length p)"
  shows "put_good i off body (Partial (us_size u) p)
    (case finishUpload w i (u\<lparr>us_updatedAt := clock s\<rparr>) s1 of
       (None, s2) \<Rightarrow> (httpText 500 (lit ''cannot save file''), s2)
     | (Some f, s2) \<Rightarrow> ((200, stateResponse i n (us_size u) (Some f)), s2))"
proof -
  obtain r s2 where fin: "finishUpload w i (u\<lparr>us_updatedAt := clock s\<rparr>) s1 = (r, s2)"
    by (cases "finishUpload w i (u\<lparr>us_updatedAt := clock s\<rparr>) s1")
  show ?thesis
  proof (cases r)
    case None
    with finish_failed fin have "s2 = s1" by blast
    with None fin s1 off size show ?thesis
      by (auto simp: put_good_def httpText_def put_saved_slot intro: exI [of _ "length body"])
  next
    case (Some f)
    with fin have f: "finishUpload w i (u\<lparr>us_updatedAt := clock s\<rparr>) s1 = (Some f, s2)" by simp
    have "disk s1 (Part i) = Some (p @ body)" by (simp add: s1 put_saved_def)
    from slot_finished [OF f _ this] u have "slot_at s2 i = Complete (p @ body)"
      and "f = \<lparr>fileId = i, fr_name = us_name u, fr_size = us_size u, fr_mime = us_mime u\<rparr>"
      by simp_all
    with f off size show ?thesis
      by (simp add: put_good_def stateResponse_def)
  qed
qed

lemma putChunk_good:
  assumes ok: "id_ok s i" and u: "uploads s i = Some u" and p: "disk s (Part i) = Some p"
  shows "put_good i off body (Partial (us_size u) p) (putChunk w i u off body s)"
proof -
  let ?cp = "put_copied w u p body"
  from ok u have path: "us_path u = Part i" by (simp add: id_ok_def upload_ok_def)
  have sl: "slot_at s i = Partial (us_size u) p" using u p by (rule slot_partial)
  obtain k where k: "?cp = take k body" using put_copied_prefix by blast
  have left: "put_good i off body (Partial (us_size u) p) ((code, d), put_saved i u (if io_truncate w then p else p @ ?cp) s)"
    if "code \<notin> {200, 409}" "off = Some (length p)" for code d
    using that k by (auto simp: put_good_def put_saved_slot)
  consider "off \<noteq> Some (length p)" | "off = Some (length p)" "\<not> io_open w"
    | "off = Some (length p)" "io_open w" "int (length ?cp) > put_limit u p"
    | "off = Some (length p)" "io_open w" "int (length ?cp) \<le> put_limit u p"
    by linarith
  then show ?thesis
  proof cases
    case 1
    then show ?thesis
      by (simp add: putChunk_eq [OF path p] put_good_def sl stateResponse_def)
  next
    case 2
    then show ?thesis
      by (simp add: putChunk_eq [OF path p] put_good_def sl httpText_def)
  next
    case 3
    then show ?thesis
      using left by (simp add: putChunk_eq [OF path p] httpText_def Let_def)
  next
    case 4
    have grown: "appended off body (Partial (us_size u) p) (Partial (us_size u) (p @ ?cp))"
      using 4 k by auto
    have whole: "?cp = body" if "\<not> put_broken w u p body"
      using that put_copied_fits [OF 4(3)] 4(3) by (auto simp: put_broken_def arriving_def)
    show ?thesis
    proof (cases "put_broken w u p body")
      case True
      with 4 grown show ?thesis
        by (simp add: putChunk_eq [OF path p] put_good_def put_saved_slot httpText_def Let_def)
    next
      case False
      show ?thesis
      proof (cases "length p + length ?cp = us_size u")
        case True
        with False 4 whole [OF False] finish_put_good [OF path _ refl 4(1), where body = body] show ?thesis
          by (simp add: putChunk_eq [OF path p] Let_def)
      next
        case partial: False
        with False 4 grown show ?thesis
          by (simp add: putChunk_eq [OF path p] put_good_def put_saved_slot stateResponse_def Let_def)
      qed
    qed
  qed
qed

lemma put_good_same:
  assumes "code \<notin> {200, 409}"
  shows "put_good i off body (slot_at s i) ((code, d), s)"
  using assms by (simp add: put_good_def)

lemma slot_complete:
  assumes "server_inv s" and "sized s i" and "uploads s i = None" and "fileResponseFor i s = Some f"
  shows "\<exists>c. slot_at s i = Complete c \<and> fileId f = i \<and> fr_size f = length c"
  using assms server_inv_file [OF assms(1), of i]
  by (auto simp: fileResponseFor_def file_ok_def sized_def slot_at_def split: option.splits)

lemma serve_put:
  assumes inv: "server_inv s" and exact: "sized s i"
  shows "put_good i off body (slot_at s i) (serve w (ReqPut i off body) s)"
proof (cases "io_authorized w \<and> isHexFileID i")
  case False
  then show ?thesis
    using put_good_same by (auto simp: serve_def handleUploadSession_def httpText_def)
next
  case True
  show ?thesis
  proof (cases "uploads s i")
    case None
    show ?thesis
    proof (cases "fileResponseFor i s")
      case (Some f)
      from slot_complete [OF inv exact None Some] obtain c
        where "slot_at s i = Complete c" "fileId f = i" "fr_size f = length c" by blast
      with True None Some show ?thesis
        by (simp add: serve_def handleUploadSession_def put_good_def stateResponse_def)
    qed (use True None put_good_same in
      \<open>simp add: serve_def handleUploadSession_def httpText_def\<close>)
  next
    case (Some u)
    have ok: "id_ok s i" using inv by (simp add: server_inv_id_ok)
    then have path: "us_path u = Part i" using Some by (simp add: id_ok_def upload_ok_def)
    have eq: "serve w (ReqPut i off body) s = putChunk w i u off body s"
      using True Some by (simp add: serve_def handleUploadSession_def)
    show ?thesis
    proof (cases "disk s (Part i)")
      case None
      with path put_good_same show ?thesis
        by (simp add: eq putChunk_def httpText_def)
    next
      case p: (Some p)
      with putChunk_good [OF ok Some p] slot_partial [OF Some p] show ?thesis by (simp add: eq)
    qed
  qed
qed

lemma serve_state:
  assumes inv: "server_inv s"
  shows "snd (serve w (ReqState i) s) = s"
    and "sized s i \<Longrightarrow> fst (serve w (ReqState i) s) = (200, d) \<Longrightarrow>
      \<exists>st. d = JObj st \<and> uploadId st = Some i \<and> reports i st (slot_at s i)"
proof -
  have path: "us_path u = Part i" if "uploads s i = Some u" for u
    using server_inv_upload [OF inv that] by (simp add: upload_ok_def)
  show "snd (serve w (ReqState i) s) = s"
    by (simp add: serve_def handleUploadSession_def split: option.splits)
  assume exact: "sized s i" and *: "fst (serve w (ReqState i) s) = (200, d)"
  then have a: "io_authorized w" "isHexFileID i"
    by (auto simp: serve_def handleUploadSession_def httpText_def split: if_splits)
  show "\<exists>st. d = JObj st \<and> uploadId st = Some i \<and> reports i st (slot_at s i)"
  proof (cases "uploads s i")
    case (Some u)
    with * a path show ?thesis
      by (auto simp: serve_def handleUploadSession_def httpText_def stateResponse_def slot_partial
          split: option.splits)
  next
    case None
    with * a obtain f where f: "fileResponseFor i s = Some f"
      and d: "d = stateResponse i (fr_size f) (fr_size f) (Some f)"
      by (auto simp: serve_def handleUploadSession_def httpText_def split: option.splits)
    from slot_complete [OF inv exact None f] d show ?thesis by (auto simp: stateResponse_def)
  qed
qed

lemma serve_create:
  assumes fresh: "fresh_id s w" and "serve w (ReqCreate name n mime) s = ((201, d), s')"
  shows "\<exists>st i. io_random w = Some i \<and> d = JObj st \<and> uploadId st = Some i \<and> chunkSize st = Some UploadChunkSize \<and>
     slot_at s' i = (if n = 0 then Complete [] else Partial n []) \<and> reports i st (slot_at s' i)"
proof -
  from assms(2) obtain i where i: "io_random w = Some i" and w: "io_authorized w" "io_create w"
    by (auto simp: serve_def createUpload_def httpText_def split: if_splits option.splits)
  show ?thesis
  proof (cases "n = 0")
    case False
    with assms i w show ?thesis
      by (auto simp: serve_def createUpload_def httpText_def stateResponse_def Let_def slot_at_def
          split: if_splits)
  next
    case True
    with assms i w show ?thesis
      by (auto simp: serve_def createUpload_def finishUpload_def registerFile_def httpText_def
          stateResponse_def Let_def slot_at_def fresh_id_def split: if_splits)
  qed
qed

end
