(* ===== verification/Upload_Net.thy ===== *)
theory Upload_Net
  imports Upload_Slots
begin

text \<open>
  The hub behind a faulty network.  \<open>net_ask\<close> is one request of the page: first whatever else
  happens at the hub (time passes, the clean-up task runs, the hub is started again, other devices send their requests and forms),
  then the delivery.  The \<open>script\<close> says for each request in turn what happens; when it is used up,
  the network is calm.  Ids come from two pools, the page's own and other devices', because
  \<open>randomID\<close> never gives two uploads the same id.

  The theory ends with the interpretation of the upload interface on this model.
\<close>

section \<open>The network\<close>

datatype env_op =
    Elapse nat
  | Purge "fpath list" nat
  | Restart "fpath list"
  | Foreign io request
  | ForeignForm io "form_step list option"

text \<open>
  What becomes of one request: answered; never sent; carried out with the answer lost; aborted by
  the user, carried out by the hub or not.
\<close>

datatype delivery = Answered io | Unsent | AnswerLost io | Aborted "io option"

record net =
  hub :: server
  script :: "(env_op list \<times> delivery) list"
  naps :: "bool list"
  calm :: io
  own_ids :: "jstr list"
  foreign_ids :: "jstr list"

text \<open>The next id of a pool; an empty pool is a failing random source.\<close>

fun draw :: "jstr list \<Rightarrow> jstr option \<times> jstr list" where
  "draw [] = (None, [])"
| "draw (i # is) = (Some i, is)"

fun run_env :: "env_op \<Rightarrow> net \<Rightarrow> net" where
  "run_env (Elapse k) n = n\<lparr>hub := (hub n)\<lparr>clock := clock (hub n) + k\<rparr>\<rparr>"
| "run_env (Purge stuck ttl) n = n\<lparr>hub := purgeExpiredFiles stuck ttl (hub n)\<rparr>"
| "run_env (Restart stuck) n = n\<lparr>hub := restart stuck (hub n)\<rparr>"
| "run_env (ForeignForm w form) n =
     (let (i, rest) = draw (foreign_ids n) in
      n\<lparr>hub := snd (handleUpload (w\<lparr>io_random := i\<rparr>) (lit ''POST'') form (hub n)), foreign_ids := rest\<rparr>)"
| "run_env (Foreign w r) n =
     (let (i, rest) = draw (foreign_ids n) in
      n\<lparr>hub := snd (serve (w\<lparr>io_random := i\<rparr>) r (hub n)), foreign_ids := rest\<rparr>)"

definition handle :: "io \<Rightarrow> request \<Rightarrow> net \<Rightarrow> (nat \<times> json_data) \<times> net" where
  "handle w r n =
     (let (i, rest) = draw (own_ids n);
          (res, s) = serve (w\<lparr>io_random := i\<rparr>) r (hub n)
      in (res, n\<lparr>hub := s, own_ids := rest\<rparr>))"

fun deliver :: "delivery \<Rightarrow> request \<Rightarrow> net \<Rightarrow> xhr_result \<times> net" where
  "deliver (Answered w) r n = (let ((code, d), n') = handle w r n in (XOk code d, n'))"
| "deliver Unsent r n = (XError, n)"
| "deliver (AnswerLost w) r n = (XError, snd (handle w r n))"
| "deliver (Aborted None) r n = (XAbort, n)"
| "deliver (Aborted (Some w)) r n = (XAbort, snd (handle w r n))"

definition net_ask :: "request \<Rightarrow> net \<Rightarrow> xhr_result \<times> net" where
  "net_ask r n =
     (case script n of
        [] \<Rightarrow> deliver (Answered (calm n)) r n
      | (ops, d) # rest \<Rightarrow> deliver d r (fold run_env ops (n\<lparr>script := rest\<rparr>)))"

text \<open>A pause of the page; the answer says whether the user cancelled meanwhile.\<close>

definition net_nap :: "nat \<Rightarrow> net \<Rightarrow> bool \<times> net" where
  "net_nap ms n = (case naps n of [] \<Rightarrow> (False, n) | b # bs \<Rightarrow> (b, n\<lparr>naps := bs\<rparr>))"

section \<open>Assumptions on the environment\<close>

text \<open>No other device sends a request about the upload \<open>i\<close>.\<close>

fun spares :: "jstr \<Rightarrow> env_op \<Rightarrow> bool" where
  "spares i (Foreign w r) = (request_target r \<noteq> Some i)"
| "spares i _ = True"

definition exclusive :: "jstr \<Rightarrow> net \<Rightarrow> bool" where
  "exclusive i n \<longleftrightarrow> (\<forall>(ops, d) \<in> set (script n). \<forall>op \<in> set ops. spares i op)"

definition unused :: "server \<Rightarrow> jstr \<Rightarrow> bool" where
  "unused s i \<longleftrightarrow> isHexFileID i \<and> uploads s i = None \<and> files s i = None"

text \<open>
  An id of the page's own uploads: nobody else sends requests about it, it is not given out again, and a file
  under it has its registered length (it does not come from a form).
\<close>

definition net_owned :: "net \<Rightarrow> jstr \<Rightarrow> bool" where
  "net_owned n i \<longleftrightarrow> exclusive i n \<and> i \<notin> set (own_ids n) \<and> i \<notin> set (foreign_ids n) \<and> sized (hub n) i"

definition net_ready :: "net \<Rightarrow> bool" where
  "net_ready n \<longleftrightarrow>
     server_inv (hub n) \<and> distinct (own_ids n @ foreign_ids n) \<and>
     (\<forall>i \<in> set (own_ids n @ foreign_ids n). unused (hub n) i) \<and>
     (\<forall>i \<in> set (own_ids n). exclusive i n)"

section \<open>Every step keeps them\<close>

lemma unused_serve:
  assumes "server_inv s" and "unused s j" and "touches w r \<noteq> Some j \<or> request_target r = Some j"
  shows "unused (snd (serve w r s)) j"
proof (cases "request_target r = Some j")
  case True
  with assms(2) show ?thesis
    by (cases r)
      (auto simp: unused_def serve_def handleUploadSession_def fileResponseFor_def)
next
  case False
  with assms(2,3) show ?thesis by (simp add: unused_def serve_frame [OF assms(1)])
qed

lemma unused_serve_fresh:
  assumes "server_inv s" and "unused s j" and "io_random w \<noteq> Some j"
  shows "unused (snd (serve w r s)) j"
proof (rule unused_serve [OF assms(1,2)])
  show "touches w r \<noteq> Some j \<or> request_target r = Some j"
    using assms(3) by (cases "request_target r") (auto simp: touches_def)
qed

lemma draw_cases:
  obtains "is = []" "draw is = (None, [])" | i rest where "is = i # rest" "draw is = (Some i, rest)"
  by (cases "is") auto

lemma fresh_draw:
  assumes "\<forall>i \<in> set is. unused s i"
  shows "fresh_id s (w\<lparr>io_random := fst (draw is)\<rparr>)"
  using assms by (cases "is") (auto simp: fresh_id_def unused_def)

lemma draw_rest: "set (snd (draw is)) \<subseteq> set is" "distinct is \<Longrightarrow> distinct (snd (draw is))"
  by (cases "is"; auto)+

lemma draw_not_rest: "distinct is \<Longrightarrow> fst (draw is) = Some i \<Longrightarrow> i \<notin> set (snd (draw is))"
  by (cases "is") auto

lemma draw_mem: "fst (draw is) = Some i \<Longrightarrow> i \<in> set is"
  by (cases "is") auto

lemma exclusive_frame [simp]:
  "exclusive i (n\<lparr>hub := s\<rparr>) = exclusive i n"
  "exclusive i (n\<lparr>own_ids := a\<rparr>) = exclusive i n"
  "exclusive i (n\<lparr>foreign_ids := a\<rparr>) = exclusive i n"
  by (simp_all add: exclusive_def)

lemma foreign_ready:
  assumes "net_ready n" and "server_inv s"
    and "\<And>j. unused (hub n) j \<Longrightarrow> fst (draw (foreign_ids n)) \<noteq> Some j \<Longrightarrow> unused s j"
  shows "net_ready (n\<lparr>hub := s, foreign_ids := snd (draw (foreign_ids n))\<rparr>)"
proof -
  have un: "\<forall>i \<in> set (own_ids n @ foreign_ids n). unused (hub n) i"
    and dist: "distinct (own_ids n)" "distinct (foreign_ids n)" "set (own_ids n) \<inter> set (foreign_ids n) = {}"
    using assms(1) by (auto simp: net_ready_def)
  have "unused s j" if "j \<in> set (own_ids n) \<union> set (snd (draw (foreign_ids n)))" for j
    using that un dist draw_rest(1) [of "foreign_ids n"] draw_not_rest [of "foreign_ids n"]
      draw_mem [of "foreign_ids n"]
    by (intro assms(3)) auto
  with assms(1,2) dist draw_rest [of "foreign_ids n"] show ?thesis by (auto simp: net_ready_def)
qed

lemma run_env_ready:
  assumes "net_ready n"
  shows "net_ready (run_env op n)"
proof (cases op)
  case (Elapse k)
  with assms show ?thesis
    by (simp add: net_ready_def server_inv_def upload_ok_def file_ok_def unused_def)
next
  case (Purge stuck ttl)
  have "unused (purgeExpiredFiles stuck ttl (hub n)) i" if "unused (hub n) i" for i
    using that by (simp add: unused_def purgeExpiredFiles_def purgeStaleUploads_def Let_def)
  with Purge assms show ?thesis by (simp add: net_ready_def purge_keeps_inv)
next
  case (Restart stuck)
  with assms restart_keeps_inv show ?thesis by (simp add: net_ready_def unused_def restart_def)
next
  case (Foreign w r)
  let ?w = "w\<lparr>io_random := fst (draw (foreign_ids n))\<rparr>"
  have inv: "server_inv (hub n)" and fresh: "fresh_id (hub n) ?w"
    using assms by (auto simp: net_ready_def intro!: fresh_draw)
  from foreign_ready [OF assms serve_inv [OF inv fresh, of r]] unused_serve_fresh [OF inv, of _ ?w r] Foreign
  show ?thesis by (simp add: split_beta Let_def)
next
  case (ForeignForm w form)
  let ?w = "w\<lparr>io_random := fst (draw (foreign_ids n))\<rparr>"
  have inv: "server_inv (hub n)" and fresh: "fresh_id (hub n) ?w"
    using assms by (auto simp: net_ready_def intro!: fresh_draw)
  have "unused (snd (handleUpload ?w (lit ''POST'') form (hub n))) j"
    if "unused (hub n) j" "fst (draw (foreign_ids n)) \<noteq> Some j" for j
    using that by (simp add: unused_def form_frame)
  from foreign_ready [OF assms form_keeps_inv [OF inv fresh, of "lit ''POST''" form] this] ForeignForm
  show ?thesis by (simp add: split_beta Let_def)
qed

lemma fold_env_ready: "net_ready n \<Longrightarrow> net_ready (fold run_env ops n)"
  by (induction ops arbitrary: n) (simp_all add: run_env_ready)

lemma handle_ready:
  assumes "net_ready n"
  shows "net_ready (snd (handle w r n))"
proof -
  let ?i = "fst (draw (own_ids n))" and ?rest = "snd (draw (own_ids n))"
  from assms have inv: "server_inv (hub n)"
    and un: "\<forall>i \<in> set (foreign_ids n). unused (hub n) i" "\<forall>i \<in> set (own_ids n). unused (hub n) i"
    and dist: "distinct (own_ids n)" "distinct (foreign_ids n)" "set (own_ids n) \<inter> set (foreign_ids n) = {}"
    by (auto simp: net_ready_def)
  have inv': "server_inv (snd (serve (w\<lparr>io_random := ?i\<rparr>) r (hub n)))"
    using inv fresh_draw [OF un(2)] by (rule serve_inv)
  have "unused (snd (serve (w\<lparr>io_random := ?i\<rparr>) r (hub n))) j"
    if "j \<in> set (foreign_ids n) \<union> set ?rest" for j
    using that un dist draw_rest(1) [of "own_ids n"] draw_not_rest [of "own_ids n"]
      draw_mem [of "own_ids n"]
    by (intro unused_serve_fresh [OF inv]) auto
  with inv' assms dist draw_rest [of "own_ids n"] show ?thesis
    by (auto simp: net_ready_def handle_def split_beta Let_def)
qed

lemma run_env_frame [simp]:
  "script (run_env op n) = script n" "own_ids (run_env op n) = own_ids n"
  "naps (run_env op n) = naps n" "calm (run_env op n) = calm n"
  by (cases op; simp add: split_beta Let_def)+

lemma fold_env_frame [simp]:
  "script (fold run_env ops n) = script n" "own_ids (fold run_env ops n) = own_ids n"
  "naps (fold run_env ops n) = naps n" "calm (fold run_env ops n) = calm n"
  by (induction ops arbitrary: n) simp_all

lemma foreign_ids_env: "set (foreign_ids (fold run_env ops n)) \<subseteq> set (foreign_ids n)"
proof (induction ops arbitrary: n)
  case (Cons op ops)
  have "set (foreign_ids (run_env op n)) \<subseteq> set (foreign_ids n)"
    using draw_rest(1) by (cases op) (auto simp: split_beta Let_def)
  with Cons [of "run_env op n"] show ?case by auto
qed simp

lemma handle_frame [simp]:
  "script (snd (handle w r n)) = script n" "foreign_ids (snd (handle w r n)) = foreign_ids n"
  "naps (snd (handle w r n)) = naps n" "calm (snd (handle w r n)) = calm n"
  by (simp_all add: handle_def split_beta Let_def)

lemma own_ids_handle: "set (own_ids (snd (handle w r n))) \<subseteq> set (own_ids n)"
  using draw_rest(1) by (auto simp: handle_def split_beta Let_def)

lemma deliver_handles:
  "snd (deliver d r n) = n \<or> (\<exists>w. snd (deliver d r n) = snd (handle w r n))"
  by (cases "(d, r, n)" rule: deliver.cases) (auto simp: split_beta Let_def)

lemma deliver_ready: "net_ready n \<Longrightarrow> net_ready (snd (deliver d r n))"
  using deliver_handles [of d r n] handle_ready [of n _ r] by auto

text \<open>An own file keeps its registered length.\<close>

lemma run_env_sized:
  assumes "net_ready n" and "i \<notin> set (foreign_ids n)" and "sized (hub n) i"
  shows "sized (hub (run_env op n)) i"
proof -
  from assms(1) have inv: "server_inv (hub n)" by (simp add: net_ready_def)
  have fresh: "fresh_id (hub n) (w\<lparr>io_random := fst (draw (foreign_ids n))\<rparr>)" for w
    using assms(1) by (intro fresh_draw) (simp add: net_ready_def)
  have other: "io_random (w\<lparr>io_random := fst (draw (foreign_ids n))\<rparr>) \<noteq> Some i" for w
    using assms(2) draw_mem [of "foreign_ids n" i] by auto
  show ?thesis
  proof (cases op)
    case (Elapse k)
    with assms(3) show ?thesis by (simp add: sized_def)
  next
    case (Purge stuck ttl)
    with assms(3) purge_sized show ?thesis by simp
  next
    case (Restart stuck)
    then show ?thesis by (simp add: restart_sized)
  next
    case (Foreign w r)
    from serve_sized(1) [OF inv fresh assms(3)] Foreign show ?thesis by (simp add: split_beta Let_def)
  next
    case (ForeignForm w form)
    from form_sized [OF other assms(3)] ForeignForm show ?thesis by (simp add: split_beta Let_def)
  qed
qed

lemma fold_env_sized:
  "net_ready n \<Longrightarrow> i \<notin> set (foreign_ids n) \<Longrightarrow> sized (hub n) i \<Longrightarrow> sized (hub (fold run_env ops n)) i"
proof (induction ops arbitrary: n)
  case (Cons op ops)
  have "i \<notin> set (foreign_ids (run_env op n))"
    using foreign_ids_env [of "[op]" n] Cons.prems(2) by auto
  with Cons show ?case by (simp add: run_env_ready run_env_sized)
qed simp

lemma handle_sized: "net_ready n \<Longrightarrow> sized (hub n) i \<Longrightarrow> sized (hub (snd (handle w r n))) i"
proof -
  assume ready: "net_ready n" and ok: "sized (hub n) i"
  have "fresh_id (hub n) (w\<lparr>io_random := fst (draw (own_ids n))\<rparr>)"
    using ready by (intro fresh_draw) (simp add: net_ready_def)
  from serve_sized(1) [OF _ this ok] ready show ?thesis by (simp add: handle_def split_beta Let_def net_ready_def)
qed

text \<open>The state in which the hub receives the next request.\<close>

definition arrival :: "net \<Rightarrow> net" where
  "arrival n =
     (case script n of [] \<Rightarrow> n | (ops, d) # rest \<Rightarrow> fold run_env ops (n\<lparr>script := rest\<rparr>))"

definition next_delivery :: "net \<Rightarrow> delivery" where
  "next_delivery n = (case script n of [] \<Rightarrow> Answered (calm n) | (ops, d) # rest \<Rightarrow> d)"

lemma net_ask_arrival: "net_ask r n = deliver (next_delivery n) r (arrival n)"
  by (auto simp: net_ask_def arrival_def next_delivery_def split: list.splits)

lemma tail_ready: "script n = e # rest \<Longrightarrow> net_ready n \<Longrightarrow> net_ready (n\<lparr>script := rest\<rparr>)"
  by (auto simp: net_ready_def exclusive_def)

lemma arrival_ready: "net_ready n \<Longrightarrow> net_ready (arrival n)"
  by (auto simp: arrival_def tail_ready fold_env_ready split: list.splits)

lemma exclusive_script: "script m = script n \<Longrightarrow> exclusive i m = exclusive i n"
  by (simp add: exclusive_def)

lemma arrival_owned:
  assumes "net_ready n" and "net_owned n i"
  shows "net_owned (arrival n) i"
proof (cases "script n")
  case Nil
  with assms show ?thesis by (simp add: arrival_def)
next
  case (Cons e rest)
  obtain ops d where e: "e = (ops, d)" by (cases e)
  have "sized (hub (fold run_env ops (n\<lparr>script := rest\<rparr>))) i"
    using assms(2) by (intro fold_env_sized [OF tail_ready [OF Cons assms(1)]]) (simp_all add: net_owned_def)
  moreover have "exclusive i (n\<lparr>script := rest\<rparr>)"
    using assms Cons by (auto simp: net_owned_def exclusive_def)
  then have "exclusive i (fold run_env ops (n\<lparr>script := rest\<rparr>))"
    by (subst exclusive_script [of _ "n\<lparr>script := rest\<rparr>"]) simp_all
  ultimately show ?thesis
    using assms Cons e foreign_ids_env [of ops "n\<lparr>script := rest\<rparr>"]
    by (auto simp: arrival_def net_owned_def)
qed

lemma handle_owned: "net_ready n \<Longrightarrow> net_owned n i \<Longrightarrow> net_owned (snd (handle w r n)) i"
  using own_ids_handle [of w r n] exclusive_script [of "snd (handle w r n)" n i] handle_sized [of n i w r]
  by (auto simp: net_owned_def)

lemma deliver_owned: "net_ready n \<Longrightarrow> net_owned n i \<Longrightarrow> net_owned (snd (deliver d r n)) i"
  using deliver_handles [of d r n] handle_owned [of n i _ r] by auto

section \<open>What is stored for one's own id\<close>

definition net_view :: "net \<Rightarrow> jstr \<Rightarrow> slot" where
  "net_view n i = slot_at (hub n) i"

lemma run_env_view:
  assumes "net_ready n" and "spares i op" and "i \<notin> set (foreign_ids n)"
  shows "kept (net_view n i) (net_view (run_env op n) i)"
proof -
  from assms(1) have inv: "server_inv (hub n)" by (simp add: net_ready_def)
  show ?thesis
  proof (cases op)
    case (Elapse k)
    then show ?thesis by (simp add: net_view_def slot_at_def split: option.split)
  next
    case (Purge stuck ttl)
    with purge_kept [OF inv] show ?thesis by (simp add: net_view_def)
  next
    case (Restart stuck)
    then show ?thesis by (simp add: net_view_def restart_slot kept_cases)
  next
    case (ForeignForm w form)
    have "io_random (w\<lparr>io_random := fst (draw (foreign_ids n))\<rparr>) \<noteq> Some i"
      using assms(3) draw_mem [of "foreign_ids n" i] by auto
    from form_slot [OF this] ForeignForm show ?thesis by (simp add: net_view_def split_beta Let_def)
  next
    case (Foreign w r)
    have "touches (w\<lparr>io_random := fst (draw (foreign_ids n))\<rparr>) r \<noteq> Some i"
      using assms(2,3) Foreign draw_mem [of "foreign_ids n" i]
      by (auto simp: touches_def split: option.splits)
    from slot_frame [OF inv this] Foreign show ?thesis
      by (simp add: net_view_def split_beta Let_def)
  qed
qed

text \<open>Without the clean-up task the hub keeps what it has.\<close>

fun no_purge :: "env_op \<Rightarrow> bool" where
  "no_purge (Purge stuck ttl) = False"
| "no_purge (Restart stuck) = False"
| "no_purge _ = True"

lemma run_env_same:
  assumes "net_ready n" and "spares i op" and "i \<notin> set (foreign_ids n)" and "no_purge op"
  shows "net_view (run_env op n) i = net_view n i"
proof (cases op)
  case (Elapse k)
  then show ?thesis by (simp add: net_view_def slot_at_def split: option.split)
next
  case (Foreign w r)
  have "server_inv (hub n)" using assms(1) by (simp add: net_ready_def)
  moreover have "touches (w\<lparr>io_random := fst (draw (foreign_ids n))\<rparr>) r \<noteq> Some i"
    using assms(2,3) Foreign draw_mem [of "foreign_ids n" i]
    by (auto simp: touches_def split: option.splits)
  ultimately show ?thesis
    using slot_frame Foreign by (simp add: net_view_def split_beta Let_def)
next
  case (ForeignForm w form)
  have "io_random (w\<lparr>io_random := fst (draw (foreign_ids n))\<rparr>) \<noteq> Some i"
    using assms(3) draw_mem [of "foreign_ids n" i] by auto
  from form_slot [OF this] ForeignForm show ?thesis by (simp add: net_view_def split_beta Let_def)
qed (use assms(4) in simp_all)

lemma fold_env_same:
  assumes "net_ready n" and "\<forall>op \<in> set ops. spares i op \<and> no_purge op" and "i \<notin> set (foreign_ids n)"
  shows "net_view (fold run_env ops n) i = net_view n i"
  using assms
proof (induction ops arbitrary: n)
  case (Cons op ops)
  have "i \<notin> set (foreign_ids (run_env op n))"
    using foreign_ids_env [of "[op]" n] Cons.prems(3) by auto
  with Cons show ?case by (simp add: run_env_ready run_env_same)
qed simp

lemma fold_env_view:
  assumes "net_ready n" and "\<forall>op \<in> set ops. spares i op" and "i \<notin> set (foreign_ids n)"
  shows "kept (net_view n i) (net_view (fold run_env ops n) i)"
  using assms
proof (induction ops arbitrary: n)
  case (Cons op ops)
  have "i \<notin> set (foreign_ids (run_env op n))"
    using foreign_ids_env [of "[op]" n] Cons.prems(3) by auto
  with Cons have "kept (net_view (run_env op n) i) (net_view (fold run_env ops (run_env op n)) i)"
    by (simp add: run_env_ready)
  with run_env_view [of n i op] Cons.prems show ?case
    by (auto intro: kept_trans)
qed simp

lemma arrival_view:
  assumes "net_ready n" and "net_owned n i"
  shows "kept (net_view n i) (net_view (arrival n) i)"
proof (cases "script n")
  case Nil
  then show ?thesis by (simp add: arrival_def)
next
  case (Cons e rest)
  obtain ops d where e: "e = (ops, d)" by (cases e)
  have "kept (net_view (n\<lparr>script := rest\<rparr>) i) (net_view (fold run_env ops (n\<lparr>script := rest\<rparr>)) i)"
    using assms Cons e tail_ready [OF Cons assms(1)]
    by (intro fold_env_view) (auto simp: net_owned_def exclusive_def)
  with Cons e show ?thesis by (simp add: arrival_def net_view_def)
qed

lemma arrival_same:
  assumes "net_ready n" and "net_owned n i"
    and "\<And>ops d rest. script n = (ops, d) # rest \<Longrightarrow> \<forall>op \<in> set ops. no_purge op"
  shows "net_view (arrival n) i = net_view n i"
proof (cases "script n")
  case Nil
  then show ?thesis by (simp add: arrival_def)
next
  case (Cons e rest)
  obtain ops d where e: "e = (ops, d)" by (cases e)
  have "net_view (fold run_env ops (n\<lparr>script := rest\<rparr>)) i = net_view (n\<lparr>script := rest\<rparr>) i"
    using assms Cons e tail_ready [OF Cons assms(1)]
    by (intro fold_env_same) (auto simp: net_owned_def exclusive_def)
  with Cons e show ?thesis by (simp add: arrival_def net_view_def)
qed

lemma handle_put:
  assumes "net_ready n" and "net_owned n i"
  shows "put_good i off body (net_view n i) (fst (handle w (ReqPut i off body) n), hub (snd (handle w (ReqPut i off body) n)))"
proof -
  from assms have inv: "server_inv (hub n)" and exact: "sized (hub n) i" by (simp_all add: net_ready_def net_owned_def)
  show ?thesis
    using serve_put [OF inv exact, of off body "w\<lparr>io_random := fst (draw (own_ids n))\<rparr>"]
    by (simp add: handle_def split_beta Let_def net_view_def)
qed

lemma deliver_put_view:
  assumes "net_ready n" and "net_owned n i"
  shows "appended off body (net_view n i) (net_view (snd (deliver d (ReqPut i off body) n)) i)"
proof -
  have "appended off body (net_view n i) (net_view (snd (handle w (ReqPut i off body) n)) i)" for w
    using handle_put [OF assms, of off body w] by (simp add: put_good_def net_view_def)
  then show ?thesis
    using deliver_handles [of d "ReqPut i off body" n] by auto
qed

lemma deliver_answer:
  assumes "deliver d r n = (XOk code data, n')"
  obtains w where "d = Answered w" "handle w r n = ((code, data), n')"
  using assms by (cases "(d, r, n)" rule: deliver.cases) (auto simp: split_beta Let_def prod_eq_iff)

lemma deliver_put_report:
  assumes "net_ready n" and "net_owned n i" and "deliver d (ReqPut i off body) n = (XOk code data, n')" and "code \<in> {200, 409}"
  shows "\<exists>st. data = JObj st \<and> reports i st (net_view n' i)"
proof -
  from assms(3) obtain w where "handle w (ReqPut i off body) n = ((code, data), n')"
    by (rule deliver_answer)
  with handle_put [OF assms(1,2), of off body w] assms(4) show ?thesis
    by (auto simp: put_good_def net_view_def)
qed

lemma deliver_state_view:
  assumes "net_ready n"
  shows "net_view (snd (deliver d (ReqState i) n)) i = net_view n i"
proof -
  from assms have inv: "server_inv (hub n)" by (simp add: net_ready_def)
  have "hub (snd (handle w (ReqState i) n)) = hub n" for w
    by (simp add: handle_def split_beta Let_def serve_state(1) [OF inv])
  then show ?thesis
    using deliver_handles [of d "ReqState i" n] by (auto simp: net_view_def)
qed

lemma deliver_state_report:
  assumes "net_ready n" and "net_owned n i" and "deliver d (ReqState i) n = (XOk 200 data, n')"
  shows "\<exists>st. data = JObj st \<and> uploadId st = Some i \<and> reports i st (net_view n' i)"
proof -
  from assms(1,2) have inv: "server_inv (hub n)" and exact: "sized (hub n) i" by (simp_all add: net_ready_def net_owned_def)
  from assms(3) obtain w where h: "handle w (ReqState i) n = ((200, data), n')"
    by (rule deliver_answer)
  then have "fst (serve (w\<lparr>io_random := fst (draw (own_ids n))\<rparr>) (ReqState i) (hub n)) = (200, data)"
    and "hub n' = hub n"
    using serve_state(1) [OF inv] by (auto simp: handle_def split_beta Let_def prod_eq_iff)
  with serve_state(2) [OF inv exact] show ?thesis by (simp add: net_view_def)
qed

lemma deliver_create_report:
  assumes "net_ready n" and "deliver d (ReqCreate name sz mime) n = (XOk 201 data, n')"
  shows "\<exists>st i. data = JObj st \<and> uploadId st = Some i \<and> chunkSize st = Some UploadChunkSize \<and> net_owned n' i \<and>
    net_view n' i = (if sz = 0 then Complete [] else Partial sz []) \<and> reports i st (net_view n' i)"
proof -
  let ?w = "\<lambda>w. w\<lparr>io_random := fst (draw (own_ids n))\<rparr>"
  from assms(2) obtain w where h: "handle w (ReqCreate name sz mime) n = ((201, data), n')"
    by (rule deliver_answer)
  then have sv: "serve (?w w) (ReqCreate name sz mime) (hub n) = ((201, data), hub n')"
    and n': "own_ids n' = snd (draw (own_ids n))" "foreign_ids n' = foreign_ids n" "script n' = script n"
    by (auto simp: handle_def split_beta Let_def prod_eq_iff)
  have fresh: "fresh_id (hub n) (?w w)"
    using assms(1) by (intro fresh_draw) (simp add: net_ready_def)
  from serve_create [OF fresh sv] obtain st i where
    st: "fst (draw (own_ids n)) = Some i" "data = JObj st" "uploadId st = Some i"
      "chunkSize st = Some UploadChunkSize"
      "slot_at (hub n') i = (if sz = 0 then Complete [] else Partial sz [])" "reports i st (slot_at (hub n') i)"
    by auto
  have "sized (hub n) i"
    using draw_mem [OF st(1)] assms(1) by (simp add: net_ready_def unused_def sized_def)
  from serve_sized(1) [OF _ fresh this, of "ReqCreate name sz mime"] assms(1) sv have "sized (hub n') i"
    by (simp add: net_ready_def)
  then have "net_owned n' i"
    using assms(1) draw_mem [OF st(1)] draw_not_rest [OF _ st(1)] exclusive_script [of n' n i]
    by (auto simp: net_owned_def net_ready_def n')
  with st show ?thesis by (auto simp: net_view_def)
qed

section \<open>The hub behind the network provides the upload service\<close>

interpretation wire: upload_service net_ask net_view net_owned net_ready
proof unfold_locales
  fix n r i off body code data n' name sz mime
  assume ready: "net_ready n"
  then have arr: "net_ready (arrival n)" by (rule arrival_ready)
  show "net_ready (snd (net_ask r n))"
    unfolding net_ask_arrival using arr by (rule deliver_ready)
  show "\<exists>st i. data = JObj st \<and> uploadId st = Some i \<and> net_owned n' i \<and>
      (sz = 0 \<and> net_view n' i = Complete [] \<and> reports i st (net_view n' i) \<or>
       0 < sz \<and> net_view n' i = Partial sz [] \<and> reports i st (net_view n' i))"
    if "net_ask (ReqCreate name sz mime) n = (XOk 201 data, n')"
    using deliver_create_report [OF arr that [unfolded net_ask_arrival]]
    by (cases "sz = 0") fastforce+
  assume owned: "net_owned n i"
  with ready have arr_owned: "net_owned (arrival n) i" by (rule arrival_owned)
  have arr_view: "kept (net_view n i) (net_view (arrival n) i)"
    using ready owned by (rule arrival_view)
  show "net_owned (snd (net_ask r n)) i"
    unfolding net_ask_arrival using arr arr_owned by (rule deliver_owned)
  show "appended off body (net_view n i) (net_view (snd (net_ask (ReqPut i off body) n)) i)"
    unfolding net_ask_arrival using arr_view deliver_put_view [OF arr arr_owned] by (rule kept_appended)
  show "kept (net_view n i) (net_view (snd (net_ask (ReqState i) n)) i)"
    unfolding net_ask_arrival using arr_view deliver_state_view [OF arr] by simp
  show "\<exists>st. data = JObj st \<and> reports i st (net_view n' i)"
    if "net_ask (ReqPut i off body) n = (XOk code data, n')" "code \<in> {200, 409}"
    using deliver_put_report [OF arr arr_owned] that unfolding net_ask_arrival by blast
  show "\<exists>st. data = JObj st \<and> uploadId st = Some i \<and> reports i st (net_view n' i)"
    if "net_ask (ReqState i) n = (XOk 200 data, n')"
    using deliver_state_report [OF arr arr_owned] that unfolding net_ask_arrival by blast
qed

end
