(* ===== verification/Upload_EndToEnd.thy ===== *)
theory Upload_EndToEnd
  imports Upload_Net Upload_Client
begin

text \<open>
  The page's upload against the hub behind the faulty network: the interpretation of the client's
  locale on the model of both sides, exactness of a successful upload, resumption after a failed
  one, and success when the network fails a bounded number of times.
\<close>

interpretation page: upload_client net_ask net_view net_owned net_ready net_nap
  by unfold_locales
    (auto simp: net_nap_def net_view_def net_owned_def net_ready_def exclusive_def split: list.split)

section \<open>A run\<close>

text \<open>
  A concrete run, used as an example below: a file of three octets; the answer to the only chunk is
  lost, and the page finds out from the hub that the file is complete.
\<close>

definition demo_io :: io where
  "demo_io = \<lparr>io_authorized = True, io_random = None, io_create = True, io_open = True,
     io_rename = True, io_truncate = True, io_remove = True, io_close = None, io_break = None\<rparr>"

definition demo_file :: js_file where
  "demo_file = \<lparr>f_name = lit ''a.txt'', f_type = lit ''text/plain'', f_lastModified = 7,
     f_content = [1, 2, 3]\<rparr>"

definition demo_id :: jstr where
  "demo_id = replicate 32 97"

definition demo_net :: net where
  "demo_net = \<lparr>hub = empty_server 100,
     script = [([], Answered demo_io), ([Elapse 5], AnswerLost demo_io)],
     naps = [], calm = demo_io, own_ids = [demo_id], foreign_ids = []\<rparr>"

definition demo_storage :: storage where
  "demo_storage = \<lparr>readable = True, writable = True, items = Map.empty\<rparr>"

lemma demo_id_hex: "isHexFileID demo_id"
  by (simp add: demo_id_def isHexFileID_def list_all_iff is_hex_def)

lemma demo_ready: "net_ready demo_net"
  by (auto simp: net_ready_def demo_net_def unused_def exclusive_def demo_id_hex)
    (simp_all add: empty_server_def)

lemma demo_resumable: "resumable net_owned net_view file demo_storage demo_net"
  by (simp add: resumable_def demo_storage_def storageGet_def)

lemma demo_run:
  "\<exists>out f. uploadResumable net_ask net_nap demo_file demo_storage demo_net = Some out \<and> result out = Inr f"
  by (simp add: uploadResumable_def openUploadSession_def createSession_def storageGet_def
      upload_loop_def while_option_unfold start_run_def put_chunk_def recover_def chunk_body_def slice_def
      text_of_def network_error_def UPLOAD_MAX_RETRIES_def f_size_def
      demo_storage_def demo_net_def demo_file_def demo_io_def empty_server_def demo_id_hex
      net_ask_def net_nap_def handle_def serve_def createUpload_def handleUploadSession_def
      putChunk_def finishUpload_def registerFile_def fileResponseFor_def stateResponse_def
      UploadChunkSize_def)
    (simp add: Let_def)

section \<open>Exactness\<close>

lemma slot_complete_file:
  assumes "server_inv s" and "sized s i" and "slot_at s i = Complete c"
  shows "\<exists>r. files s i = Some r \<and> disk s (rec_Path r) = Some c \<and> rec_Size r = length c"
  using assms server_inv_file [OF assms(1), of i]
  by (auto simp: slot_at_def file_ok_def sized_def split: option.splits)

text \<open>
  C1. A successful upload delivered exactly the file.  Whatever the network does to
  the requests (lost, answered but the answer lost, broken off in the middle of a chunk), whatever
  the file system refuses, whatever other devices, the clean-up task and restarts do in between: when \<open>uploadResumable\<close> returns a file
  id, the hub has a registered file of that id whose octets are those of the file, and the size it
  reports is the file's.  The assumptions: ids drawn by \<open>randomID\<close> do not repeat and nobody else sends requests about the ids of
  this page's uploads (\<open>net_ready\<close>); and when the run goes on with a saved session, its id is one of these, and what is stored
  under it is a leading piece of this very file, declared with its size (\<open>resumable\<close>).  The storage key has only the name, the size and the time of the last
  change, so a saved session of another file with the same three (\<open>storeKey_collision\<close>) is excluded here.
\<close>

theorem upload_exact:
  assumes "net_ready n" and "resumable net_owned net_view file st n"
    and "uploadResumable net_ask net_nap file st n = Some out" and "result out = Inr f"
  shows "\<exists>r. files (hub (final_world out)) (fileId f) = Some r
    \<and> disk (hub (final_world out)) (rec_Path r) = Some (f_content file)
    \<and> rec_Size r = f_size file \<and> fr_size f = f_size file"
proof -
  have inv: "server_inv (hub (final_world out))"
    using page.stays_resumable [OF assms(1-3)] by (simp add: net_ready_def)
  have exact: "sized (hub (final_world out)) (fileId f)"
    using page.uploads_exactly(3) [OF assms] by (simp add: net_owned_def)
  have "slot_at (hub (final_world out)) (fileId f) = Complete (f_content file)"
    and "fr_size f = f_size file"
    using page.uploads_exactly [OF assms] by (simp_all add: net_view_def)
  with slot_complete_file [OF inv exact] show ?thesis by (auto simp: f_size_def)
qed

theorem upload_exact_witness:
  "\<exists>out f r. uploadResumable net_ask net_nap demo_file demo_storage demo_net = Some out \<and> result out = Inr f
    \<and> files (hub (final_world out)) (fileId f) = Some r
    \<and> disk (hub (final_world out)) (rec_Path r) = Some [1, 2, 3]"
proof -
  obtain out f where run: "uploadResumable net_ask net_nap demo_file demo_storage demo_net = Some out"
    "result out = Inr f" using demo_run by blast
  from upload_exact [OF demo_ready demo_resumable this] run show ?thesis
    by (auto simp: demo_file_def)
qed

text \<open>
  C16. A run that fails, or that the user cancels, can be followed by
  another: what is left in storage is nothing, or the id of an upload whose stored octets are a
  leading piece of this very file.  So the assumption of exactness holds again after every run,
  and a chain of interrupted runs still uploads the file exactly.
\<close>

theorem upload_leaves_resumable:
  assumes "net_ready n" and "resumable net_owned net_view file st n"
    and "uploadResumable net_ask net_nap file st n = Some out"
  shows "net_ready (final_world out)
    \<and> resumable net_owned net_view file (saved out) (final_world out)"
  using page.stays_resumable [OF assms] .

theorem upload_leaves_resumable_witness:
  "\<exists>out. uploadResumable net_ask net_nap demo_file demo_storage demo_net = Some out
    \<and> net_ready (final_world out)
    \<and> resumable net_owned net_view demo_file (saved out) (final_world out)"
proof -
  obtain out where run: "uploadResumable net_ask net_nap demo_file demo_storage demo_net = Some out"
    using demo_run by blast
  from upload_leaves_resumable [OF demo_ready demo_resumable this] run show ?thesis by blast
qed

end
