(* ===== verification/Upload_Liveness.thy ===== *)
theory Upload_Liveness
  imports Upload_EndToEnd
begin

text \<open>
  When the page's upload succeeds.  The network may fail, the hub's file system may refuse and
  chunks may break off, but only for a bounded number of requests; the user does not cancel and the
  clean-up task does not run.  Then the loop ends, and it ends with the file.
\<close>

section \<open>Faults that are survivable\<close>

definition good_io :: "io \<Rightarrow> bool" where
  "good_io w \<longleftrightarrow> io_authorized w \<and> io_create w \<and> io_open w \<and> io_rename w \<and> io_break w = None"

fun tolerable :: "delivery \<Rightarrow> bool" where
  "tolerable (Answered w) = io_authorized w"
| "tolerable Unsent = True"
| "tolerable (AnswerLost w) = True"
| "tolerable (Aborted w) = False"

definition fair_script :: "(env_op list \<times> delivery) list \<Rightarrow> bool" where
  "fair_script sc \<longleftrightarrow> (\<forall>(ops, d) \<in> set sc. (\<forall>op \<in> set ops. no_purge op) \<and> tolerable d)"

definition fair_net :: "net \<Rightarrow> bool" where
  "fair_net n \<longleftrightarrow>
     net_ready n \<and> good_io (calm n) \<and> True \<notin> set (naps n) \<and> fair_script (script n)"

section \<open>The hub's answers when nothing is lost\<close>

lemma slot_uploading:
  assumes "server_inv s" and "slot_at s i = Partial m p"
  obtains u where "uploads s i = Some u" "us_path u = Part i" "us_size u = m"
    "disk s (Part i) = Some p" "id_ok s i"
proof -
  have ok: "id_ok s i" using assms(1) by (simp add: server_inv_id_ok)
  from assms(2) obtain u where u: "uploads s i = Some u" "us_size u = m" "disk s (Part i) = Some p"
    by (auto simp: slot_at_def split: option.splits)
  with ok show thesis
    by (intro that [of u]) (auto simp: id_ok_def upload_ok_def)
qed

lemma slot_finished_index:
  assumes "slot_at s i = Complete c"
  obtains r where "uploads s i = None" "files s i = Some r"
  using assms by (auto simp: slot_at_def split: option.splits)

definition fits :: "slot \<Rightarrow> nat option \<Rightarrow> byte list \<Rightarrow> bool" where
  "fits v off body \<longleftrightarrow>
     (\<forall>m p. v = Partial m p \<longrightarrow> off = Some (length p) \<longrightarrow>
        length body \<le> UploadChunkSize \<and> length p + length body \<le> m)"

lemma put_not_over:
  assumes "length body \<le> UploadChunkSize" and "length p + length body \<le> us_size u"
  shows "int (length (put_copied w u p body)) \<le> put_limit u p"
proof -
  have "length (arriving w body) \<le> length body"
    by (auto simp: arriving_def split: option.split)
  with assms show ?thesis by (auto simp: put_copied_def put_limit_def)
qed

lemma finish_alive:
  assumes "finishUpload w i u s = (r, s')" and "us_path u = Part i" and "uploads s i \<noteq> None"
    and "disk s (Part i) = Some c"
  shows "slot_at s' i \<noteq> Absent"
proof (cases r)
  case None
  with finish_failed assms(1) have "s' = s" by blast
  with assms(3,4) show ?thesis by (auto simp: slot_at_def)
next
  case (Some f)
  with slot_finished(1) [OF _ assms(2,4)] assms(1) show ?thesis by simp
qed

lemma serve_put_alive:
  assumes inv: "server_inv s" and alive: "slot_at s i \<noteq> Absent" and fit: "fits (slot_at s i) off body"
    and hex: "isHexFileID i"
  shows "slot_at (snd (serve w (ReqPut i off body) s)) i \<noteq> Absent"
    and "io_authorized w \<Longrightarrow> fst (fst (serve w (ReqPut i off body) s)) \<in> {200, 400, 409, 500}"
proof -
  have "slot_at (snd (serve w (ReqPut i off body) s)) i \<noteq> Absent \<and>
    (io_authorized w \<longrightarrow> fst (fst (serve w (ReqPut i off body) s)) \<in> {200, 400, 409, 500})"
  proof (cases "slot_at s i")
    case (Complete c)
    then obtain r where "uploads s i = None" "files s i = Some r" by (rule slot_finished_index)
    with Complete hex show ?thesis
      by (simp add: serve_def handleUploadSession_def fileResponseFor_def httpText_def)
  next
    case (Partial m p)
    then obtain u where u: "uploads s i = Some u" "us_path u = Part i" "us_size u = m"
      "disk s (Part i) = Some p" using slot_uploading [OF inv] by blast
    show ?thesis
    proof (cases "io_authorized w \<and> off = Some (length p)")
      case False
      with u hex Partial show ?thesis
        by (auto simp: serve_def handleUploadSession_def httpText_def putChunk_eq)
    next
      case True
      then have over: "int (length (put_copied w u p body)) \<le> put_limit u p"
        using fit Partial u(3) by (intro put_not_over) (auto simp: fits_def)
      let ?u = "u\<lparr>us_updatedAt := clock s\<rparr>" and ?s1 = "put_saved i u (p @ put_copied w u p body) s"
      obtain r s2 where fin: "finishUpload w i ?u ?s1 = (r, s2)" by (cases "finishUpload w i ?u ?s1")
      have "slot_at s2 i \<noteq> Absent"
        by (rule finish_alive [OF fin]) (simp_all add: u put_saved_def)
      with True u hex over fin Partial show ?thesis
        by (auto simp: serve_def handleUploadSession_def httpText_def putChunk_eq put_saved_slot Let_def
            split: option.splits)
    qed
  qed (use alive in simp)
  then show "slot_at (snd (serve w (ReqPut i off body) s)) i \<noteq> Absent"
    and "io_authorized w \<Longrightarrow> fst (fst (serve w (ReqPut i off body) s)) \<in> {200, 400, 409, 500}"
    by simp_all
qed

lemma serve_state_alive:
  assumes inv: "server_inv s" and alive: "slot_at s i \<noteq> Absent" and hex: "isHexFileID i"
    and auth: "io_authorized w"
  shows "\<exists>d. fst (serve w (ReqState i) s) = (200, JObj d)"
proof (cases "slot_at s i")
  case (Complete c)
  then obtain r where "uploads s i = None" "files s i = Some r" by (rule slot_finished_index)
  with hex auth show ?thesis
    by (simp add: serve_def handleUploadSession_def fileResponseFor_def stateResponse_def)
next
  case (Partial m p)
  then obtain u where "uploads s i = Some u" "us_path u = Part i" "disk s (Part i) = Some p"
    using slot_uploading [OF inv] by blast
  with hex auth show ?thesis
    by (simp add: serve_def handleUploadSession_def stateResponse_def)
qed (use alive in simp)

text \<open>A PUT under calm conditions: it is corrected, or moves on, or finds the file complete.\<close>

lemma serve_put_conflict:
  assumes "server_inv s" and "slot_at s i = Partial m p" and "isHexFileID i" and "good_io w"
    and "off \<noteq> Some (length p)"
  shows "serve w (ReqPut i off body) s = ((409, stateResponse i (length p) m None), s)"
proof -
  from slot_uploading [OF assms(1,2)] obtain u where "uploads s i = Some u" "us_path u = Part i"
    "us_size u = m" "disk s (Part i) = Some p" by blast
  with assms(3-5) show ?thesis
    by (simp add: serve_def handleUploadSession_def putChunk_eq good_io_def)
qed

lemma serve_put_complete:
  assumes "slot_at s i = Complete c" and "isHexFileID i" and "good_io w"
  shows "\<exists>f. serve w (ReqPut i off body) s = ((200, stateResponse i (fr_size f) (fr_size f) (Some f)), s)"
proof -
  from assms(1) obtain r where "uploads s i = None" "files s i = Some r"
    by (rule slot_finished_index)
  then obtain f where "fileResponseFor i s = Some f" and "uploads s i = None"
    by (simp add: fileResponseFor_def)
  with assms(2,3) have "serve w (ReqPut i off body) s
      = ((200, stateResponse i (fr_size f) (fr_size f) (Some f)), s)"
    by (simp add: serve_def handleUploadSession_def good_io_def)
  then show ?thesis by blast
qed

lemma serve_put_moves:
  assumes inv: "server_inv s" and sl: "slot_at s i = Partial m p" and "isHexFileID i" and good: "good_io w"
    and len: "length body \<le> UploadChunkSize" "length p + length body \<le> m"
  shows "if length p + length body = m
    then \<exists>f s'. serve w (ReqPut i (Some (length p)) body) s = ((200, stateResponse i m m (Some f)), s')
    else \<exists>s'. serve w (ReqPut i (Some (length p)) body) s
        = ((200, stateResponse i (length p + length body) m None), s') \<and> slot_at s' i = Partial m (p @ body)"
proof -
  from slot_uploading [OF inv sl] obtain u where u: "uploads s i = Some u" "us_path u = Part i"
    "us_size u = m" "disk s (Part i) = Some p" by blast
  have over: "int (length (put_copied w u p body)) \<le> put_limit u p"
    using len u(3) by (intro put_not_over) simp_all
  from put_copied_fits [OF this] good have cp: "put_copied w u p body = body"
    by (simp add: arriving_def good_io_def)
  have unbroken: "\<not> put_broken w u p body" using good by (simp add: put_broken_def good_io_def)
  let ?u = "u\<lparr>us_updatedAt := clock s\<rparr>" and ?s1 = "put_saved i u (p @ body) s"
  obtain f s2 where fin: "finishUpload w i ?u ?s1 = (Some f, s2)"
    using good u by (auto simp: finishUpload_def good_io_def put_saved_def registerFile_def Let_def)
  have eq: "serve w (ReqPut i (Some (length p)) body) s = putChunk w i u (Some (length p)) body s"
    using assms(3) good u by (simp add: serve_def handleUploadSession_def good_io_def)
  show ?thesis
  proof (cases "length p + length body = m")
    case True
    then have "serve w (ReqPut i (Some (length p)) body) s = ((200, stateResponse i m m (Some f)), s2)"
      using over cp unbroken fin good u
      by (simp add: eq putChunk_eq [OF u(2,4)] good_io_def Let_def)
    with True show ?thesis by auto
  next
    case False
    then show ?thesis
      using over cp unbroken good u
      by (simp add: eq putChunk_eq [OF u(2,4)] good_io_def put_saved_slot Let_def)
  qed
qed

section \<open>One request through a fair network\<close>

lemma fair_net_D:
  assumes "fair_net n"
  shows "net_ready n" and "good_io (calm n)" and "True \<notin> set (naps n)" and "fair_script (script n)"
  using assms by (simp_all add: fair_net_def)

lemma arrival_frame [simp]:
  "calm (arrival n) = calm n" "naps (arrival n) = naps n" "script (arrival n) = tl (script n)"
  by (auto simp: arrival_def split: list.split)

lemma next_tolerable: "fair_net n \<Longrightarrow> tolerable (next_delivery n)"
  by (auto simp: fair_net_def fair_script_def next_delivery_def good_io_def split: list.split)

lemma fair_arrival:
  assumes "fair_net n"
  shows "fair_net (arrival n)"
proof -
  have "fair_script (tl (script n))"
    using fair_net_D(4) [OF assms] by (cases "script n") (auto simp: fair_script_def)
  with assms show ?thesis by (simp add: fair_net_def arrival_ready)
qed

lemma fair_arrival_same:
  assumes "fair_net n" and "net_owned n i"
  shows "net_view (arrival n) i = net_view n i"
  using fair_net_D(1,4) [OF assms(1)] assms(2)
  by (intro arrival_same) (auto simp: fair_script_def)

lemma deliver_frame [simp]:
  "calm (snd (deliver d r n)) = calm n" "naps (snd (deliver d r n)) = naps n"
  "script (snd (deliver d r n)) = script n"
  using deliver_handles [of d r n] by (metis handle_frame)+

lemma fair_deliver: "fair_net n \<Longrightarrow> fair_net (snd (deliver d r n))"
  by (simp add: fair_net_def deliver_ready)

text \<open>The upload \<open>i\<close> is alive in a fair network, and stored for the file \<open>c\<close>.\<close>

definition alive :: "byte list \<Rightarrow> jstr \<Rightarrow> net \<Rightarrow> bool" where
  "alive c i n \<longleftrightarrow>
     fair_net n \<and> net_owned n i \<and> isHexFileID i \<and> net_view n i \<noteq> Absent \<and> agrees c (net_view n i)"

lemma alive_arrival: "alive c i n \<Longrightarrow> alive c i (arrival n)"
  by (simp add: alive_def fair_arrival arrival_owned fair_net_D(1) fair_arrival_same)

lemma alive_sound: "alive c i n \<Longrightarrow> page.sound c i n"
  by (simp add: alive_def page.sound_def fair_net_def)

lemma agrees_length: "agrees c (Partial m p) \<Longrightarrow> length p \<le> length c"
  by (metis agrees.simps(2) length_take min.cobounded1)

lemma chunk_fits:
  assumes "agrees (f_content file) v"
  shows "fits v off (chunk_body file off (Some UploadChunkSize))"
  using assms agrees_length by (fastforce simp: fits_def chunk_body_def f_size_def)

text \<open>A PUT keeps the upload alive, and its answer is one the loop goes on after.\<close>

lemma alive_put:
  assumes al: "alive (f_content file) i n"
    and ask: "net_ask (ReqPut i off (chunk_body file off (Some UploadChunkSize))) n = (x, n')"
  shows "alive (f_content file) i n' \<and> script n' = tl (script n) \<and>
    (x = XError \<or> (\<exists>code d. x = XOk code d \<and> code \<in> {200, 400, 409, 500}))"
proof -
  let ?body = "chunk_body file off (Some UploadChunkSize)" and ?m = "arrival n"
  have m: "alive (f_content file) i ?m" using al by (rule alive_arrival)
  then have inv: "server_inv (hub ?m)" and hex: "isHexFileID i" and sl: "slot_at (hub ?m) i \<noteq> Absent"
    and fit: "fits (slot_at (hub ?m) i) off ?body"
    by (simp_all add: alive_def fair_net_def net_ready_def net_view_def chunk_fits)
  have n': "n' = snd (deliver (next_delivery n) (ReqPut i off ?body) ?m)"
    and x: "x = fst (deliver (next_delivery n) (ReqPut i off ?body) ?m)"
    using ask by (simp_all add: net_ask_arrival)
  have still: "net_view (snd (handle w (ReqPut i off ?body) ?m)) i \<noteq> Absent" for w
    using serve_put_alive(1) [OF inv sl fit hex] by (simp add: handle_def split_beta Let_def net_view_def)
  have "net_view n' i \<noteq> Absent"
    using deliver_handles [of "next_delivery n" "ReqPut i off ?body" ?m] still m
    by (auto simp: n' alive_def)
  moreover have "fair_net n' \<and> net_owned n' i"
    using m by (simp add: n' alive_def fair_deliver deliver_owned fair_net_D(1))
  moreover have "agrees (f_content file) (net_view n' i)"
    using page.sound_put [OF alive_sound [OF al], of off "Some UploadChunkSize"] ask
    by (simp add: page.sound_def)
  ultimately have "alive (f_content file) i n'" using hex by (simp add: alive_def)
  moreover have "x = XError \<or> (\<exists>code d. x = XOk code d \<and> code \<in> {200, 400, 409, 500})"
  proof (cases "next_delivery n")
    case (Answered w)
    with next_tolerable [of n] al have "io_authorized w" by (simp add: alive_def)
    with serve_put_alive(2) [OF inv sl fit hex, of "w\<lparr>io_random := fst (draw (own_ids ?m))\<rparr>"]
    show ?thesis by (auto simp: x Answered handle_def split_beta Let_def)
  qed (use next_tolerable [of n] al in \<open>auto simp: x alive_def\<close>)
  ultimately show ?thesis by (simp add: n')
qed

lemma alive_state:
  assumes al: "alive c i n" and ask: "net_ask (ReqState i) n = (x, n')"
  shows "alive c i n' \<and> script n' = tl (script n) \<and> (x = XError \<or> (\<exists>d. x = XOk 200 (JObj d)))"
proof -
  let ?m = "arrival n"
  have m: "alive c i ?m" using al by (rule alive_arrival)
  then have inv: "server_inv (hub ?m)" and hex: "isHexFileID i" and sl: "slot_at (hub ?m) i \<noteq> Absent"
    by (simp_all add: alive_def fair_net_def net_ready_def net_view_def)
  have n': "n' = snd (deliver (next_delivery n) (ReqState i) ?m)"
    and x: "x = fst (deliver (next_delivery n) (ReqState i) ?m)"
    using ask by (simp_all add: net_ask_arrival)
  have "alive c i n'"
    using m deliver_state_view [of ?m "next_delivery n" i] fair_net_D(1)
    by (simp add: n' alive_def fair_deliver deliver_owned)
  moreover have "x = XError \<or> (\<exists>d. x = XOk 200 (JObj d))"
  proof (cases "next_delivery n")
    case (Answered w)
    with next_tolerable [of n] al have "io_authorized w" by (simp add: alive_def)
    with serve_state_alive [OF inv sl hex, of "w\<lparr>io_random := fst (draw (own_ids ?m))\<rparr>"]
    show ?thesis by (auto simp: x Answered handle_def split_beta Let_def)
  qed (use next_tolerable [of n] al in \<open>auto simp: x alive_def\<close>)
  ultimately show ?thesis by (simp add: n')
qed

lemma alive_nap: "alive c i n \<Longrightarrow> \<exists>n'. net_nap ms n = (False, n') \<and> alive c i n' \<and> script n' = script n"
  by (cases "naps n")
    (auto simp: net_nap_def alive_def fair_net_def net_ready_def net_owned_def net_view_def exclusive_def)

section \<open>The loop ends with the file\<close>

text \<open>
  The invariant: the upload is alive, nothing was thrown, and the failures so far together with the
  faults still to come are within the page's limit.
\<close>

definition going :: "js_file \<Rightarrow> jstr \<Rightarrow> net upload_run \<Rightarrow> bool" where
  "going file i r \<longleftrightarrow>
     alive (f_content file) i (world r) \<and> thrown r = None \<and>
     failures r + length (script (world r)) \<le> UPLOAD_MAX_RETRIES"

text \<open>What still has to be done: faults first, then octets, then a wrong offset.\<close>

definition stored_octets :: "js_file \<Rightarrow> slot \<Rightarrow> nat" where
  "stored_octets file v = (case v of Partial m p \<Rightarrow> length p | _ \<Rightarrow> f_size file)"

definition to_send :: "js_file \<Rightarrow> jstr \<Rightarrow> net upload_run \<Rightarrow> nat" where
  "to_send file i r =
     (let k = stored_octets file (net_view (world r) i) in
      if st_file (session r) \<noteq> None then 0
      else 2 * (f_size file - k) + (if offset r = Some k then 0 else 1) + 1)"

definition work_left :: "js_file \<Rightarrow> jstr \<Rightarrow> net upload_run \<Rightarrow> nat" where
  "work_left file i r = length (script (world r)) * (2 * f_size file + 3) + to_send file i r"

lemma to_send_bound: "to_send file i r < 2 * f_size file + 3"
proof -
  have "2 * (f_size file - k) \<le> 2 * f_size file" for k by simp
  then show ?thesis by (auto simp: to_send_def Let_def intro: le_less_trans)
qed

lemma work_left_shorter:
  assumes "length (script (world r')) < length (script (world r))"
  shows "work_left file i r' < work_left file i r"
proof -
  let ?k = "2 * f_size file + 3"
  from assms have "(length (script (world r')) + 1) * ?k \<le> length (script (world r)) * ?k"
    by (intro mult_le_mono1) simp
  moreover have "to_send file i r' < ?k" by (rule to_send_bound)
  ultimately show ?thesis by (simp add: work_left_def)
qed

lemma recover_going:
  assumes al: "alive (f_content file) i (world r)" and "thrown r = None" and "retryable err"
    and left: "failures r + 1 + length (script (world r)) \<le> UPLOAD_MAX_RETRIES"
  shows "going file i (recover net_ask net_nap i err r)
    \<and> length (script (world (recover net_ask net_nap i err r))) \<le> length (script (world r))"
proof -
  let ?ms = "min (1000 * 2 ^ failures r) 30000"
  from al obtain n where nap: "net_nap ?ms (world r) = (False, n)"
    and n: "alive (f_content file) i n" "script n = script (world r)"
    using alive_nap by blast
  obtain x n' where ask: "net_ask (ReqState i) n = (x, n')" by (cases "net_ask (ReqState i) n")
  have n': "alive (f_content file) i n'" "script n' = tl (script n)"
    "x = XError \<or> (\<exists>d. x = XOk 200 (JObj d))"
    using alive_state [OF n(1) ask] by simp_all
  have "err \<noteq> AbortError" using assms(3) by auto
  then show ?thesis
    using assms n(2) nap ask n' by (auto simp: recover_def going_def Let_def)
qed

lemma put_chunk_faulty:
  assumes "going file i r" and "script (world r) \<noteq> []"
  shows "going file i (put_chunk net_ask net_nap i (Some UploadChunkSize) file r)
    \<and> length (script (world (put_chunk net_ask net_nap i (Some UploadChunkSize) file r)))
        < length (script (world r))"
proof -
  let ?body = "chunk_body file (offset r) (Some UploadChunkSize)"
  obtain x n' where ask: "net_ask (ReqPut i (offset r) ?body) (world r) = (x, n')"
    by (cases "net_ask (ReqPut i (offset r) ?body) (world r)")
  from assms(1) have al: "alive (f_content file) i (world r)" by (simp add: going_def)
  let ?r1 = "r\<lparr>progress := progress r @ [(offset r, None)], world := n'\<rparr>"
  have n': "alive (f_content file) i n'" "script n' = tl (script (world r))"
    "x = XError \<or> (\<exists>code d. x = XOk code d \<and> code \<in> {200, 400, 409, 500})"
    using alive_put [OF al ask] by simp_all
  have short: "length (script n') < length (script (world r))" using assms(2) n'(2) by simp
  have rec: "going file i (recover net_ask net_nap i err ?r1)
      \<and> length (script (world (recover net_ask net_nap i err ?r1))) < length (script (world r))"
    if "retryable err" for err
  proof -
    have "going file i (recover net_ask net_nap i err ?r1)
      \<and> length (script (world (recover net_ask net_nap i err ?r1))) \<le> length (script (world ?r1))"
      using n'(1) assms(1) short that by (intro recover_going) (auto simp: going_def)
    with short show ?thesis by simp
  qed
  consider "x = XError" | code d where "x = XOk code d" "code \<in> {400, 500}"
    | code d where "x = XOk code d" "code \<in> {200, 409}"
    using n'(3) by blast
  then show ?thesis
  proof cases
    case 1
    with ask rec [of network_error] show ?thesis
      by (simp add: put_chunk_def network_error_def Let_def)
  next
    case 2
    with rec [of "httpError code d [0x4E0A, 0x4F20, 0x5931, 0x8D25]"] ask show ?thesis
      by (auto simp: put_chunk_def httpError_def Let_def)
  next
    case 3
    from page.told_put [OF alive_sound [OF al] ask [unfolded 3(1)]] 3(2) obtain st where "data_fields d = Some st"
      using wire.put_report [OF _ _ ask [unfolded 3(1)] 3(2)] al
      by (auto simp: alive_def fair_net_def)
    with 3 ask n' short assms show ?thesis
      by (auto simp: put_chunk_def going_def Let_def)
  qed
qed

text \<open>With a calm network, every round moves on.\<close>

text \<open>An answer that is taken over and leaves less to send.\<close>

definition closer :: "js_file \<Rightarrow> jstr \<Rightarrow> net upload_run \<Rightarrow> net \<Rightarrow> xhr_result \<Rightarrow> bool" where
  "closer file i r n' x \<longleftrightarrow>
     (\<exists>code st. x = XOk code (JObj st) \<and> (code = 200 \<or> code = 409)
        \<and> (st_file st \<noteq> None \<or> 2 * (f_size file - stored_octets file (net_view n' i)) + 1
             + (if st_offset st = Some (stored_octets file (net_view n' i)) then 0 else 1) < to_send file i r))"

lemma closer_round:
  assumes "going file i r" and "script (world r) = []" and "st_file (session r) = None"
    and ask: "net_ask (ReqPut i (offset r) (chunk_body file (offset r) (Some UploadChunkSize))) (world r) = (x, n')"
    and "closer file i r n' x"
  shows "going file i (put_chunk net_ask net_nap i (Some UploadChunkSize) file r)
    \<and> work_left file i (put_chunk net_ask net_nap i (Some UploadChunkSize) file r) < work_left file i r"
proof -
  obtain code st where x: "x = XOk code (JObj st)" "code = 200 \<or> code = 409"
    and less: "st_file st \<noteq> None \<or> 2 * (f_size file - stored_octets file (net_view n' i)) + 1
      + (if st_offset st = Some (stored_octets file (net_view n' i)) then 0 else 1) < to_send file i r"
    using assms(5) by (auto simp: closer_def)
  have "alive (f_content file) i n'" "script n' = []"
    using alive_put [OF _ ask] assms(1,2) by (simp_all add: going_def)
  moreover have "put_chunk net_ask net_nap i (Some UploadChunkSize) file r =
      r\<lparr>progress := progress r @ [(offset r, None)], world := n', session := st,
        offset := st_offset st, failures := (if code = 200 then 0 else failures r)\<rparr>"
    using x ask by (simp add: put_chunk_def Let_def)
  moreover have "0 < to_send file i r" using assms(3) by (simp add: to_send_def Let_def)
  ultimately show ?thesis
    using less assms(1-3) by (auto simp: going_def work_left_def to_send_def Let_def)
qed

text \<open>A chunk at the offset of the hub: it is stored, and the last one finishes the upload.\<close>

lemma chunk_closer:
  assumes inv: "server_inv (hub (world r))" and partial: "slot_at (hub (world r)) i = Partial (f_size file) p"
    and hex: "isHexFileID i" and good: "good_io w" and off: "offset r = Some (length p)" and p: "length p \<le> f_size file"
    and new: "st_file (session r) = None"
    and answer: "\<And>code d s'. serve w (ReqPut i (offset r) (chunk_body file (offset r) (Some UploadChunkSize))) (hub (world r)) = ((code, d), s')
      \<Longrightarrow> x = XOk code d \<and> hub n' = s'"
  shows "closer file i r n' x"
proof -
  let ?body = "chunk_body file (offset r) (Some UploadChunkSize)" and ?m = "f_size file"
  have body: "length ?body = min UploadChunkSize (?m - length p)" using off by (simp add: chunk_body_def f_size_def)
  have "length ?body \<le> UploadChunkSize" and "length p + length ?body \<le> ?m" using body p by simp_all
  note moves = serve_put_moves [OF inv partial hex good this]
  show ?thesis
  proof (cases "length p + length ?body = ?m")
    case True
    with moves answer off obtain f where "x = XOk 200 (stateResponse i ?m ?m (Some f))" by auto
    then show ?thesis by (auto simp: closer_def stateResponse_def)
  next
    case False
    with moves answer off have x: "x = XOk 200 (stateResponse i (length p + length ?body) ?m None)"
      and sl: "slot_at (hub n') i = Partial ?m (p @ ?body)" by auto
    have "0 < UploadChunkSize" by (simp add: UploadChunkSize_def)
    then have "?m - (length p + length ?body) < ?m - length p" using False body p by auto
    then have "2 * (?m - length (p @ ?body)) + 1 < 2 * (?m - length p) + 1" by simp
    moreover have "stored_octets file (net_view (world r) i) = length p"
      by (simp add: net_view_def stored_octets_def partial)
    then have "to_send file i r = 2 * (?m - length p) + 1" using new off by (simp add: to_send_def)
    moreover have "stored_octets file (net_view n' i) = length (p @ ?body)"
      using sl by (simp add: net_view_def stored_octets_def)
    ultimately show ?thesis using x by (simp add: closer_def stateResponse_def)
  qed
qed

lemma put_chunk_calm:
  assumes "going file i r" and "script (world r) = []" and "st_file (session r) = None"
  shows "going file i (put_chunk net_ask net_nap i (Some UploadChunkSize) file r)
    \<and> work_left file i (put_chunk net_ask net_nap i (Some UploadChunkSize) file r) < work_left file i r"
proof -
  let ?n = "world r" and ?body = "chunk_body file (offset r) (Some UploadChunkSize)"
  let ?w = "(calm ?n)\<lparr>io_random := fst (draw (own_ids ?n))\<rparr>"
  have inv: "server_inv (hub ?n)" and hex: "isHexFileID i" and good: "good_io ?w"
    and ag: "agrees (f_content file) (slot_at (hub ?n) i)" and ne: "slot_at (hub ?n) i \<noteq> Absent"
    using assms(1) by (auto simp: going_def alive_def fair_net_def net_ready_def net_view_def good_io_def)
  obtain n' x where ask: "net_ask (ReqPut i (offset r) ?body) ?n = (x, n')"
    by (cases "net_ask (ReqPut i (offset r) ?body) ?n")
  have answer: "x = XOk code d \<and> hub n' = s'"
    if "serve ?w (ReqPut i (offset r) ?body) (hub ?n) = ((code, d), s')" for code d s'
    using ask that assms(2) by (auto simp: net_ask_def handle_def Let_def split_beta)
  have "closer file i r n' x"
  proof (cases "slot_at (hub ?n) i")
    case (Complete c)
    from serve_put_complete [OF this hex good, of "offset r" ?body] answer obtain f
      where "x = XOk 200 (stateResponse i (fr_size f) (fr_size f) (Some f))" by blast
    then show ?thesis by (auto simp: closer_def stateResponse_def)
  next
    case (Partial m p)
    with ag agrees_length have m: "m = f_size file" and p: "length p \<le> f_size file"
      by (auto simp: f_size_def)
    show ?thesis
    proof (cases "offset r = Some (length p)")
      case True
      from chunk_closer [OF inv Partial [unfolded m] hex good True p assms(3) answer] show ?thesis by blast
    next
      case False
      from serve_put_conflict [OF inv Partial hex good this, of ?body] answer
      have "x = XOk 409 (stateResponse i (length p) m None)" and "hub n' = hub ?n" by blast+
      moreover have "stored_octets file (net_view ?n i) = length p"
        by (simp add: net_view_def stored_octets_def Partial)
      ultimately show ?thesis
        using False assms(3) by (auto simp: closer_def stateResponse_def net_view_def to_send_def Let_def)
    qed
  qed (use ne in simp)
  from closer_round [OF assms ask this] show ?thesis .
qed

lemma upload_loop_ends:
  assumes "going file i r"
  shows "\<exists>r'. upload_loop net_ask net_nap i (Some UploadChunkSize) file r = Some r' \<and>
    thrown r' = None \<and> st_file (session r') \<noteq> None"
proof -
  let ?go = "\<lambda>r :: net upload_run. thrown r = None \<and> st_file (session r) = None"
  let ?put = "put_chunk net_ask net_nap i (Some UploadChunkSize) file"
  have step: "going file i (?put r) \<and> work_left file i (?put r) < work_left file i r"
    if "going file i r" "?go r" for r
  proof (cases "script (world r) = []")
    case True
    from put_chunk_calm [OF that(1) this] that(2) show ?thesis by simp
  next
    case False
    note faulty = put_chunk_faulty [OF that(1) this]
    from faulty have "work_left file i (?put r) < work_left file i r"
      by (intro work_left_shorter) (rule conjunct2)
    with faulty show ?thesis by (intro conjI) (rule conjunct1)
  qed
  have "\<exists>r'. while_option ?go ?put r = Some r'"
    by (rule measure_while_option_Some [where P = "going file i" and f = "work_left file i", OF _ assms])
      (rule step)
  then obtain r' where r': "while_option ?go ?put r = Some r'" by (rule exE)
  have "going file i r'"
    by (rule while_option_rule [where P = "going file i", OF _ r' assms]) (rule conjunct1 [OF step])
  moreover have "\<not> ?go r'" using while_option_stop [OF r'] .
  ultimately show ?thesis using r' by (auto simp: upload_loop_def going_def)
qed

section \<open>An upload succeeds\<close>

lemma serve_keeps_max: "maxUploadBytes (snd (serve w r s)) = maxUploadBytes s"
proof -
  have finish: "maxUploadBytes s2 = maxUploadBytes s" if "finishUpload w i u s = (x, s2)" for i u s x s2
    using that by (auto simp: finishUpload_def registerFile_def Let_def split: if_splits)
  show ?thesis
    by (cases r)
      (auto simp: serve_def createUpload_def handleUploadSession_def putChunk_def httpText_def Let_def
        dest: finish split: option.splits prod.splits)
qed

lemma fold_env_max: "maxUploadBytes (hub (fold run_env ops n)) = maxUploadBytes (hub n)"
proof (induction ops arbitrary: n)
  case (Cons op ops)
  have "maxUploadBytes (hub (run_env op n)) = maxUploadBytes (hub n)"
    by (cases op) (simp_all add: purgeExpiredFiles_def purgeStaleUploads_def serve_keeps_max split_beta Let_def)
  with Cons show ?case by simp
qed simp

lemma serve_create_good:
  assumes "good_io w" and "io_random w = Some i" and "sz \<le> maxUploadBytes s"
  shows "fst (fst (serve w (ReqCreate name sz mime) s)) = 201"
  using assms by (simp add: serve_def createUpload_def finishUpload_def registerFile_def good_io_def Let_def)

text \<open>The first request opens the session.\<close>

lemma open_session:
  assumes fair: "fair_net n" and first: "next_delivery n = Answered w" "good_io w"
    and ids: "own_ids n \<noteq> []" and small: "f_size file \<le> maxUploadBytes (hub n)"
    and new: "storageGet st (upload_storeKey file) = None"
  shows "\<exists>d st' n' i. openUploadSession net_ask file (upload_storeKey file) st n = (Inr d, st', n')
    \<and> uploadId d = Some i \<and> chunkSize d = Some UploadChunkSize \<and> alive (f_content file) i n'
    \<and> script n' = tl (script n)"
proof -
  let ?m = "arrival n" and ?r = "ReqCreate (f_name file) (f_size file) (f_type file)"
  from fair have m: "fair_net ?m" by (rule fair_arrival)
  then have ready: "net_ready ?m" by (simp add: fair_net_def)
  have "own_ids ?m = own_ids n" by (auto simp: arrival_def split: list.split)
  with ids obtain j rest where own: "own_ids ?m = j # rest" by (cases "own_ids n") auto
  have "maxUploadBytes (hub ?m) = maxUploadBytes (hub n)"
    by (auto simp: arrival_def fold_env_max split: list.split)
  then have "fst (fst (serve (w\<lparr>io_random := Some j\<rparr>) ?r (hub ?m))) = 201"
    using first(2) small by (intro serve_create_good [of _ j]) (simp_all add: good_io_def)
  then obtain data n' where del: "deliver (next_delivery n) ?r ?m = (XOk 201 data, n')"
    by (cases "serve (w\<lparr>io_random := Some j\<rparr>) ?r (hub ?m)")
      (auto simp: first handle_def own Let_def split_beta)
  from deliver_create_report [OF ready del] obtain d i where
    d: "data = JObj d" "uploadId d = Some i" "chunkSize d = Some UploadChunkSize" "net_owned n' i"
      "net_view n' i = (if f_size file = 0 then Complete [] else Partial (f_size file) [])"
    by blast
  have n': "n' = snd (deliver (next_delivery n) ?r ?m)" using del by simp
  have fair': "fair_net n'" and script: "script n' = tl (script n)"
    using m by (simp_all add: n' fair_deliver)
  have hex: "isHexFileID i"
  proof -
    from del obtain w' where "handle w' ?r ?m = ((201, data), n')" by (rule deliver_answer)
    then have "serve (w'\<lparr>io_random := Some j\<rparr>) ?r (hub ?m) = ((201, data), hub n')"
      by (auto simp: handle_def own Let_def split_beta prod_eq_iff)
    then have "i = j" using d(1,2)
      by (auto simp: serve_def createUpload_def httpText_def stateResponse_def Let_def
          split: if_splits option.splits prod.splits)
    with ready own show ?thesis by (simp add: net_ready_def unused_def)
  qed
  have "alive (f_content file) i n'"
    using fair' d(4,5) hex by (auto simp: alive_def f_size_def)
  moreover have "net_ask ?r n = (XOk 201 (JObj d), n')"
    using del d(1) by (simp add: net_ask_arrival)
  ultimately show ?thesis
    using d(2,3) new script by (auto simp: openUploadSession_def createSession_def)
qed

text \<open>
  C2. An upload succeeds when the network recovers.  A page without a saved session uploads a file within the hub's
  limit; an id is left to draw, the first request is carried out and answered, and all disturbances fall on it and the next ten requests:
  each of these may, in any order, not be sent, lose its answer, be refused by the file system or break off in the middle of a chunk, with
  requests of other devices in between.  The user does not cancel, the session cookie is accepted, and neither the clean-up task nor a restart takes the upload away
  (\<open>fair_net\<close>).  Then the loop ends and \<open>uploadResumable\<close> returns a file.
\<close>

theorem upload_succeeds:
  assumes "fair_net n" and "next_delivery n = Answered w" and "good_io w"
    and "own_ids n \<noteq> []" and "f_size file \<le> maxUploadBytes (hub n)"
    and "storageGet st (upload_storeKey file) = None"
    and "length (script n) \<le> UPLOAD_MAX_RETRIES + 1"
  shows "\<exists>out f. uploadResumable net_ask net_nap file st n = Some out \<and> result out = Inr f"
proof -
  from open_session [OF assms(1-6)] obtain d st' n' i where
    op: "openUploadSession net_ask file (upload_storeKey file) st n = (Inr d, st', n')"
    and d: "uploadId d = Some i" "chunkSize d = Some UploadChunkSize"
    and n': "alive (f_content file) i n'" "script n' = tl (script n)" by blast
  have "going file i (start_run d n')"
    using n' assms(7) by (simp add: going_def start_run_def)
  then obtain r f where "upload_loop net_ask net_nap i (Some UploadChunkSize) file (start_run d n') = Some r"
    and "thrown r = None" and "st_file (session r) = Some f"
    using upload_loop_ends by blast
  with op d show ?thesis by (simp add: uploadResumable_def text_of_def Let_def)
qed

theorem upload_succeeds_witness:
  "\<exists>out f. uploadResumable net_ask net_nap demo_file demo_storage demo_net = Some out \<and> result out = Inr f"
proof (rule upload_succeeds)
  show "fair_net demo_net"
    using demo_ready by (simp add: fair_net_def fair_script_def good_io_def demo_net_def demo_io_def)
  show "next_delivery demo_net = Answered demo_io" by (simp add: next_delivery_def demo_net_def)
  show "good_io demo_io" by (simp add: good_io_def demo_io_def)
  show "own_ids demo_net \<noteq> []" by (simp add: demo_net_def)
  show "f_size demo_file \<le> maxUploadBytes (hub demo_net)"
    by (simp add: f_size_def demo_file_def demo_net_def empty_server_def)
  show "storageGet demo_storage (upload_storeKey demo_file) = None"
    by (simp add: storageGet_def demo_storage_def)
  show "length (script demo_net) \<le> UPLOAD_MAX_RETRIES + 1"
    by (simp add: demo_net_def UPLOAD_MAX_RETRIES_def)
qed

end
