(* ===== verification/Upload_Termination.thy ===== *)
theory Upload_Termination
  imports Upload_Liveness
begin

text \<open>
  \<open>uploadResumable\<close> comes to an end: it never goes on for ever asking for an offset, sending
  empty chunks or retrying, whatever faults network and hub have.  Nothing is assumed about these:
  the file system of the hub may go on failing for good.  What is assumed is what exactness assumes: fresh ids, and a saved session of this very file.
\<close>

section \<open>What a round uses up\<close>









section \<open>What an answer of the calm hub means\<close>


section \<open>The loop ends\<close>








section \<open>The chunk size is the hub's\<close>







text \<open>What a session that was declared larger than the file leads to: at the end of the file the chunk is empty, and the answer leaves everything as it was.\<close>

lemma larger_session_spins:
  assumes "server_inv s" and "slot_at s i = Partial m (f_content file)" and "f_size file < m"
    and "isHexFileID i" and "good_io w"
  shows "\<exists>s'. serve w (ReqPut i (Some (f_size file)) (chunk_body file (Some (f_size file)) (Some UploadChunkSize))) s
      = ((200, stateResponse i (f_size file) m None), s') \<and> slot_at s' i = Partial m (f_content file)"
  using serve_put_moves [OF assms(1,2,4,5), of "[]"] assms(3) by (simp add: chunk_body_def slice_def f_size_def)

end
