(* ===== verification/Upload_Retry.thy ===== *)
theory Upload_Retry
  imports Upload_Client
begin

text \<open>
  What \<open>uploadResumable\<close> does when the network stays away: how often it tries, how long it pauses,
  what it tells the user, and that the saved session is still there for the next time.
\<close>

definition pause :: "nat \<Rightarrow> nat" where
  "pause k = min (1000 * 2 ^ k) 30000"

definition cut_off :: "(request \<Rightarrow> 's \<Rightarrow> xhr_result \<times> 's) \<Rightarrow> jstr \<Rightarrow> bool" where
  "cut_off ask i \<longleftrightarrow> (\<forall>s off body. fst (ask (ReqPut i off body) s) = XError) \<and> (\<forall>s. fst (ask (ReqState i) s) = XError)"

text \<open>The page's last word.\<close>

definition gave_up :: js_error where
  "gave_up = UploadError (([0x7F51, 0x7EDC, 0x4E2D, 0x65AD, 0xFF0C, 0x91CD, 0x8BD5] @ lit '' '') @ show_nat UPLOAD_MAX_RETRIES @ (lit '' '' @ [0x6B21, 0x540E, 0x653E, 0x5F03])) False 0"

lemma cut_off_put: "cut_off ask i \<Longrightarrow> \<exists>w. ask (ReqPut i off body) s = (XError, w)"
  unfolding cut_off_def by (metis prod.collapse)

lemma cut_off_state: "cut_off ask i \<Longrightarrow> \<exists>w. ask (ReqState i) s = (XError, w)"
  unfolding cut_off_def by (metis prod.collapse)

text \<open>A round without network, while retries are left and when none are.\<close>

lemma round_cut_off:
  assumes "cut_off ask i" and "\<And>ms s. fst (nap ms s) = False" and "failures r < UPLOAD_MAX_RETRIES" and "thrown r = None"
  shows "\<exists>w. put_chunk ask nap i chunk file r =
    r\<lparr>failures := Suc (failures r), world := w,
      progress := progress r @ [(offset r, None), (offset r, Some (retry_note (Suc (failures r))))],
      pauses := pauses r @ [pause (failures r)]\<rparr>"
proof -
  obtain w1 where put: "ask (ReqPut i (offset r) (chunk_body file (offset r) chunk)) (world r) = (XError, w1)"
    using cut_off_put [OF assms(1)] by blast
  obtain w2 where nap: "nap (pause (failures r)) w1 = (False, w2)"
    using assms(2) [of "pause (failures r)" w1] by (cases "nap (pause (failures r)) w1") simp
  obtain w3 where state: "ask (ReqState i) w2 = (XError, w3)"
    using cut_off_state [OF assms(1)] by blast
  show ?thesis
    using put nap state assms(3,4)
    by (intro exI [of _ w3]) (simp add: put_chunk_def recover_def network_error_def pause_def Let_def)
qed

lemma last_cut_off:
  assumes "cut_off ask i" and "failures r = UPLOAD_MAX_RETRIES"
  shows "\<exists>w. put_chunk ask nap i chunk file r =
    r\<lparr>failures := Suc (failures r), world := w, progress := progress r @ [(offset r, None)], thrown := Some gave_up\<rparr>"
proof -
  obtain w1 where put: "ask (ReqPut i (offset r) (chunk_body file (offset r) chunk)) (world r) = (XError, w1)"
    using cut_off_put [OF assms(1)] by blast
  then show ?thesis
    using assms(2)
    by (intro exI [of _ w1]) (simp add: put_chunk_def recover_def network_error_def gave_up_def Let_def)
qed

lemma loop_cut_off:
  assumes "cut_off ask i" and "\<And>ms s. fst (nap ms s) = False"
  shows "failures r \<le> UPLOAD_MAX_RETRIES \<Longrightarrow> thrown r = None \<Longrightarrow> st_file (session r) = None \<Longrightarrow>
    \<exists>r'. upload_loop ask nap i chunk file r = Some r' \<and> thrown r' = Some gave_up
      \<and> pauses r' = pauses r @ map pause [failures r ..< UPLOAD_MAX_RETRIES]"
proof (induction "UPLOAD_MAX_RETRIES - failures r" arbitrary: r)
  case 0
  then have "failures r = UPLOAD_MAX_RETRIES" by simp
  from last_cut_off [OF assms(1) this] obtain w where
    "put_chunk ask nap i chunk file r = r\<lparr>failures := Suc (failures r), world := w,
       progress := progress r @ [(offset r, None)], thrown := Some gave_up\<rparr>" by blast
  with 0 show ?case by (simp add: upload_loop_def while_option_unfold)
next
  case (Suc k)
  then have lt: "failures r < UPLOAD_MAX_RETRIES" by simp
  let ?r = "put_chunk ask nap i chunk file r"
  from round_cut_off [where nap = nap, OF assms lt Suc(4)] obtain w where r: "?r = r\<lparr>failures := Suc (failures r), world := w,
      progress := progress r @ [(offset r, None), (offset r, Some (retry_note (Suc (failures r))))],
      pauses := pauses r @ [pause (failures r)]\<rparr>" by blast
  have "\<exists>r'. upload_loop ask nap i chunk file ?r = Some r' \<and> thrown r' = Some gave_up
      \<and> pauses r' = pauses ?r @ map pause [failures ?r ..< UPLOAD_MAX_RETRIES]"
    using Suc lt by (intro Suc(1)) (simp_all add: r)
  moreover have "upload_loop ask nap i chunk file r = upload_loop ask nap i chunk file ?r"
    using Suc(4,5) unfolding upload_loop_def by (subst while_option_unfold) simp
  moreover have "[failures r ..< UPLOAD_MAX_RETRIES] = failures r # [Suc (failures r) ..< UPLOAD_MAX_RETRIES]"
    using lt by (simp add: upt_conv_Cons)
  ultimately show ?case by (simp add: r)
qed

text \<open>
  C21. When the network stays away after the session was opened, the page does not try for
  ever and does not throw the work away: it makes ten retries, pausing one, two, four, eight, sixteen
  and then thirty seconds, a little over three minutes in all, reports the interruption with the number of retries, and leaves the
  id of the session in storage, so that choosing the file again goes on from there.
\<close>

theorem upload_gives_up:
  assumes "openUploadSession ask file (upload_storeKey file) st s = (Inr d, st', s')" and "st_file d = None"
    and "cut_off ask (text_of (uploadId d))" and "\<And>ms s. fst (nap ms s) = False"
  shows "\<exists>out. uploadResumable ask nap file st s = Some out \<and> result out = Inl gave_up \<and> saved out = st'
    \<and> slept out = [1000, 2000, 4000, 8000, 16000, 30000, 30000, 30000, 30000, 30000]"
proof -
  have "\<exists>r. upload_loop ask nap (text_of (uploadId d)) (chunkSize d) file (start_run d s') = Some r \<and> thrown r = Some gave_up
      \<and> pauses r = pauses (start_run d s') @ map pause [failures (start_run d s') ..< UPLOAD_MAX_RETRIES]"
    using assms(2) by (intro loop_cut_off [OF assms(3,4)]) (simp_all add: start_run_def)
  then obtain r where
    r: "upload_loop ask nap (text_of (uploadId d)) (chunkSize d) file (start_run d s') = Some r" "thrown r = Some gave_up"
      "pauses r = map pause [0 ..< UPLOAD_MAX_RETRIES]"
    by (auto simp: start_run_def)
  have "map pause [0 ..< UPLOAD_MAX_RETRIES] = [1000, 2000, 4000, 8000, 16000, 30000, 30000, 30000, 30000, 30000]"
    by (simp add: UPLOAD_MAX_RETRIES_def pause_def upt_rec)
  moreover have "give_up ask (text_of (uploadId d)) (upload_storeKey file) gave_up st' (world r) = (st', world r)"
    by (simp add: give_up_def gave_up_def)
  ultimately show ?thesis using assms(1) r by (simp add: uploadResumable_def Let_def)
qed

text \<open>A hub that opens a session and is never heard of again.\<close>

definition lost_hub :: "request \<Rightarrow> unit \<Rightarrow> xhr_result \<times> unit" where
  "lost_hub r s =
     (case r of
        ReqCreate name sz mime \<Rightarrow>
          (XOk 201 (JObj \<lparr>uploadId = Some (replicate 32 97), st_offset = Some 0, st_size = Some sz,
             chunkSize = Some 4, st_file = None\<rparr>), s)
      | _ \<Rightarrow> (XError, s))"

theorem upload_gives_up_witness:
  "\<exists>out. uploadResumable lost_hub (\<lambda>ms s. (False, s))
      \<lparr>f_name = [97], f_type = [], f_lastModified = 1, f_content = [1, 2, 3]\<rparr>
      \<lparr>readable = True, writable = True, items = Map.empty\<rparr> () = Some out
    \<and> result out = Inl gave_up"
proof -
  let ?file = "\<lparr>f_name = [97], f_type = [], f_lastModified = 1, f_content = [1, 2, 3]\<rparr>"
  let ?st = "\<lparr>readable = True, writable = True, items = Map.empty\<rparr>"
  let ?d = "\<lparr>uploadId = Some (replicate 32 97), st_offset = Some 0, st_size = Some 3, chunkSize = Some 4, st_file = None\<rparr>"
  have "openUploadSession lost_hub ?file (upload_storeKey ?file) ?st ()
      = (Inr ?d, storageSet (upload_storeKey ?file) (replicate 32 97) ?st, ())"
    by (simp add: openUploadSession_def createSession_def lost_hub_def storageGet_def f_size_def text_of_def)
  from upload_gives_up [OF this, of "\<lambda>ms s. (False, s)"] show ?thesis
    by (auto simp: cut_off_def lost_hub_def)
qed

end
