(* ===== verification/Xhr.thy ===== *)
theory Xhr
  imports Upload_Wire
begin

text \<open>
  \<open>xhrRequest\<close> of web/static/app.js: the promise around one XMLHttpRequest.  The browser reports upload progress and then
  one of \<open>load\<close>, \<open>error\<close> and \<open>abort\<close>; the signal of the upload may abort at any time, also when the request is
  over.  \<open>parse\<close> is \<open>JSON.parse\<close>, \<open>None\<close> its exception; the object it gives has the fields the page reads.
\<close>

section \<open>State and handlers\<close>

record xhr =
  xh_json_header :: bool
  xh_listening :: bool
  xh_active :: bool
  xh_settled :: "xhr_result list"
  xh_progress :: "nat list"

text \<open>\<open>send\<close>: \<open>json\<close> says whether there is a JSON body, \<open>signal\<close> whether there is a signal.\<close>

definition xhr_open :: "bool \<Rightarrow> bool \<Rightarrow> xhr" where
  "xhr_open json signal =
     \<lparr>xh_json_header = json, xh_listening = signal, xh_active = True, xh_settled = [], xh_progress = []\<rparr>"

definition xhr_finish :: "xhr_result \<Rightarrow> xhr \<Rightarrow> xhr" where
  "xhr_finish res x = x\<lparr>xh_listening := False, xh_active := False, xh_settled := xh_settled x @ [res]\<rparr>"

definition on_xhr_load :: "(jstr \<Rightarrow> json_data option) \<Rightarrow> nat \<Rightarrow> jstr \<Rightarrow> xhr \<Rightarrow> xhr" where
  "on_xhr_load parse status body x =
     xhr_finish (XOk status (case parse body of Some d \<Rightarrow> d | None \<Rightarrow> JStr body)) x"

definition on_xhr_error :: "xhr \<Rightarrow> xhr" where
  "on_xhr_error x = xhr_finish XError x"

definition on_xhr_abort :: "xhr \<Rightarrow> xhr" where
  "on_xhr_abort x = xhr_finish XAbort x"

text \<open>\<open>onAbort\<close>: \<open>xhr.abort()\<close> fires the \<open>abort\<close> event while the request runs, and nothing after.\<close>

definition on_signal :: "xhr \<Rightarrow> xhr" where
  "on_signal x = (if xh_listening x \<and> xh_active x then on_xhr_abort x else x)"

definition on_xhr_progress :: "bool \<Rightarrow> nat \<Rightarrow> xhr \<Rightarrow> xhr" where
  "on_xhr_progress wanted n x = (if wanted then x\<lparr>xh_progress := xh_progress x @ [n]\<rparr> else x)"

section \<open>Runs\<close>

datatype xhr_event = XLoad nat jstr | XFail | XSignal | XProgress nat

text \<open>The browser fires nothing for a request that is over; the signal is another object.\<close>

fun xhr_step :: "(jstr \<Rightarrow> json_data option) \<Rightarrow> bool \<Rightarrow> xhr_event \<Rightarrow> xhr \<Rightarrow> xhr" where
  "xhr_step parse wanted (XLoad status body) x = (if xh_active x then on_xhr_load parse status body x else x)"
| "xhr_step parse wanted XFail x = (if xh_active x then on_xhr_error x else x)"
| "xhr_step parse wanted XSignal x = on_signal x"
| "xhr_step parse wanted (XProgress n) x = (if xh_active x then on_xhr_progress wanted n x else x)"

fun settling :: "(jstr \<Rightarrow> json_data option) \<Rightarrow> bool \<Rightarrow> xhr_event \<Rightarrow> xhr_result option" where
  "settling parse signal (XLoad status body) = Some (XOk status (case parse body of Some d \<Rightarrow> d | None \<Rightarrow> JStr body))"
| "settling parse signal XFail = Some XError"
| "settling parse signal XSignal = (if signal then Some XAbort else None)"
| "settling parse signal (XProgress n) = None"

definition xhr_run :: "(jstr \<Rightarrow> json_data option) \<Rightarrow> bool \<Rightarrow> bool \<Rightarrow> bool \<Rightarrow> xhr_event list \<Rightarrow> xhr" where
  "xhr_run parse json signal wanted es = fold (xhr_step parse wanted) es (xhr_open json signal)"

lemma over_stays: "\<not> xh_active x \<Longrightarrow> \<not> xh_listening x \<Longrightarrow> fold (xhr_step parse wanted) es x = x"
proof (induction es)
  case (Cons e es)
  then show ?case by (cases e) (simp_all add: on_signal_def)
qed simp

lemma run_active:
  assumes "xh_active x" and "xh_listening x = signal" and "xh_settled x = []"
  shows "xh_settled (fold (xhr_step parse wanted) es x) = take 1 (List.map_filter (settling parse signal) es)
    \<and> xh_listening (fold (xhr_step parse wanted) es x) = (signal \<and> List.map_filter (settling parse signal) es = [])"
  using assms
proof (induction es arbitrary: x)
  case (Cons e es)
  have over: "fold (xhr_step parse wanted) es (xhr_finish res y) = xhr_finish res y" for res y
    by (rule over_stays) (simp_all add: xhr_finish_def)
  show ?case
  proof (cases "settling parse signal e")
    case None
    have "xh_active (xhr_step parse wanted e x) \<and> xh_listening (xhr_step parse wanted e x) = signal
        \<and> xh_settled (xhr_step parse wanted e x) = []"
      using None Cons(2-4) by (cases e) (auto simp: on_signal_def on_xhr_progress_def split: if_splits)
    with Cons(1) [of "xhr_step parse wanted e x"] None show ?thesis by (simp add: map_filter_simps)
  next
    case (Some res)
    then have "xhr_step parse wanted e x = xhr_finish res x"
      using Cons(2-4)
      by (cases e) (auto simp: on_signal_def on_xhr_load_def on_xhr_error_def on_xhr_abort_def split: if_splits)
    with Some Cons(4) over show ?thesis by (simp add: map_filter_simps) (simp add: xhr_finish_def)
  qed
qed (simp add: map_filter_simps)

text \<open>
  The promise settles once, with the first of the three ends, and from then on the signal has no
  listener left: cancelling an upload later does not touch a request that is over.
\<close>

lemma xhr_settles_once:
  "xh_settled (xhr_run parse json signal wanted es) = take 1 (List.map_filter (settling parse signal) es)
    \<and> xh_listening (xhr_run parse json signal wanted es) = (signal \<and> List.map_filter (settling parse signal) es = [])"
  unfolding xhr_run_def by (rule run_active) (simp_all add: xhr_open_def)

end
