(* ===== verification/Drop.thy ===== *)
theory Drop
  imports Sending
begin

text \<open>
  Files and folders dropped on the chat (web/static/app.js: the four drag handlers, \<open>entryFile\<close>,
  \<open>listDirectory\<close>, \<open>zipDirectory\<close>) and the file picker.

  A directory is what its reader gives: the results of the successive calls of \<open>readEntries\<close>, each
  a batch of children or an error; after the last there are only empty batches.  The zip library is
  a parameter: \<open>pack\<close> takes the paths, files and dates in the order \<open>zip.file\<close> is called with them and
  gives the octets of the archive, or the message of its exception.
\<close>

section \<open>Directories\<close>

datatype fs_entry =
    FileEntry (entry_name: jstr) "jstr + js_file"
  | DirEntry (entry_name: jstr) "(jstr + fs_entry list) list"
  | OtherEntry (entry_name: jstr) jstr

type_synonym dir_reader = "(jstr + fs_entry list) list"

text \<open>The loop over \<open>readEntries\<close>: it ends with the first empty batch.\<close>

fun read_children :: "(jstr + 'a list) list \<Rightarrow> jstr + 'a list" where
  "read_children [] = Inr []"
| "read_children (Inl err # bs) = Inl err"
| "read_children (Inr batch # bs) =
     (if batch = [] then Inr []
      else (case read_children bs of Inl err \<Rightarrow> Inl err | Inr rest \<Rightarrow> Inr (batch @ rest)))"

definition sub_path :: "jstr \<Rightarrow> jstr \<Rightarrow> jstr" where
  "sub_path base name = base @ [47] @ name"

fun reader_size :: "dir_reader \<Rightarrow> nat" where
  "reader_size [] = 0"
| "reader_size (Inl err # bs) = Suc (reader_size bs)"
| "reader_size (Inr batch # bs) = size_list size batch + reader_size bs"

lemma size_list_append: "size_list f (xs @ ys) = size_list f xs + size_list f ys"
  by (induction xs) simp_all

lemma read_children_size: "read_children bs = Inr cs \<Longrightarrow> size_list size cs \<le> reader_size bs"
  by (induction bs arbitrary: cs rule: read_children.induct) (auto simp: size_list_append split: if_splits sum.splits)

lemma reader_size_entry: "reader_size bs < size (DirEntry n bs)"
  by (induction bs rule: reader_size.induct) simp_all

text \<open>\<open>listDirectory\<close>; the second function is its loop over the children.\<close>

function listDirectory :: "dir_reader \<Rightarrow> jstr \<Rightarrow> jstr + (jstr \<times> js_file) list"
  and list_children :: "fs_entry list \<Rightarrow> jstr \<Rightarrow> jstr + (jstr \<times> js_file) list" where
  "listDirectory bs base =
     (case read_children bs of Inl err \<Rightarrow> Inl err | Inr children \<Rightarrow> list_children children base)"
| "list_children [] base = Inr []"
| "list_children (c # cs) base =
     (case c of
        FileEntry n r \<Rightarrow>
          (case r of
             Inl err \<Rightarrow> Inl err
           | Inr f \<Rightarrow>
               (case list_children cs base of
                  Inl err \<Rightarrow> Inl err | Inr out \<Rightarrow> Inr ((sub_path base n, f) # out)))
      | DirEntry n bs \<Rightarrow>
          (case listDirectory bs (sub_path base n) of
             Inl err \<Rightarrow> Inl err
           | Inr inner \<Rightarrow>
               (case list_children cs base of Inl err \<Rightarrow> Inl err | Inr out \<Rightarrow> Inr (inner @ out)))
      | OtherEntry n err \<Rightarrow> list_children cs base)"
  by pat_completeness auto
termination
proof (relation "measure (\<lambda>x. case x of Inl (bs, base) \<Rightarrow> Suc (2 * reader_size bs) | Inr (cs, base) \<Rightarrow> 2 * size_list size cs)")
  fix bs :: dir_reader and base cs
  assume "read_children bs = Inr cs"
  from read_children_size [OF this]
  show "(Inr (cs, base), Inl (bs, base)) \<in> measure (\<lambda>x. case x of Inl (bs, base) \<Rightarrow> Suc (2 * reader_size bs)
      | Inr (cs, base) \<Rightarrow> 2 * size_list size cs)" by simp
next
  fix c :: fs_entry and cs base n bs
  assume "c = DirEntry n bs"
  with reader_size_entry [of bs n]
  show "(Inl (bs, sub_path base n), Inr (c # cs, base)) \<in> measure (\<lambda>x. case x of Inl (bs, base) \<Rightarrow> Suc (2 * reader_size bs)
      | Inr (cs, base) \<Rightarrow> 2 * size_list size cs)" by simp
qed simp_all

declare listDirectory.simps [simp del] list_children.simps [simp del]

section \<open>What a folder contains\<close>

text \<open>
  The specification does not speak of batches in sequence: a child is in some batch.  A reader gives
  empty batches only at its end, the names of siblings are distinct and contain no slash.
\<close>

definition all_children :: "dir_reader \<Rightarrow> fs_entry list" where
  "all_children bs = concat (map (\<lambda>b. case b of Inl err \<Rightarrow> [] | Inr batch \<Rightarrow> batch) bs)"

fun reader_ok :: "dir_reader \<Rightarrow> bool" where
  "reader_ok [] = True"
| "reader_ok (Inl err # bs) = reader_ok bs"
| "reader_ok (Inr batch # bs) = (if batch = [] then list_all (\<lambda>b. b = Inr []) bs else reader_ok bs)"

inductive folder_ok :: "dir_reader \<Rightarrow> bool" where
  "reader_ok bs \<Longrightarrow> distinct (map entry_name (all_children bs)) \<Longrightarrow>
   (\<forall>c \<in> set (all_children bs). 47 \<notin> set (entry_name c)) \<Longrightarrow>
   (\<And>n inner. DirEntry n inner \<in> set (all_children bs) \<Longrightarrow> folder_ok inner) \<Longrightarrow> folder_ok bs"

inductive_cases folder_okE: "folder_ok bs"

inductive in_folder :: "dir_reader \<Rightarrow> jstr \<Rightarrow> jstr \<Rightarrow> js_file \<Rightarrow> bool" where
  here: "FileEntry n (Inr f) \<in> set (all_children bs) \<Longrightarrow> in_folder bs base (sub_path base n) f"
| below: "DirEntry n inner \<in> set (all_children bs) \<Longrightarrow> in_folder inner (sub_path base n) p f \<Longrightarrow>
    in_folder bs base p f"

inductive_simps in_folder_iff: "in_folder bs base p f"

definition in_children :: "fs_entry list \<Rightarrow> jstr \<Rightarrow> jstr \<Rightarrow> js_file \<Rightarrow> bool" where
  "in_children cs base p f \<longleftrightarrow>
     (\<exists>n. FileEntry n (Inr f) \<in> set cs \<and> p = sub_path base n) \<or>
     (\<exists>n inner. DirEntry n inner \<in> set cs \<and> in_folder inner (sub_path base n) p f)"

lemma in_folder_children: "in_folder bs base p f = in_children (all_children bs) base p f"
  unfolding in_folder_iff [of bs base p f] in_children_def by blast

lemma in_children_Cons:
  "in_children (c # cs) base p f \<longleftrightarrow> in_children [c] base p f \<or> in_children cs base p f"
  by (auto simp: in_children_def)

lemma in_children_Nil [simp]: "\<not> in_children [] base p f"
  by (simp add: in_children_def)

lemma all_empty: "list_all (\<lambda>b. b = Inr []) bs \<Longrightarrow> all_children bs = []"
  by (induction bs) (auto simp: all_children_def)

lemma read_children_all: "reader_ok bs \<Longrightarrow> read_children bs = Inr cs \<Longrightarrow> all_children bs = cs"
proof (induction bs arbitrary: cs rule: read_children.induct)
  case (3 batch bs)
  show ?case
  proof (cases "batch = []")
    case True
    with 3 all_empty [of bs] show ?thesis by (simp add: all_children_def)
  next
    case False
    with 3 show ?thesis by (auto simp: all_children_def split: sum.splits)
  qed
qed (simp_all add: all_children_def)

text \<open>A path leads through the child its first step names.\<close>

definition through :: "jstr \<Rightarrow> jstr \<Rightarrow> jstr \<Rightarrow> bool" where
  "through base n p \<longleftrightarrow> (\<exists>rest. p = sub_path base n @ rest \<and> (rest = [] \<or> hd rest = 47))"

lemma through_name:
  assumes "through base n p" and "through base m p" and "47 \<notin> set n" and "47 \<notin> set m"
  shows "n = m"
proof -
  have "takeWhile (\<lambda>c. c \<noteq> 47) (drop (Suc (length base)) p) = k" if t: "through base k p" and k: "47 \<notin> set k" for k
  proof -
    from t obtain rest where p: "p = sub_path base k @ rest" and r: "rest = [] \<or> hd rest = 47"
      unfolding through_def by blast
    from r have "takeWhile (\<lambda>c. c \<noteq> 47) rest = []" by (cases rest) simp_all
    moreover from k have "takeWhile (\<lambda>c. c \<noteq> 47) (k @ rest) = k @ takeWhile (\<lambda>c. c \<noteq> 47) rest"
      by (subst takeWhile_append2) auto
    ultimately show ?thesis using p by (simp add: sub_path_def)
  qed
  from this [OF assms(1,3)] this [OF assms(2,4)] show ?thesis by simp
qed

lemma in_folder_through: "in_folder bs base p f \<Longrightarrow> \<exists>rest. p = base @ 47 # rest"
  by (induction rule: in_folder.induct) (auto simp: sub_path_def)

lemma in_child_through: "in_children [c] base p f \<Longrightarrow> through base (entry_name c) p"
  by (auto simp: in_children_def through_def dest!: in_folder_through)

definition children_ok :: "fs_entry list \<Rightarrow> bool" where
  "children_ok cs \<longleftrightarrow> distinct (map entry_name cs) \<and> (\<forall>c \<in> set cs. 47 \<notin> set (entry_name c)) \<and>
     (\<forall>n inner. DirEntry n inner \<in> set cs \<longrightarrow> folder_ok inner)"

lemma folder_children_ok: "folder_ok bs \<Longrightarrow> reader_ok bs \<and> children_ok (all_children bs)"
  by (auto elim: folder_okE simp: children_ok_def)

definition lists :: "(jstr \<times> js_file) list \<Rightarrow> (jstr \<Rightarrow> js_file \<Rightarrow> bool) \<Rightarrow> bool" where
  "lists out P \<longleftrightarrow> distinct (map fst out) \<and> (\<forall>p f. (p, f) \<in> set out \<longleftrightarrow> P p f)"

lemma lists_append:
  assumes "lists xs P" and "lists ys Q" and "\<And>p f g. P p f \<Longrightarrow> \<not> Q p g"
  shows "lists (xs @ ys) (\<lambda>p f. P p f \<or> Q p f)"
proof -
  have "False" if x: "(p, f) \<in> set xs" and y: "(p, g) \<in> set ys" for p f g
  proof -
    have "P p f" using assms(1) x unfolding lists_def by blast
    moreover have "Q p g" using assms(2) y unfolding lists_def by blast
    ultimately show False using assms(3) by blast
  qed
  then have "fst ` set xs \<inter> fst ` set ys = {}" by fastforce
  with assms(1,2) show ?thesis by (simp add: lists_def)
qed

lemma lists_child:
  assumes ok: "children_ok (c # cs)" and xs: "lists xs (in_children [c] base)" and ys: "lists ys (in_children cs base)"
  shows "lists (xs @ ys) (in_children (c # cs) base)"
proof -
  have "\<not> in_children cs base p g" if p: "in_children [c] base p f" for p f g
  proof
    assume "in_children cs base p g"
    then obtain d where d: "d \<in> set cs" "in_children [d] base p g" by (auto simp: in_children_def)
    from ok have "entry_name c \<noteq> entry_name d" "47 \<notin> set (entry_name c)" "47 \<notin> set (entry_name d)"
      using d(1) by (auto simp: children_ok_def)
    with through_name [OF in_child_through [OF p] in_child_through [OF d(2)]] show False by simp
  qed
  from lists_append [OF xs ys this] show ?thesis by (simp add: lists_def in_children_Cons [of c cs])
qed

lemma lists_file: "lists [(sub_path base n, f)] (in_children [FileEntry n (Inr f)] base)"
  by (auto simp: lists_def in_children_def)

lemma lists_dir: "lists out (in_folder inner (sub_path base n)) \<Longrightarrow> lists out (in_children [DirEntry n inner] base)"
  by (simp add: lists_def in_children_def)

lemma lists_other: "lists [] (in_children [OtherEntry n err] base)"
  by (simp add: lists_def in_children_def)

lemma children_ok_tl: "children_ok (c # cs) \<Longrightarrow> children_ok cs"
  by (auto simp: children_ok_def)

lemma children_ok_dir: "children_ok (DirEntry n inner # cs) \<Longrightarrow> folder_ok inner"
  by (auto simp: children_ok_def)

lemma listing:
  "listDirectory bs base = Inr out \<Longrightarrow> folder_ok bs \<Longrightarrow> lists out (in_folder bs base)"
  "list_children cs base = Inr out \<Longrightarrow> children_ok cs \<Longrightarrow> lists out (in_children cs base)"
proof (induction bs base and cs base arbitrary: out and out rule: listDirectory_list_children.induct)
  case (1 bs base)
  from 1(2) obtain children where c: "read_children bs = Inr children" "list_children children base = Inr out"
    by (auto simp: listDirectory.simps split: sum.splits)
  from 1(3) have "reader_ok bs" "children_ok (all_children bs)" using folder_children_ok by blast+
  with read_children_all [OF _ c(1)] 1(1) [OF c] show ?case by (simp add: lists_def in_folder_children)
next
  case (2 base)
  then show ?case by (simp add: list_children.simps lists_def)
next
  case (3 c cs base)
  note tl = children_ok_tl [OF 3(6)]
  show ?case
  proof (cases c)
    case (FileEntry n r)
    with 3(5) obtain f more where f: "r = Inr f" "list_children cs base = Inr more" "out = [(sub_path base n, f)] @ more"
      by (auto simp: list_children.simps split: sum.splits)
    from 3(1) [OF FileEntry f(1) f(2) tl] lists_file 3(6) show ?thesis
      unfolding f(3) FileEntry f(1) by (intro lists_child)
  next
    case (DirEntry n inner)
    with 3(5) obtain xs ys where o: "listDirectory inner (sub_path base n) = Inr xs" "list_children cs base = Inr ys" "out = xs @ ys"
      by (auto simp: list_children.simps split: sum.splits)
    have "folder_ok inner" using 3(6) DirEntry children_ok_dir by blast
    from lists_dir [OF 3(2) [OF DirEntry o(1) this]] 3(3) [OF DirEntry o(1) o(2) tl] 3(6) show ?thesis
      unfolding o(3) DirEntry by (intro lists_child)
  next
    case (OtherEntry n err)
    with 3(5) have "list_children cs base = Inr out" by (simp add: list_children.simps)
    from 3(4) [OF OtherEntry this tl] lists_child [OF 3(6), of "[]"] lists_other OtherEntry show ?thesis by simp
  qed
qed

section \<open>Dropping\<close>

text \<open>The overlay over the chat: the nesting depth of the drag, whether it is hidden, and its text when
  it is not the usual hint.\<close>

record drop_ui =
  dragDepth :: nat
  overlay_hidden :: bool
  overlay_text :: "jstr option"

definition initial_drop_ui :: drop_ui where
  "initial_drop_ui = \<lparr>dragDepth = 0, overlay_hidden = True, overlay_text = None\<rparr>"

definition isFileDrag :: "jstr list option \<Rightarrow> bool" where
  "isFileDrag types = (lit ''Files'' \<in> set (case types of None \<Rightarrow> [] | Some ts \<Rightarrow> ts))"

definition drag_enter :: "jstr list option \<Rightarrow> drop_ui \<Rightarrow> drop_ui" where
  "drag_enter types u =
     (if \<not> isFileDrag types then u else u\<lparr>dragDepth := dragDepth u + 1, overlay_hidden := False\<rparr>)"

text \<open>The answer to the browser while a drag is over the chat; \<open>None\<close> leaves it to the browser.\<close>

definition drag_over :: "jstr list option \<Rightarrow> page \<Rightarrow> jstr option" where
  "drag_over types p =
     (if \<not> isFileDrag types then None else Some (if isOpen p then lit ''copy'' else lit ''none''))"

definition drag_leave :: "drop_ui \<Rightarrow> drop_ui" where
  "drag_leave u =
     (if dragDepth u = 0 then u
      else (let u1 = u\<lparr>dragDepth := dragDepth u - 1\<rparr> in
            if dragDepth u1 = 0 then u1\<lparr>overlay_hidden := True\<rparr> else u1))"

text \<open>What a drop does, in order.  \<open>SendFile\<close> is a call of \<open>uploadAndSend\<close>, awaited before the next.\<close>

datatype drop_action =
    DropAlert jstr
  | ShowPacking jstr
  | EndPacking
  | SendFile js_file

type_synonym packer = "(jstr \<times> js_file \<times> nat) list \<Rightarrow> jstr + byte list"

definition packing :: "jstr \<Rightarrow> jstr" where
  "packing n = [0x6B63, 0x5728, 0x6253, 0x5305] @ quoted n @ [0x2026]"

definition zip_file :: "nat \<Rightarrow> jstr \<Rightarrow> byte list \<Rightarrow> js_file" where
  "zip_file now_ms n blob =
     \<lparr>f_name = n @ lit ''.zip'', f_type = lit ''application/zip'', f_lastModified = now_ms, f_content = blob\<rparr>"

text \<open>\<open>zipDirectory\<close>: an exception, or the file if there is one, with the actions on the way.\<close>

definition zipDirectory ::
    "packer \<Rightarrow> nat \<Rightarrow> jstr \<Rightarrow> dir_reader \<Rightarrow> (jstr + js_file option) \<times> drop_action list" where
  "zipDirectory pack now_ms n bs =
     (case listDirectory bs n of
        Inl err \<Rightarrow> (Inl err, [])
      | Inr its \<Rightarrow>
          if its = [] then (Inr None, [DropAlert ([0x6587, 0x4EF6, 0x5939] @ quoted n @ [0x662F, 0x7A7A, 0x7684, 0x3002])])
          else
            let acts = [ShowPacking n, EndPacking] in
            case pack (map (\<lambda>(path, f). (path, f, f_lastModified f)) its) of
              Inl err \<Rightarrow> (Inl err, acts)
            | Inr blob \<Rightarrow> (Inr (Some (zip_file now_ms n blob)), acts))"

definition read_failed :: "jstr \<Rightarrow> jstr \<Rightarrow> drop_action" where
  "read_failed n err = DropAlert (quoted n @ [0x8BFB, 0x53D6, 0x5931, 0x8D25, 0xFF1A] @ err)"

text \<open>One round of the loop over the dropped entries.\<close>

definition drop_entry :: "packer \<Rightarrow> nat \<Rightarrow> fs_entry \<Rightarrow> drop_action list" where
  "drop_entry pack now_ms e =
     (case e of
        DirEntry n bs \<Rightarrow>
          (case zipDirectory pack now_ms n bs of
             (Inl err, acts) \<Rightarrow> acts @ [read_failed n err]
           | (Inr None, acts) \<Rightarrow> acts
           | (Inr (Some f), acts) \<Rightarrow> acts @ [SendFile f])
      | FileEntry n (Inl err) \<Rightarrow> [read_failed n err]
      | FileEntry n (Inr f) \<Rightarrow> [SendFile f]
      | OtherEntry n err \<Rightarrow> [read_failed n err])"

record drop_item =
  di_kind :: jstr
  di_entry :: "fs_entry option"

text \<open>
  The drop: the plain list of files is used when some item has no entry.  \<open>clock_ms\<close> is the time when
  the archive of the \<open>k\<close>-th entry is made.
\<close>

definition drop_files :: "packer \<Rightarrow> (nat \<Rightarrow> nat) \<Rightarrow> drop_item list \<Rightarrow> js_file list \<Rightarrow> drop_action list" where
  "drop_files pack clock_ms its plain =
     (let entries = map di_entry (filter (\<lambda>it. di_kind it = lit ''file'') its) in
      if entries = [] \<or> None \<in> set entries then map SendFile plain
      else concat (map (\<lambda>k. drop_entry pack (clock_ms k) (the (entries ! k))) [0..<length entries]))"

text \<open>
  \<open>zipDirectory\<close> around its last \<open>await\<close>: it saves the nodes of the hint, shows its own text, and in the
  end (\<open>finally\<close>) puts the saved ones back.
\<close>

definition zip_begin :: "jstr \<Rightarrow> drop_ui \<Rightarrow> jstr option \<times> drop_ui" where
  "zip_begin n u = (overlay_text u, u\<lparr>overlay_text := Some (packing n), overlay_hidden := False\<rparr>)"

definition zip_end :: "jstr option \<Rightarrow> drop_ui \<Rightarrow> drop_ui" where
  "zip_end old u = u\<lparr>overlay_hidden := True, overlay_text := old\<rparr>"

fun on_overlay :: "drop_action \<Rightarrow> jstr option \<times> drop_ui \<Rightarrow> jstr option \<times> drop_ui" where
  "on_overlay (ShowPacking n) (old, u) = zip_begin n u"
| "on_overlay EndPacking (old, u) = (old, zip_end old u)"
| "on_overlay (DropAlert m) (old, u) = (old, u)"
| "on_overlay (SendFile f) (old, u) = (old, u)"

text \<open>
  The handler is asynchronous, so several drops can be on their way at a time, and the drag handlers run in between.
  A drop in progress has its next actions, the nodes it saved and what it did.  \<open>drop_handler\<close> is the part up to the
  first \<open>await\<close>; \<open>drop_onward\<close> lets drop \<open>k\<close> do its next action, when what it awaited is there.
\<close>

record drop_task =
  dt_todo :: "drop_action list"
  dt_saved :: "jstr option"
  dt_did :: "drop_action list"

record drop_page =
  dp_ui :: drop_ui
  dp_tasks :: "drop_task list"

definition drop_handler ::
    "packer \<Rightarrow> (nat \<Rightarrow> nat) \<Rightarrow> jstr list option \<Rightarrow> drop_item list \<Rightarrow> js_file list \<Rightarrow> drop_page \<Rightarrow> drop_page" where
  "drop_handler pack clock_ms types its plain d =
     (if \<not> isFileDrag types then d
      else d\<lparr>dp_ui := (dp_ui d)\<lparr>dragDepth := 0, overlay_hidden := True\<rparr>,
             dp_tasks := dp_tasks d @ [\<lparr>dt_todo = drop_files pack clock_ms its plain, dt_saved = None, dt_did = []\<rparr>]\<rparr>)"

definition drop_onward :: "nat \<Rightarrow> drop_page \<Rightarrow> drop_page" where
  "drop_onward k d =
     (if k < length (dp_tasks d) then
        (case dt_todo (dp_tasks d ! k) of
           [] \<Rightarrow> d
         | a # rest \<Rightarrow>
             (let t = dp_tasks d ! k; (sv, u) = on_overlay a (dt_saved t, dp_ui d)
              in d\<lparr>dp_ui := u, dp_tasks := (dp_tasks d)[k := \<lparr>dt_todo = rest, dt_saved = sv, dt_did = dt_did t @ [a]\<rparr>]\<rparr>))
      else d)"

datatype drop_event =
    DragEnter "jstr list option"
  | DragLeave
  | Dropped "nat \<Rightarrow> nat" "jstr list option" "drop_item list" "js_file list"
  | Onward nat

fun drop_step :: "packer \<Rightarrow> drop_event \<Rightarrow> drop_page \<Rightarrow> drop_page" where
  "drop_step pack (DragEnter types) d = d\<lparr>dp_ui := drag_enter types (dp_ui d)\<rparr>"
| "drop_step pack DragLeave d = d\<lparr>dp_ui := drag_leave (dp_ui d)\<rparr>"
| "drop_step pack (Dropped clock_ms types its plain) d = drop_handler pack clock_ms types its plain d"
| "drop_step pack (Onward k) d = drop_onward k d"

definition drop_run :: "packer \<Rightarrow> drop_event list \<Rightarrow> drop_page" where
  "drop_run pack evs = fold (drop_step pack) evs \<lparr>dp_ui = initial_drop_ui, dp_tasks = []\<rparr>"

text \<open>The file picker sends what was picked, in order.\<close>

definition picked_files :: "js_file list option \<Rightarrow> drop_action list" where
  "picked_files fs = map SendFile (case fs of None \<Rightarrow> [] | Some l \<Rightarrow> l)"

section \<open>Properties\<close>

text \<open>
  C24. The archive of a dropped folder contains the folder: whatever the nesting and
  however the browser cuts the directories into batches, the files handed to the zip library are
  exactly the files in the folder and below, each once, and each under its own path, so that none
  replaces another.
\<close>

theorem folder_zip_complete:
  assumes "folder_ok bs" and "zipDirectory pack now_ms n bs = (Inr (Some z), acts)"
  shows "\<exists>its. pack (map (\<lambda>(path, f). (path, f, f_lastModified f)) its) = Inr (f_content z)
    \<and> distinct (map fst its) \<and> (\<forall>p f. (p, f) \<in> set its \<longleftrightarrow> in_folder bs n p f)"
proof -
  from assms(2) obtain its where l: "listDirectory bs n = Inr its"
    and p: "pack (map (\<lambda>(path, f). (path, f, f_lastModified f)) its) = Inr (f_content z)"
    by (auto simp: zipDirectory_def zip_file_def Let_def split: sum.splits if_splits)
  from listing(1) [OF l assms(1)] p show ?thesis unfolding lists_def by blast
qed

text \<open>What a dropped entry may come to.\<close>

fun is_outcome :: "drop_action \<Rightarrow> bool" where
  "is_outcome (DropAlert m) = True"
| "is_outcome (SendFile f) = True"
| "is_outcome _ = False"

fun accounted :: "fs_entry \<Rightarrow> drop_action \<Rightarrow> bool" where
  "accounted (FileEntry n (Inr f)) a = (a = SendFile f)"
| "accounted (DirEntry n bs) (SendFile f) = (f_name f = n @ lit ''.zip'' \<and> (\<exists>its. listDirectory bs n = Inr its \<and> its \<noteq> []))"
| "accounted e (DropAlert m) = (\<exists>pre post. m = pre @ quoted (entry_name e) @ post)"
| "accounted e a = False"

lemma alert_named: "read_failed n err = DropAlert m \<Longrightarrow> \<exists>pre post. m = pre @ quoted n @ post"
  unfolding read_failed_def by (intro exI [of _ "[]"] exI [of _ "[0x8BFB, 0x53D6, 0x5931, 0x8D25, 0xFF1A] @ err"]) simp

lemma drop_entry_accounted: "\<exists>a. filter is_outcome (drop_entry pack now_ms e) = [a] \<and> accounted e a"
proof (cases e)
  case (FileEntry n r)
  then show ?thesis using alert_named [of n] by (cases r) (auto simp: drop_entry_def read_failed_def)
next
  case (OtherEntry n err)
  then show ?thesis using alert_named [of n err] by (auto simp: drop_entry_def read_failed_def)
next
  case (DirEntry n bs)
  have failed: "\<exists>pre post. quoted n @ [0x8BFB, 0x53D6, 0x5931, 0x8D25, 0xFF1A] @ err = pre @ quoted n @ post" for err
    using alert_named [of n err] by (simp add: read_failed_def)
  have empty: "\<exists>pre post. [0x6587, 0x4EF6, 0x5939] @ quoted n @ [0x662F, 0x7A7A, 0x7684, 0x3002] = pre @ quoted n @ post" by blast
  show ?thesis
  proof (cases "listDirectory bs n")
    case (Inl err)
    with DirEntry failed show ?thesis by (auto simp: drop_entry_def zipDirectory_def read_failed_def)
  next
    case (Inr its)
    show ?thesis
    proof (cases "its = []")
      case True
      with Inr DirEntry empty show ?thesis by (auto simp: drop_entry_def zipDirectory_def)
    next
      case False
      with Inr DirEntry failed show ?thesis
        by (cases "pack (map (\<lambda>(path, f). (path, f, f_lastModified f)) its)")
          (auto simp: drop_entry_def zipDirectory_def read_failed_def zip_file_def)
    qed
  qed
qed

definition drop_all :: "packer \<Rightarrow> (nat \<times> fs_entry) list \<Rightarrow> drop_action list" where
  "drop_all pack ces = concat (map (\<lambda>(c, e). drop_entry pack c e) ces)"

lemma drop_all_accounted: "list_all2 accounted (map snd ces) (filter is_outcome (drop_all pack ces))"
proof (induction ces)
  case (Cons ce ces)
  obtain c e where ce: "ce = (c, e)" by (cases ce)
  from drop_entry_accounted [of pack c e] obtain a where "filter is_outcome (drop_entry pack c e) = [a]" "accounted e a"
    by blast
  with Cons ce show ?case by (simp add: drop_all_def)
qed (simp add: drop_all_def)

lemma drop_files_entries:
  assumes "map di_entry (filter (\<lambda>it. di_kind it = lit ''file'') its) = map Some es" and "es \<noteq> []"
  shows "drop_files pack clock_ms its plain = drop_all pack (map (\<lambda>k. (clock_ms k, es ! k)) [0..<length es])"
proof -
  have "None \<notin> set (map Some es)" by auto
  with assms show ?thesis
    by (auto simp: drop_files_def drop_all_def Let_def comp_def intro!: arg_cong [where f = concat])
qed

text \<open>The drops of a run that the page handles: the items, the plain files and the clock of each, in order.\<close>

fun handled_drop :: "drop_event \<Rightarrow> (drop_item list \<times> js_file list \<times> (nat \<Rightarrow> nat)) list" where
  "handled_drop (Dropped clock_ms types its plain) = (if isFileDrag types then [(its, plain, clock_ms)] else [])"
| "handled_drop _ = []"

definition handled_drops :: "drop_event list \<Rightarrow> (drop_item list \<times> js_file list \<times> (nat \<Rightarrow> nat)) list" where
  "handled_drops evs = concat (map handled_drop evs)"

lemma drop_run_snoc: "drop_run pack (evs @ [e]) = drop_step pack e (drop_run pack evs)"
  by (simp add: drop_run_def)

lemma drop_onward_task:
  "drop_onward k d = d \<or> (\<exists>a rest sv u. k < length (dp_tasks d) \<and> dt_todo (dp_tasks d ! k) = a # rest
     \<and> on_overlay a (dt_saved (dp_tasks d ! k), dp_ui d) = (sv, u)
     \<and> drop_onward k d = d\<lparr>dp_ui := u, dp_tasks := (dp_tasks d)[k := \<lparr>dt_todo = rest, dt_saved = sv,
          dt_did = dt_did (dp_tasks d ! k) @ [a]\<rparr>]\<rparr>)"
  by (cases "on_overlay (hd (dt_todo (dp_tasks d ! k))) (dt_saved (dp_tasks d ! k), dp_ui d)")
    (auto simp: drop_onward_def split: list.split)

text \<open>Each handled drop does its own actions in order, whatever the others do.\<close>

lemma drop_progress:
  "list_all2 (\<lambda>(its, plain, clock_ms) t. dt_did t @ dt_todo t = drop_files pack clock_ms its plain)
     (handled_drops evs) (dp_tasks (drop_run pack evs))"
proof (induction evs rule: rev_induct)
  case (snoc e evs)
  let ?P = "\<lambda>(its, plain, clock_ms) t. dt_did t @ dt_todo t = drop_files pack clock_ms its plain"
  show ?case
  proof (cases e)
    case (Dropped clock_ms types its plain)
    with snoc show ?thesis
      by (auto simp: drop_run_snoc handled_drops_def drop_handler_def intro: list_all2_appendI)
  next
    case (Onward k)
    let ?d = "drop_run pack evs"
    from drop_onward_task [of k ?d] show ?thesis
    proof (elim disjE exE conjE)
      fix a rest sv u
      assume k: "k < length (dp_tasks ?d)" and t: "dt_todo (dp_tasks ?d ! k) = a # rest"
        and d: "drop_onward k ?d = ?d\<lparr>dp_ui := u, dp_tasks := (dp_tasks ?d)[k := \<lparr>dt_todo = rest, dt_saved = sv,
          dt_did = dt_did (dp_tasks ?d ! k) @ [a]\<rparr>]\<rparr>"
      from snoc k t have "?P (handled_drops evs ! k) \<lparr>dt_todo = rest, dt_saved = sv, dt_did = dt_did (dp_tasks ?d ! k) @ [a]\<rparr>"
        by (auto simp: list_all2_conv_all_nth split_beta)
      with snoc k d Onward show ?thesis
        by (simp add: drop_run_snoc handled_drops_def list_all2_conv_all_nth nth_list_update split_beta)
    qed (use snoc Onward in \<open>simp add: drop_run_snoc handled_drops_def\<close>)
  qed (use snoc in \<open>simp_all add: drop_run_snoc handled_drops_def\<close>)
qed (simp add: handled_drops_def drop_run_def)

text \<open>The overlay: showing a text and ending come in pairs, and a drop between the two is packing.\<close>

fun paired :: "drop_action list \<Rightarrow> bool" where
  "paired [] = True"
| "paired (ShowPacking n # as) = (case as of EndPacking # bs \<Rightarrow> paired bs | _ \<Rightarrow> False)"
| "paired (EndPacking # as) = False"
| "paired (DropAlert m # as) = paired as"
| "paired (SendFile f # as) = paired as"

lemma paired_append: "paired as \<Longrightarrow> paired bs \<Longrightarrow> paired (as @ bs)"
  by (induction as rule: paired.induct) (auto split: list.splits drop_action.splits)

lemma paired_entry: "paired (drop_entry pack c e)"
  by (auto simp: drop_entry_def zipDirectory_def read_failed_def Let_def split: fs_entry.split sum.split option.split)

lemma paired_concat: "\<forall>x \<in> set xs. paired (f x) \<Longrightarrow> paired (concat (map f xs))"
  by (induction xs) (simp_all add: paired_append)

lemma paired_files: "paired (drop_files pack clock_ms its plain)"
proof -
  have "paired (map SendFile fs)" for fs by (induction fs) simp_all
  then show ?thesis by (simp add: drop_files_def Let_def paired_concat paired_entry)
qed

definition is_packing :: "drop_task \<Rightarrow> bool" where
  "is_packing t = (case dt_todo t of a # rest \<Rightarrow> a = EndPacking | [] \<Rightarrow> False)"

definition apart :: "drop_page \<Rightarrow> bool" where
  "apart d \<longleftrightarrow> (\<forall>i < length (dp_tasks d). \<forall>j < length (dp_tasks d).
     is_packing (dp_tasks d ! i) \<and> is_packing (dp_tasks d ! j) \<longrightarrow> i = j)"

text \<open>A drop goes on as it should, and what it saved while packing is the hint.\<close>

definition task_ok :: "drop_task \<Rightarrow> bool" where
  "task_ok t \<longleftrightarrow> (paired (dt_todo t) \<or> (\<exists>rest. dt_todo t = EndPacking # rest \<and> paired rest \<and> dt_saved t = None))"

definition overlay_ok :: "drop_page \<Rightarrow> bool" where
  "overlay_ok d \<longleftrightarrow> (\<forall>t \<in> set (dp_tasks d). task_ok t)
     \<and> ((\<forall>t \<in> set (dp_tasks d). \<not> is_packing t) \<longrightarrow> overlay_text (dp_ui d) = None)"

lemma paired_not_packing: "paired (dt_todo t) \<Longrightarrow> \<not> is_packing t"
  by (auto simp: is_packing_def split: list.splits)

lemma onward_overlay:
  assumes ok: "overlay_ok d" and after: "apart (drop_onward k d)"
  shows "overlay_ok (drop_onward k d)"
  using drop_onward_task [of k d]
proof (elim disjE exE conjE)
  fix a rest sv u
  let ?t = "\<lparr>dt_todo = rest, dt_saved = sv, dt_did = dt_did (dp_tasks d ! k) @ [a]\<rparr>"
  assume k: "k < length (dp_tasks d)" and todo: "dt_todo (dp_tasks d ! k) = a # rest"
    and o: "on_overlay a (dt_saved (dp_tasks d ! k), dp_ui d) = (sv, u)"
    and d: "drop_onward k d = d\<lparr>dp_ui := u, dp_tasks := (dp_tasks d)[k := ?t]\<rparr>"
  have old: "task_ok (dp_tasks d ! k)" using ok k by (simp add: overlay_ok_def)
  have others: "\<forall>t \<in> set ((dp_tasks d)[k := ?t]). t = ?t \<or> task_ok t"
    using ok set_update_subset_insert [of "dp_tasks d" k ?t] by (auto simp: overlay_ok_def)
  have here: "?t \<in> set ((dp_tasks d)[k := ?t])" using k by (rule set_update_memI)
  show ?thesis
  proof (cases a)
    case (ShowPacking n)
    from old todo ShowPacking obtain r where r: "rest = EndPacking # r" "paired r"
      by (auto simp: task_ok_def split: list.splits drop_action.splits)
    have "\<not> is_packing t" if "t \<in> set (dp_tasks d)" for t
    proof -
      from that obtain j where j: "j < length (dp_tasks d)" "dp_tasks d ! j = t" by (auto simp: in_set_conv_nth)
      show ?thesis
      proof (cases "j = k")
        case True
        with j todo ShowPacking show ?thesis by (simp add: is_packing_def)
      next
        case False
        have "is_packing ?t" using r by (simp add: is_packing_def)
        with after [unfolded apart_def d, rule_format, of j k] j k False show ?thesis by auto
      qed
    qed
    with ok o ShowPacking have "sv = None" by (simp add: overlay_ok_def zip_begin_def)
    with r have "task_ok ?t" "is_packing ?t" by (simp_all add: task_ok_def is_packing_def)
    with others d here show ?thesis unfolding overlay_ok_def by auto
  next
    case EndPacking
    with old todo o have "paired rest" "overlay_text u = None" by (auto simp: task_ok_def zip_end_def)
    with others d show ?thesis by (auto simp: overlay_ok_def task_ok_def)
  next
    case (DropAlert m)
    with old todo o have p: "paired rest" and u: "u = dp_ui d" by (auto simp: task_ok_def)
    have "\<not> is_packing (dp_tasks d ! k)" using todo DropAlert by (simp add: is_packing_def)
    with u ok k have "(\<forall>t \<in> set ((dp_tasks d)[k := ?t]). \<not> is_packing t) \<Longrightarrow> overlay_text u = None"
      unfolding overlay_ok_def by (metis in_set_conv_nth length_list_update nth_list_update_neq)
    with p others d show ?thesis by (auto simp: overlay_ok_def task_ok_def)
  next
    case (SendFile f)
    with old todo o have p: "paired rest" and u: "u = dp_ui d" by (auto simp: task_ok_def)
    have "\<not> is_packing (dp_tasks d ! k)" using todo SendFile by (simp add: is_packing_def)
    with u ok k have "(\<forall>t \<in> set ((dp_tasks d)[k := ?t]). \<not> is_packing t) \<Longrightarrow> overlay_text u = None"
      unfolding overlay_ok_def by (metis in_set_conv_nth length_list_update nth_list_update_neq)
    with p others d show ?thesis by (auto simp: overlay_ok_def task_ok_def)
  qed
qed (use ok in simp)

lemma overlay_run:
  "\<forall>n \<le> length evs. apart (drop_run pack (take n evs)) \<Longrightarrow> overlay_ok (drop_run pack evs)"
proof (induction evs rule: rev_induct)
  case (snoc e evs)
  have "\<forall>n \<le> length evs. apart (drop_run pack (take n evs))"
  proof (intro allI impI)
    fix n assume "n \<le> length evs"
    with snoc(2) [rule_format, of n] show "apart (drop_run pack (take n evs))" by simp
  qed
  with snoc(1) have ok: "overlay_ok (drop_run pack evs)" by simp
  have after: "apart (drop_step pack e (drop_run pack evs))"
    using snoc(2) [rule_format, of "Suc (length evs)"] by (simp add: drop_run_snoc)
  show ?case
  proof (cases e)
    case (Onward k)
    with onward_overlay [OF ok] after show ?thesis by (simp add: drop_run_snoc)
  next
    case (Dropped clock_ms types its plain)
    with ok paired_files [of pack clock_ms its plain] show ?thesis
      by (auto simp: drop_run_snoc drop_handler_def overlay_ok_def task_ok_def is_packing_def split: list.splits)
  qed (use ok in \<open>auto simp: drop_run_snoc overlay_ok_def drag_enter_def drag_leave_def Let_def\<close>)
qed (simp add: drop_run_def overlay_ok_def initial_drop_ui_def)

text \<open>
  C33. No dropped entry is passed over.  In any interleaving of drops, of their awaited
  actions and of drags, each drop whose items are all entries deals with them in order: what it has done up to now
  is to have called \<open>uploadAndSend\<close> for an entry (a file as itself, a folder as one archive named after it that is not empty) or named it
  in a message to the user, whatever goes wrong with it, and one that fails does not keep the
  others back; when the drop has ended, that is all its entries.  (\<open>uploadAndSend\<close> itself passes over a file when the room is left.)
  If no two folders are ever packed at the same time, the overlay has its usual hint whenever none is being packed.
\<close>

theorem drop_accounts_for_all:
  assumes "k < length (handled_drops evs)" and "handled_drops evs ! k = (its, plain, clock_ms)"
    and "map di_entry (filter (\<lambda>it. di_kind it = lit ''file'') its) = map Some es" and "es \<noteq> []"
    and "dp_tasks (drop_run pack evs) ! k = t"
  shows "list_all2 accounted (take (length (filter is_outcome (dt_did t))) es) (filter is_outcome (dt_did t))
    \<and> (dt_todo t = [] \<longrightarrow> length (filter is_outcome (dt_did t)) = length es)
    \<and> ((\<forall>n \<le> length evs. apart (drop_run pack (take n evs))) \<and> (\<forall>t \<in> set (dp_tasks (drop_run pack evs)). \<not> is_packing t)
       \<longrightarrow> overlay_text (dp_ui (drop_run pack evs)) = None)"
proof -
  let ?ces = "map (\<lambda>k. (clock_ms k, es ! k)) [0..<length es]"
  have all: "dt_did t @ dt_todo t = drop_all pack ?ces"
    using drop_progress [of pack evs] assms by (auto simp: list_all2_conv_all_nth drop_files_entries [OF assms(3,4)])
  have "map snd ?ces = es" by (simp add: comp_def map_nth)
  with drop_all_accounted [of ?ces pack] have acc: "list_all2 accounted es (filter is_outcome (dt_did t @ dt_todo t))"
    unfolding all by metis
  then have "list_all2 accounted (take (length (filter is_outcome (dt_did t))) es) (filter is_outcome (dt_did t))"
    by (auto simp: list_all2_append2)
  moreover have "dt_todo t = [] \<longrightarrow> length (filter is_outcome (dt_did t)) = length es"
    using list_all2_lengthD [OF acc] by auto
  ultimately show ?thesis using overlay_run [of evs pack] by (auto simp: overlay_ok_def)
qed

text \<open>Both on a folder with a subfolder, read in two batches, next to an unreadable file.\<close>

definition leaf :: js_file where
  "leaf = \<lparr>f_name = lit ''b'', f_type = [], f_lastModified = 3, f_content = [9]\<rparr>"

definition demo_reader :: dir_reader where
  "demo_reader = [Inr [FileEntry (lit ''b'') (Inr leaf)], Inr [DirEntry (lit ''c'') [Inr [FileEntry (lit ''b'') (Inr leaf)]]], Inr []]"

definition demo_pack :: packer where
  "demo_pack fs = Inr (concat (map (\<lambda>(p, f, d). p @ f_content f) fs))"

lemma demo_listing:
  "listDirectory demo_reader (lit ''a'') = Inr [(lit ''a/b'', leaf), (lit ''a/c/b'', leaf)]"
  by (simp add: demo_reader_def listDirectory.simps list_children.simps sub_path_def js_eval)

lemma demo_folder_ok: "folder_ok demo_reader"
proof -
  have inner: "folder_ok [Inr [FileEntry (lit ''b'') (Inr leaf)]]"
    by (rule folder_ok.intros) (simp_all add: all_children_def js_eval)
  show ?thesis
  proof (rule folder_ok.intros)
    fix n inner
    assume "DirEntry n inner \<in> set (all_children demo_reader)"
    then show "folder_ok inner" using inner by (simp add: all_children_def demo_reader_def)
  qed (simp_all add: all_children_def demo_reader_def js_eval)
qed

theorem folder_zip_complete_witness:
  "\<exists>its. demo_pack (map (\<lambda>(path, f). (path, f, f_lastModified f)) its) = Inr (lit ''a/b'' @ [9] @ lit ''a/c/b'' @ [9])
    \<and> distinct (map fst its) \<and> (\<forall>p f. (p, f) \<in> set its \<longleftrightarrow> in_folder demo_reader (lit ''a'') p f)"
proof -
  have "zipDirectory demo_pack 5 (lit ''a'') demo_reader
      = (Inr (Some (zip_file 5 (lit ''a'') (lit ''a/b'' @ [9] @ lit ''a/c/b'' @ [9]))), [ShowPacking (lit ''a''), EndPacking])"
    by (simp add: zipDirectory_def demo_listing demo_pack_def leaf_def Let_def)
  from folder_zip_complete [OF demo_folder_ok this] show ?thesis by (simp add: zip_file_def)
qed

text \<open>A folder and an unreadable file are dropped, and a second drop comes while the folder is being packed.\<close>

definition demo_drops :: "drop_event list" where
  "demo_drops =
     [Dropped (\<lambda>k. 5) (Some [lit ''Files''])
        [\<lparr>di_kind = lit ''file'', di_entry = Some (DirEntry (lit ''a'') demo_reader)\<rparr>,
         \<lparr>di_kind = lit ''file'', di_entry = Some (FileEntry (lit ''x'') (Inl (lit ''gone'')))\<rparr>] [],
      Onward 0,
      Dropped (\<lambda>k. 6) (Some [lit ''Files'']) [\<lparr>di_kind = lit ''file'', di_entry = Some (FileEntry (lit ''b'') (Inr leaf))\<rparr>] [],
      Onward 1, Onward 0, Onward 0, Onward 0]"

lemma demo_files:
  "drop_files demo_pack (\<lambda>k. 5)
     [\<lparr>di_kind = lit ''file'', di_entry = Some (DirEntry (lit ''a'') demo_reader)\<rparr>,
      \<lparr>di_kind = lit ''file'', di_entry = Some (FileEntry (lit ''x'') (Inl (lit ''gone'')))\<rparr>] []
   = [ShowPacking (lit ''a''), EndPacking, SendFile (zip_file 5 (lit ''a'') (lit ''a/b'' @ [9] @ lit ''a/c/b'' @ [9])),
      read_failed (lit ''x'') (lit ''gone'')]"
  "drop_files demo_pack (\<lambda>k. 6) [\<lparr>di_kind = lit ''file'', di_entry = Some (FileEntry (lit ''b'') (Inr leaf))\<rparr>] []
   = [SendFile leaf]"
  "read_failed (lit ''x'') (lit ''gone'') = DropAlert (quoted (lit ''x'') @ [0x8BFB, 0x53D6, 0x5931, 0x8D25, 0xFF1A] @ lit ''gone'')"
  by (simp_all add: drop_files_def drop_entry_def zipDirectory_def demo_listing demo_pack_def leaf_def read_failed_def)

lemma demo_drops_run:
  "map (\<lambda>t. (dt_todo t, length (filter is_outcome (dt_did t)))) (dp_tasks (drop_run demo_pack demo_drops)) = [([], 2), ([], 1)]"
  by (simp add: demo_drops_def drop_run_def drop_handler_def drop_onward_def demo_files isFileDrag_def
      zip_begin_def zip_end_def)

theorem drop_accounts_for_all_witness:
  "list_all2 accounted [DirEntry (lit ''a'') demo_reader, FileEntry (lit ''x'') (Inl (lit ''gone''))]
     (filter is_outcome (dt_did (dp_tasks (drop_run demo_pack demo_drops) ! 0)))"
proof -
  let ?es = "[DirEntry (lit ''a'') demo_reader, FileEntry (lit ''x'') (Inl (lit ''gone''))]"
  let ?its = "map (\<lambda>e. \<lparr>di_kind = lit ''file'', di_entry = Some e\<rparr>) ?es"
  let ?t = "dp_tasks (drop_run demo_pack demo_drops) ! 0"
  have h: "handled_drops demo_drops ! 0 = (?its, [], \<lambda>k. 5)" "0 < length (handled_drops demo_drops)"
    by (simp_all add: handled_drops_def demo_drops_def isFileDrag_def)
  have "length (filter is_outcome (dt_did ?t)) = 2"
    using arg_cong [OF demo_drops_run, of "\<lambda>l. snd (l ! 0)"] arg_cong [OF demo_drops_run, of length] by simp
  with drop_accounts_for_all [OF h(2,1), of ?es demo_pack ?t] show ?thesis by simp
qed

text \<open>
  The condition on the packing is needed.  Two folders dropped one after the other, the second while the first is still being packed: the
  second saves the first one's text as if it were the hint, and puts it back at the end, where it
  stays.
\<close>

lemma hint_lost:
  assumes "overlay_text u = None" and "zip_begin a u = (h1, u1)" and "zip_begin b u1 = (h2, u2)"
  shows "overlay_text (zip_end h2 (zip_end h1 u2)) = Some (packing a)"
  using assms by (auto simp: zip_begin_def zip_end_def)

end
