(* ===== verification/Auth.thy ===== *)
theory Auth
  imports Join
begin

text \<open>
  The room PIN at the hub (internal/server/auth.go): sessions, the count of failed attempts per
  address, \<open>handleAuth\<close> and the clean-up.  Times are nanoseconds; a request reads the clock when it
  is checked (\<open>now\<close>) and when its outcome is recorded (\<open>later\<close>).  The address a request counts
  for is an argument (Client_Address computes it), and so is the token \<open>randomID\<close> gives.
\<close>

section \<open>State\<close>

record fail_window =
  fw_count :: nat
  fw_start :: nat

record auth =
  auth_pin :: jstr
  auth_sessions :: "jstr \<Rightarrow> nat option"
  auth_fails :: "jstr \<Rightarrow> fail_window option"

definition sessionTTL :: nat where
  "sessionTTL = 30 * 24 * 60 * 60 * 10 ^ 9"

definition authFailLimit :: nat where
  "authFailLimit = 5"

definition authFailWindow :: nat where
  "authFailWindow = 60 * 10 ^ 9"

definition newAuthState :: "jstr \<Rightarrow> auth" where
  "newAuthState pin = \<lparr>auth_pin = pin, auth_sessions = Map.empty, auth_fails = Map.empty\<rparr>"

definition auth_enabled :: "auth \<Rightarrow> bool" where
  "auth_enabled a = (auth_pin a \<noteq> [])"

text \<open>\<open>authorized\<close>; a request has the session cookie or not.\<close>

definition auth_allows :: "auth \<Rightarrow> jstr option \<Rightarrow> nat \<Rightarrow> bool" where
  "auth_allows a cookie now =
     (if \<not> auth_enabled a then True
      else case cookie of
        None \<Rightarrow> False
      | Some c \<Rightarrow> (case auth_sessions a c of None \<Rightarrow> False | Some exp \<Rightarrow> now < exp))"

text \<open>\<open>requireAuth\<close> around a handler.\<close>

definition requireAuth :: "auth \<Rightarrow> jstr option \<Rightarrow> nat \<Rightarrow> (nat \<times> 'a) \<Rightarrow> 'a \<Rightarrow> nat \<times> 'a" where
  "requireAuth a cookie now handled untouched =
     (if \<not> auth_allows a cookie now then (401, untouched) else handled)"

definition tooManyFails :: "jstr \<Rightarrow> nat \<Rightarrow> auth \<Rightarrow> bool \<times> auth" where
  "tooManyFails peer now a =
     (case auth_fails a peer of
        None \<Rightarrow> (False, a)
      | Some f \<Rightarrow>
          if now - fw_start f > authFailWindow
          then (False, a\<lparr>auth_fails := (auth_fails a)(peer := None)\<rparr>)
          else (fw_count f \<ge> authFailLimit, a))"

definition recordFail :: "jstr \<Rightarrow> nat \<Rightarrow> auth \<Rightarrow> auth" where
  "recordFail peer now a =
     (let f0 = (case auth_fails a peer of Some f \<Rightarrow> f | None \<Rightarrow> \<lparr>fw_count = 0, fw_start = 0\<rparr>);
          f1 = (if fw_count f0 = 0 \<or> now - fw_start f0 > authFailWindow then \<lparr>fw_count = 0, fw_start = now\<rparr> else f0)
      in a\<lparr>auth_fails := (auth_fails a)(peer \<mapsto> f1\<lparr>fw_count := fw_count f1 + 1\<rparr>)\<rparr>)"

definition grant :: "jstr \<Rightarrow> jstr \<Rightarrow> nat \<Rightarrow> auth \<Rightarrow> auth" where
  "grant token peer later a =
     a\<lparr>auth_sessions := (auth_sessions a)(token \<mapsto> later + sessionTTL),
       auth_fails := (auth_fails a)(peer := None)\<rparr>"

text \<open>
  \<open>handleAuth\<close>.  Its check of the limit and its record of the outcome are two critical sections, and other
  requests can come between them, so the handler is two steps.  \<open>handleAuth_check\<close> is the part up to
  \<open>tooManyFails\<close>: the status it answers, or \<open>None\<close> when the request goes on.  \<open>handleAuth_compare\<close> is the rest: the
  status, the cookie it sets and the new state, where \<open>guess\<close> is the PIN of the decoded body, \<open>None\<close> when it
  cannot be decoded.  (The comparison itself reads only the PIN, which never changes.)
\<close>

definition handleAuth_check :: "jstr \<Rightarrow> jstr \<Rightarrow> nat \<Rightarrow> auth \<Rightarrow> nat option \<times> auth" where
  "handleAuth_check method peer now a =
     (if method \<noteq> lit ''POST'' then (Some 405, a)
      else if \<not> auth_enabled a then (Some 200, a)
      else
        let (blocked, a1) = tooManyFails peer now a in
        if blocked then (Some 429, a1) else (None, a1))"

definition handleAuth_compare ::
    "jstr \<Rightarrow> nat \<Rightarrow> jstr option \<Rightarrow> jstr option \<Rightarrow> auth \<Rightarrow> nat \<times> jstr option \<times> auth" where
  "handleAuth_compare peer later guess token a =
     (case guess of
        None \<Rightarrow> (400, None, a)
      | Some g \<Rightarrow>
          if g \<noteq> auth_pin a then (401, None, recordFail peer later a)
          else (case token of
                  None \<Rightarrow> (500, None, a)
                | Some t \<Rightarrow> (200, Some t, grant t peer later a)))"

text \<open>The handler with nothing in between.\<close>

definition handleAuth ::
    "jstr \<Rightarrow> jstr \<Rightarrow> nat \<Rightarrow> nat \<Rightarrow> jstr option \<Rightarrow> jstr option \<Rightarrow> auth \<Rightarrow> nat \<times> jstr option \<times> auth" where
  "handleAuth method peer now later guess token a =
     (case handleAuth_check method peer now a of
        (Some st, a1) \<Rightarrow> (st, None, a1)
      | (None, a1) \<Rightarrow> handleAuth_compare peer later guess token a1)"

lemmas handleAuth_defs = handleAuth_def handleAuth_check_def handleAuth_compare_def

text \<open>\<open>prune\<close>, run by the clean-up task.\<close>

definition auth_prune :: "nat \<Rightarrow> auth \<Rightarrow> auth" where
  "auth_prune now a =
     a\<lparr>auth_sessions := (\<lambda>t. case auth_sessions a t of
           None \<Rightarrow> None | Some exp \<Rightarrow> if now > exp then None else Some exp),
       auth_fails := (\<lambda>p. case auth_fails a p of
           None \<Rightarrow> None | Some f \<Rightarrow> if now - fw_start f > authFailWindow then None else Some f)\<rparr>"

section \<open>Runs\<close>

text \<open>
  The requests that passed the check and are not compared yet, with their number, address and guess, beside the state of
  the hub.  The steps of different requests and of the clean-up task come in any order.  A number in use is not
  given to a second request.
\<close>

record auth_room =
  rm_auth :: auth
  rm_flights :: "(nat \<times> jstr \<times> jstr option) list"

definition newRoom :: "jstr \<Rightarrow> auth_room" where
  "newRoom pin = \<lparr>rm_auth = newAuthState pin, rm_flights = []\<rparr>"

datatype auth_event =
    Arrive nat jstr jstr nat "jstr option"
  | Compare nat nat "jstr option"
  | PruneAt nat

text \<open>A step, with the status when a request is answered and the address it counts for.\<close>

fun auth_step :: "auth_event \<Rightarrow> auth_room \<Rightarrow> (jstr \<times> nat) option \<times> auth_room" where
  "auth_step (Arrive i method peer now guess) s =
     (if map_of (rm_flights s) i \<noteq> None then (None, s)
      else
        case handleAuth_check method peer now (rm_auth s) of
          (Some st, a) \<Rightarrow> (Some (peer, st), s\<lparr>rm_auth := a\<rparr>)
        | (None, a) \<Rightarrow> (None, s\<lparr>rm_auth := a, rm_flights := (i, peer, guess) # rm_flights s\<rparr>))"
| "auth_step (Compare i later token) s =
     (case map_of (rm_flights s) i of
        None \<Rightarrow> (None, s)
      | Some (peer, guess) \<Rightarrow>
          let (st, c, a) = handleAuth_compare peer later guess token (rm_auth s) in
          (Some (peer, st), s\<lparr>rm_auth := a, rm_flights := filter (\<lambda>f. fst f \<noteq> i) (rm_flights s)\<rparr>))"
| "auth_step (PruneAt now) s = (None, s\<lparr>rm_auth := auth_prune now (rm_auth s)\<rparr>)"

fun auth_run :: "auth_event list \<Rightarrow> auth_room \<Rightarrow> (jstr \<times> nat) option list \<times> auth_room" where
  "auth_run [] s = ([], s)"
| "auth_run (e # es) s =
     (let (r, s1) = auth_step e s; (rs, s2) = auth_run es s1 in (r # rs, s2))"

text \<open>The wrong guesses of an address that were compared with the PIN: the answers 401.\<close>

definition guesses :: "jstr \<Rightarrow> auth_event list \<Rightarrow> auth_room \<Rightarrow> nat" where
  "guesses p es s = count_list (fst (auth_run es s)) (Some (p, 401))"

lemma guesses_Nil [simp]: "guesses p [] s = 0"
  by (simp add: guesses_def)

lemma guesses_Cons:
  "guesses p (e # es) s = (if fst (auth_step e s) = Some (p, 401) then 1 else 0) + guesses p es (snd (auth_step e s))"
  by (simp add: guesses_def split_beta Let_def)

text \<open>The requests of an address between their check and their comparison, and the most there are at a time in a run.\<close>

definition in_flight :: "jstr \<Rightarrow> auth_room \<Rightarrow> nat" where
  "in_flight p s = length (filter (\<lambda>(i, q, g). q = p) (rm_flights s))"

fun peak :: "jstr \<Rightarrow> auth_event list \<Rightarrow> auth_room \<Rightarrow> nat" where
  "peak p [] s = in_flight p s"
| "peak p (e # es) s = max (in_flight p s) (peak p es (snd (auth_step e s)))"

lemma peak_first: "in_flight p s \<le> peak p es s"
  by (cases es) simp_all

text \<open>An event of the period, which brings no right PIN from \<open>p\<close>; the same for the requests in flight.\<close>

fun guessing :: "nat \<Rightarrow> nat \<Rightarrow> jstr \<Rightarrow> jstr \<Rightarrow> auth_event \<Rightarrow> bool" where
  "guessing t0 t1 p pin (Arrive i m q now g) = (t0 \<le> now \<and> now \<le> t1 \<and> (q = p \<longrightarrow> g \<noteq> Some pin))"
| "guessing t0 t1 p pin (Compare i later tok) = (t0 \<le> later \<and> later \<le> t1)"
| "guessing t0 t1 p pin (PruneAt now) = (t0 \<le> now \<and> now \<le> t1)"

definition wrong_flights :: "jstr \<Rightarrow> auth_room \<Rightarrow> bool" where
  "wrong_flights p s \<longleftrightarrow> (\<forall>(i, q, g) \<in> set (rm_flights s). q = p \<longrightarrow> g \<noteq> Some (auth_pin (rm_auth s)))"

text \<open>
  What an address may still try, when at most \<open>n\<close> of its requests are in flight at a time and \<open>k\<close> are now: what is left
  of its window and, if that window may expire, a whole one.  A window takes \<open>authFailLimit - 1 + n\<close> failures: the last
  request can pass the check when one failure is missing and \<open>n - 1\<close> others are on their way.
\<close>

definition window_room :: "nat \<Rightarrow> nat \<Rightarrow> nat \<Rightarrow> nat" where
  "window_room n k c = (if c < authFailLimit then authFailLimit - 1 + n - c else k)"

definition left_over :: "nat \<Rightarrow> nat \<Rightarrow> nat \<Rightarrow> fail_window option \<Rightarrow> nat" where
  "left_over t0 n k w =
     (case w of
        None \<Rightarrow> authFailLimit - 1 + n
      | Some f \<Rightarrow> window_room n k (fw_count f)
          + (if t0 \<le> fw_start f \<and> fw_count f \<noteq> 0 then 0 else authFailLimit - 1 + n))"

lemma check_pin [simp]:
  "auth_pin (snd (tooManyFails p now a)) = auth_pin a" "auth_pin (snd (handleAuth_check m p now a)) = auth_pin a"
  "auth_pin (recordFail p now a) = auth_pin a" "auth_pin (grant t p now a) = auth_pin a"
  by (simp_all add: handleAuth_check_def tooManyFails_def recordFail_def grant_def Let_def split_beta split: option.split)

lemma compare_pin [simp]: "auth_pin (snd (snd (handleAuth_compare p later g tok a))) = auth_pin a"
  by (simp add: handleAuth_compare_def split: option.split)

lemma auth_step_pin [simp]: "auth_pin (rm_auth (snd (auth_step e s))) = auth_pin (rm_auth s)"
proof (cases e)
  case (Arrive i m p now g)
  then show ?thesis
    using check_pin(2) [of m p now "rm_auth s"] by (auto simp: split_beta split: prod.splits option.splits)
qed (auto simp: auth_prune_def split_beta Let_def split: option.split)

lemma check_other: "q \<noteq> p \<Longrightarrow> auth_fails (snd (handleAuth_check m q now a)) p = auth_fails a p"
  by (simp add: handleAuth_check_def tooManyFails_def Let_def split_beta split: option.split)

lemma compare_other: "q \<noteq> p \<Longrightarrow> auth_fails (snd (snd (handleAuth_compare q later g tok a))) p = auth_fails a p"
  by (simp add: handleAuth_compare_def recordFail_def grant_def Let_def split: option.split)

lemma expired_old: "t1 \<le> t0 + authFailWindow \<Longrightarrow> now \<le> t1 \<Longrightarrow> now - st > authFailWindow \<Longrightarrow> \<not> t0 \<le> st"
  by linarith

lemma left_over_gone:
  "t1 \<le> t0 + authFailWindow \<Longrightarrow> now \<le> t1 \<Longrightarrow> now - fw_start f > authFailWindow
    \<Longrightarrow> left_over t0 n k None \<le> left_over t0 n k (Some f)"
  using expired_old [of t1 t0 now "fw_start f"] by (auto simp: left_over_def)

text \<open>The check: a request that passes finds fewer failures than the limit.\<close>

lemma check_left:
  assumes "t1 \<le> t0 + authFailWindow" and "now \<le> t1" and "auth_enabled a"
    and "handleAuth_check m p now a = (r, a')"
  shows "left_over t0 n k (auth_fails a' p) \<le> left_over t0 n k (auth_fails a p)"
    and "r = None \<Longrightarrow> left_over t0 n (Suc k) (auth_fails a' p) \<le> left_over t0 n k (auth_fails a p)"
    and "r \<noteq> Some 401"
proof -
  have gone: "left_over t0 n k None \<le> left_over t0 n k (Some f)" if "now - fw_start f > authFailWindow" for f k
    using left_over_gone [OF assms(1,2) that] .
  have few: "r = None \<Longrightarrow> auth_fails a' p = Some f \<Longrightarrow> fw_count f < authFailLimit" for f
    using assms(3,4) by (auto simp: handleAuth_check_def tooManyFails_def split: if_splits option.splits)
  have low: "left_over t0 n (Suc k) w = left_over t0 n k w" if "\<And>f. w = Some f \<Longrightarrow> fw_count f < authFailLimit" for w
    using that by (cases w) (simp_all add: left_over_def window_room_def)
  show less: "left_over t0 n k (auth_fails a' p) \<le> left_over t0 n k (auth_fails a p)"
    using assms(3,4) gone by (auto simp: handleAuth_check_def tooManyFails_def split: if_splits option.splits)
  show "r = None \<Longrightarrow> left_over t0 n (Suc k) (auth_fails a' p) \<le> left_over t0 n k (auth_fails a p)"
    using less low [of "auth_fails a' p"] few by simp
  show "r \<noteq> Some 401"
    using assms(3,4) by (auto simp: handleAuth_check_def split_beta Let_def split: if_splits)
qed

text \<open>The comparison: a request leaves the flight, and a failure counts.\<close>

lemma recordFail_left:
  assumes "t1 \<le> t0 + authFailWindow" and "t0 \<le> later" and "later \<le> t1" and "Suc k \<le> n"
  shows "Suc (left_over t0 n k (auth_fails (recordFail p later a) p)) \<le> left_over t0 n (Suc k) (auth_fails a p)"
proof (cases "auth_fails a p")
  case None
  with assms(2,4) show ?thesis by (simp add: recordFail_def Let_def left_over_def window_room_def authFailLimit_def)
next
  case (Some f)
  show ?thesis
  proof (cases "fw_count f = 0 \<or> later - fw_start f > authFailWindow")
    case True
    then have "authFailLimit - 1 + n \<le> left_over t0 n (Suc k) (Some f)"
      using expired_old [OF assms(1,3)] by (auto simp: left_over_def)
    with True Some assms(2,4) show ?thesis
      by (simp add: recordFail_def Let_def left_over_def window_room_def authFailLimit_def)
  next
    case False
    have "Suc (window_room n k (Suc (fw_count f))) \<le> window_room n (Suc k) (fw_count f)"
      using assms(4) by (auto simp: window_room_def authFailLimit_def)
    with Some False show ?thesis by (simp add: recordFail_def Let_def left_over_def)
  qed
qed

lemma compare_left:
  assumes "t1 \<le> t0 + authFailWindow" and "t0 \<le> later" and "later \<le> t1" and "Suc k \<le> n" and "g \<noteq> Some (auth_pin a)"
    and "handleAuth_compare p later g tok a = (st, c, a')"
  shows "(if st = 401 then 1 else 0) + left_over t0 n k (auth_fails a' p) \<le> left_over t0 n (Suc k) (auth_fails a p)"
proof (cases g)
  case None
  moreover have "left_over t0 n k w \<le> left_over t0 n (Suc k) w" for w
    by (cases w) (simp_all add: left_over_def window_room_def)
  ultimately show ?thesis using assms(6) by (simp add: handleAuth_compare_def)
next
  case (Some x)
  with assms(5,6) recordFail_left [OF assms(1-4), of p a] show ?thesis by (simp add: handleAuth_compare_def)
qed

lemma flight_leaves:
  assumes "distinct (map fst fs)" and "map_of fs i = Some (q, g)"
  shows "length (filter (\<lambda>(i, r, g). r = p) fs)
    = (if q = p then 1 else 0) + length (filter (\<lambda>(i, r, g). r = p) (filter (\<lambda>f. fst f \<noteq> i) fs))"
  using assms
proof (induction fs)
  case (Cons f fs)
  obtain j r h where f: "f = (j, r, h)" by (cases f)
  show ?case
  proof (cases "j = i")
    case True
    with Cons(2) f have "filter (\<lambda>f. fst f \<noteq> i) fs = fs" by (intro filter_True) force
    with True Cons(3) f show ?thesis by simp
  next
    case False
    with Cons f show ?thesis by auto
  qed
qed simp

definition room_ok :: "jstr \<Rightarrow> auth_room \<Rightarrow> bool" where
  "room_ok p s \<longleftrightarrow> distinct (map fst (rm_flights s)) \<and> wrong_flights p s"

lemma step_room:
  assumes "room_ok p s" and "guessing t0 t1 p (auth_pin (rm_auth s)) e"
  shows "room_ok p (snd (auth_step e s))"
proof (cases e)
  case (Arrive i m q now g)
  obtain r a where c: "handleAuth_check m q now (rm_auth s) = (r, a)" by (cases "handleAuth_check m q now (rm_auth s)")
  have pin: "auth_pin a = auth_pin (rm_auth s)" using check_pin(2) [of m q now "rm_auth s"] c by simp
  show ?thesis
  proof (cases "map_of (rm_flights s) i")
    case None
    then have "i \<notin> fst ` set (rm_flights s)" by (simp add: map_of_eq_None_iff)
    with None assms Arrive c pin show ?thesis
      by (cases r) (simp_all add: room_ok_def wrong_flights_def)
  next
    case (Some f)
    with assms Arrive show ?thesis by simp
  qed
next
  case (Compare i later tok)
  with assms show ?thesis
    by (auto simp: room_ok_def wrong_flights_def split_beta Let_def distinct_map_filter split: option.splits)
qed (use assms in \<open>simp add: room_ok_def wrong_flights_def auth_prune_def\<close>)

lemma step_left:
  assumes "t1 \<le> t0 + authFailWindow" and "auth_enabled (rm_auth s)" and "room_ok p s"
    and e: "guessing t0 t1 p (auth_pin (rm_auth s)) e" and k: "in_flight p s \<le> n"
  shows "(if fst (auth_step e s) = Some (p, 401) then 1 else 0)
      + left_over t0 n (in_flight p (snd (auth_step e s))) (auth_fails (rm_auth (snd (auth_step e s))) p)
     \<le> left_over t0 n (in_flight p s) (auth_fails (rm_auth s) p)"
proof (cases e)
  case (Arrive i m q now g)
  obtain r a where c: "handleAuth_check m q now (rm_auth s) = (r, a)" by (cases "handleAuth_check m q now (rm_auth s)")
  show ?thesis
  proof (cases "q = p")
    case True
    with e Arrive have now: "now \<le> t1" by simp
    show ?thesis
      using check_left(1,2) [OF assms(1) now assms(2) c, of n "in_flight p s"]
        check_left(3) [OF assms(1) now assms(2) c] Arrive c True
      by (cases r) (auto simp: in_flight_def)
  next
    case False
    with check_other [OF False, of m now "rm_auth s"] c Arrive show ?thesis
      by (cases r) (auto simp: in_flight_def)
  qed
next
  case (Compare i later tok)
  show ?thesis
  proof (cases "map_of (rm_flights s) i")
    case None
    with Compare show ?thesis by simp
  next
    case (Some f)
    obtain q g where f: "f = (q, g)" by (cases f)
    obtain st c a where r: "handleAuth_compare q later g tok (rm_auth s) = (st, c, a)"
      by (cases "handleAuth_compare q later g tok (rm_auth s)")
    have fl: "in_flight p s = (if q = p then 1 else 0) + in_flight p (snd (auth_step e s))"
      using flight_leaves [of "rm_flights s" i q g p] assms(3) Compare Some f r by (simp add: in_flight_def room_ok_def)
    have st: "auth_step e s = (Some (q, st), s\<lparr>rm_auth := a, rm_flights := filter (\<lambda>f. fst f \<noteq> i) (rm_flights s)\<rparr>)"
      using Compare Some f r by simp
    show ?thesis
    proof (cases "q = p")
      case True
      have "g \<noteq> Some (auth_pin (rm_auth s))"
        using assms(3) map_of_SomeD [OF Some] f True by (auto simp: room_ok_def wrong_flights_def)
      from compare_left [OF assms(1) _ _ _ this r, of "in_flight p (snd (auth_step e s))" n] True fl k e Compare st
      show ?thesis by simp
    next
      case False
      with compare_other [OF False, of later g tok "rm_auth s"] r fl st show ?thesis by simp
    qed
  qed
next
  case (PruneAt now)
  with e left_over_gone [OF assms(1), of now] show ?thesis
    by (auto simp: auth_prune_def in_flight_def split: option.split)
qed

lemma guesses_left:
  assumes "t1 \<le> t0 + authFailWindow" and "auth_enabled (rm_auth s)" and "room_ok p s"
    and "\<forall>e \<in> set es. guessing t0 t1 p (auth_pin (rm_auth s)) e" and "peak p es s \<le> n"
  shows "guesses p es s \<le> left_over t0 n (in_flight p s) (auth_fails (rm_auth s) p)"
  using assms(2-5)
proof (induction es arbitrary: s)
  case (Cons e es)
  let ?s = "snd (auth_step e s)"
  have "guesses p es ?s \<le> left_over t0 n (in_flight p ?s) (auth_fails (rm_auth ?s) p)"
    using Cons(2,4,5) step_room [OF Cons(3), of t0 t1 e] by (intro Cons(1)) (simp_all add: auth_enabled_def)
  with step_left [OF assms(1) Cons(2,3), of e n] Cons(4,5) show ?case
    by (auto simp: guesses_Cons split: if_splits)
qed simp

lemma left_over_bound:
  "k \<le> n \<Longrightarrow> left_over t0 n k w \<le> 2 * (authFailLimit - 1 + n)" "left_over t0 n k None = authFailLimit - 1 + n"
  by (cases w) (auto simp: left_over_def window_room_def authFailLimit_def)

text \<open>
  C27. Guessing the PIN is slow.  The check of the limit and the record of a failure are two steps, and the steps
  of all requests and of the clean-up task come in any order.  In any period of a minute in which no request of
  an address has the right PIN, at most \<open>2 * (4 + n)\<close> of its wrong guesses are compared with the PIN, \<open>n\<close> being the most of its
  requests that are between check and comparison at the same time, and at most \<open>4 + n\<close> if it has no failure on record
  at the beginning.  So an address that sends its requests one after the other gets ten, or five.
\<close>

theorem guesses_limited:
  assumes "auth_enabled (rm_auth s)" and "room_ok p s" and "t1 \<le> t0 + authFailWindow"
    and "\<forall>e \<in> set es. guessing t0 t1 p (auth_pin (rm_auth s)) e"
  shows "guesses p es s \<le> 2 * (authFailLimit - 1 + peak p es s)
    \<and> (auth_fails (rm_auth s) p = None \<longrightarrow> guesses p es s \<le> authFailLimit - 1 + peak p es s)"
proof -
  have "guesses p es s \<le> left_over t0 (peak p es s) (in_flight p s) (auth_fails (rm_auth s) p)"
    by (rule guesses_left [OF assms(3,1,2,4) order_refl])
  with left_over_bound(1) [OF peak_first [of p s es], of t0 "auth_fails (rm_auth s) p"] show ?thesis
    by (auto simp: left_over_bound(2))
qed

text \<open>
  An attacker with two requests in flight at a time: ten are sent, the first four compared one after the other, and then
  the fifth and the sixth pass the check together.
\<close>

definition demo_attacks :: "auth_event list" where
  "demo_attacks =
     concat (map (\<lambda>k. [Arrive k (lit ''POST'') (lit ''10.0.0.9'') k (Some (lit ''0000'')), Compare k k None]) [0..<4])
     @ map (\<lambda>k. Arrive k (lit ''POST'') (lit ''10.0.0.9'') k (Some (lit ''0000''))) [4..<6]
     @ map (\<lambda>k. Compare k k None) [4..<6]
     @ map (\<lambda>k. Arrive k (lit ''POST'') (lit ''10.0.0.9'') k (Some (lit ''0000''))) [6..<10]"

lemma demo_attacks_run:
  "guesses (lit ''10.0.0.9'') demo_attacks (newRoom (lit ''2468'')) = 6"
  "peak (lit ''10.0.0.9'') demo_attacks (newRoom (lit ''2468'')) = 2"
  by (simp_all add: guesses_def demo_attacks_def newRoom_def newAuthState_def handleAuth_check_def handleAuth_compare_def
      auth_enabled_def tooManyFails_def recordFail_def in_flight_def authFailLimit_def authFailWindow_def upt_rec
      Let_def js_eval)

theorem guesses_limited_witness:
  "guesses (lit ''10.0.0.9'') demo_attacks (newRoom (lit ''2468'')) = 6
    \<and> guesses (lit ''10.0.0.9'') demo_attacks (newRoom (lit ''2468'')) \<le> authFailLimit - 1 + 2"
proof -
  have "auth_enabled (rm_auth (newRoom (lit ''2468'')))" by (simp add: newRoom_def newAuthState_def auth_enabled_def)
  moreover have "room_ok (lit ''10.0.0.9'') (newRoom (lit ''2468''))"
    by (simp add: room_ok_def wrong_flights_def newRoom_def)
  moreover have "\<forall>e \<in> set demo_attacks.
      guessing 0 10 (lit ''10.0.0.9'') (auth_pin (rm_auth (newRoom (lit ''2468'')))) e"
    by (auto simp: demo_attacks_def newRoom_def newAuthState_def js_eval)
  ultimately have "auth_fails (rm_auth (newRoom (lit ''2468''))) (lit ''10.0.0.9'') = None \<longrightarrow>
      guesses (lit ''10.0.0.9'') demo_attacks (newRoom (lit ''2468''))
        \<le> authFailLimit - 1 + peak (lit ''10.0.0.9'') demo_attacks (newRoom (lit ''2468''))"
    using guesses_limited [of "newRoom (lit ''2468'')" "lit ''10.0.0.9''" 10 0 demo_attacks]
    by (simp add: authFailWindow_def)
  then show ?thesis by (simp only: demo_attacks_run) (simp add: newRoom_def newAuthState_def)
qed

text \<open>
  Requests that are checked before the first of them is recorded all pass, so guesses sent at the same time are
  not limited: \<open>n\<close> checks against a state without failures let all \<open>n\<close> guesses through.
\<close>

lemma simultaneous_guesses:
  assumes "auth_fails a p = None"
  shows "map (\<lambda>k. fst (tooManyFails p now a)) [0..<n] = replicate n False"
  using assms by (simp add: tooManyFails_def map_replicate_const)

section \<open>Sessions\<close>

text \<open>A request that brings the right PIN and is compared; the token is the one of its answer.\<close>

definition earned :: "jstr \<Rightarrow> auth_event list \<Rightarrow> jstr \<Rightarrow> bool" where
  "earned pin es t \<longleftrightarrow> (\<exists>i q now later xs ys zs.
     es = xs @ Arrive i (lit ''POST'') q now (Some pin) # ys @ Compare i later (Some t) # zs
       \<and> (\<forall>later tok. Compare i later tok \<notin> set ys))"

lemma earned_more: "earned pin es t \<Longrightarrow> earned pin (es @ fs) t"
  unfolding earned_def by (metis append_Cons append_assoc)

lemma fails_keep_sessions:
  "auth_sessions (recordFail p now a) = auth_sessions a" "auth_sessions (snd (tooManyFails p now a)) = auth_sessions a"
  "auth_pin (snd (tooManyFails p now a)) = auth_pin a"
  by (simp_all add: recordFail_def tooManyFails_def Let_def split: option.split)

lemma check_sessions [simp]: "auth_sessions (snd (handleAuth_check m p now a)) = auth_sessions a"
  by (simp add: handleAuth_check_def fails_keep_sessions split_beta Let_def)

lemma check_posted: "fst (handleAuth_check m p now a) = None \<Longrightarrow> m = lit ''POST''"
  by (simp add: handleAuth_check_def split: if_splits)

lemma compare_session:
  "auth_sessions (snd (snd (handleAuth_compare p later g tok a))) t \<noteq> None \<Longrightarrow> auth_sessions a t = None
    \<Longrightarrow> g = Some (auth_pin a) \<and> tok = Some t"
  by (auto simp: handleAuth_compare_def grant_def fails_keep_sessions split: if_splits option.splits)

lemma auth_run_snoc: "snd (auth_run (es @ [e]) s) = snd (auth_step e (snd (auth_run es s)))"
  by (induction es arbitrary: s) (simp_all add: split_beta Let_def)

lemma run_pin [simp]: "auth_pin (rm_auth (snd (auth_run es s))) = auth_pin (rm_auth s)"
  by (induction es arbitrary: s) (simp_all add: split_beta Let_def)

text \<open>A request in flight has arrived and was not compared since.\<close>

definition arrived :: "auth_event list \<Rightarrow> nat \<Rightarrow> jstr \<Rightarrow> jstr option \<Rightarrow> bool" where
  "arrived es i q g \<longleftrightarrow> (\<exists>now xs ys. es = xs @ Arrive i (lit ''POST'') q now g # ys \<and> (\<forall>later tok. Compare i later tok \<notin> set ys))"

lemma arrived_more: "arrived es i q g \<Longrightarrow> (\<And>later tok. e \<noteq> Compare i later tok) \<Longrightarrow> arrived (es @ [e]) i q g"
  unfolding arrived_def by (elim exE conjE) (rule exI, rule exI, rule_tac x = "ys @ [e]" in exI, auto)

lemma flights_arrived:
  "(i, q, g) \<in> set (rm_flights (snd (auth_run es (newRoom pin)))) \<Longrightarrow> arrived es i q g"
proof (induction es arbitrary: i q g rule: rev_induct)
  case (snoc e es)
  let ?s = "snd (auth_run es (newRoom pin))"
  have step: "(i, q, g) \<in> set (rm_flights (snd (auth_step e ?s)))" using snoc(2) by (simp add: auth_run_snoc)
  have old: "arrived (es @ [e]) i q g" if "(i, q, g) \<in> set (rm_flights ?s)" "\<And>later tok. e \<noteq> Compare i later tok"
    using snoc(1) [OF that(1)] that(2) by (rule arrived_more)
  show ?case
  proof (cases e)
    case (Arrive j m p now h)
    have new: "arrived (es @ [e]) i q g" if "(i, q, g) = (j, p, h)" "m = lit ''POST''"
      using that Arrive unfolding arrived_def by (intro exI [of _ now] exI [of _ es] exI [of _ "[]"]) simp
    obtain r a where c: "handleAuth_check m p now (rm_auth ?s) = (r, a)" by (cases "handleAuth_check m p now (rm_auth ?s)")
    with check_posted [of m p now "rm_auth ?s"] step Arrive old new show ?thesis by (auto split: if_splits option.splits)
  next
    case (Compare j later tok)
    with step have "(i, q, g) \<in> set (rm_flights ?s)" "i \<noteq> j \<or> map_of (rm_flights ?s) j = None"
      by (auto simp: split_beta Let_def split: option.splits)
    moreover from this have "i \<noteq> j" by (auto simp: map_of_eq_None_iff image_iff)
    ultimately show ?thesis using old Compare by simp
  qed (use step old in simp)
qed (simp add: newRoom_def)

lemma run_session:
  "auth_sessions (rm_auth (snd (auth_run es (newRoom pin)))) t \<noteq> None \<Longrightarrow> earned pin es t"
proof (induction es rule: rev_induct)
  case (snoc e es)
  let ?s = "snd (auth_run es (newRoom pin))"
  show ?case
  proof (cases "auth_sessions (rm_auth ?s) t")
    case (Some x)
    with snoc(1) show ?thesis by (simp add: earned_more)
  next
    case None
    have step: "auth_sessions (rm_auth (snd (auth_step e ?s))) t \<noteq> None" using snoc(2) by (simp add: auth_run_snoc)
    show ?thesis
    proof (cases e)
      case (Arrive i m q now g)
      have "auth_sessions a t = None" if "handleAuth_check m q now (rm_auth ?s) = (r, a)" for r a
        using None check_sessions [of m q now "rm_auth ?s"] that by simp
      with step None Arrive show ?thesis by (auto split: if_splits prod.splits option.splits)
    next
      case (Compare i later tok)
      with step None obtain q g where f: "map_of (rm_flights ?s) i = Some (q, g)" by (auto split: option.splits)
      with step Compare have "auth_sessions (snd (snd (handleAuth_compare q later g tok (rm_auth ?s)))) t \<noteq> None"
        by (simp add: split_beta)
      from compare_session [OF this None] have g: "g = Some pin" "tok = Some t" by (simp_all add: newRoom_def newAuthState_def)
      from flights_arrived [OF map_of_SomeD [OF f]] obtain now xs ys
        where "es = xs @ Arrive i (lit ''POST'') q now g # ys" and "\<forall>later tok. Compare i later tok \<notin> set ys"
        unfolding arrived_def by blast
      with g Compare show ?thesis unfolding earned_def
        by (intro exI [of _ i] exI [of _ q] exI [of _ now] exI [of _ later] exI [of _ xs] exI [of _ ys] exI [of _ "[]"]) simp
    next
      case (PruneAt now)
      with step None show ?thesis by (simp add: auth_prune_def)
    qed
  qed
qed (simp add: newRoom_def newAuthState_def)

text \<open>
  C35. Nobody gets in without the PIN: in a room with a PIN, after any interleaving of the steps of
  attempts and of clean-ups, a request passes \<open>requireAuth\<close> only with the cookie of a session that was
  granted to an attempt with the right PIN.
\<close>

theorem session_needs_pin:
  assumes "pin \<noteq> []" and "rm_auth (snd (auth_run es (newRoom pin))) = a" and "auth_allows a cookie now"
  shows "\<exists>t. cookie = Some t \<and> earned pin es t"
proof -
  have "auth_enabled a" using assms(1,2) run_pin [of es "newRoom pin"] by (simp add: auth_enabled_def newRoom_def newAuthState_def)
  with assms(3) obtain t where t: "cookie = Some t" "auth_sessions a t \<noteq> None"
    by (auto simp: auth_allows_def split: option.splits)
  with run_session [of es pin t] assms(2) show ?thesis by simp
qed

theorem session_needs_pin_witness:
  "\<exists>t. Some (lit ''tok'') = Some t
    \<and> earned (lit ''2468'') [Arrive 0 (lit ''POST'') [] 1 (Some (lit ''2468'')), Compare 0 2 (Some (lit ''tok''))] t"
proof (rule session_needs_pin [OF _ HOL.refl])
  show "auth_allows (rm_auth (snd (auth_run
      [Arrive 0 (lit ''POST'') [] 1 (Some (lit ''2468'')), Compare 0 2 (Some (lit ''tok''))]
      (newRoom (lit ''2468''))))) (Some (lit ''tok'')) 3"
    by (simp add: newRoom_def newAuthState_def handleAuth_check_def handleAuth_compare_def auth_enabled_def
        tooManyFails_def grant_def auth_allows_def sessionTTL_def)
qed simp

text \<open>The right PIN, not blocked, opens the hub for the life of the session.\<close>

lemma right_pin:
  assumes "auth_enabled a" and "\<not> fst (tooManyFails peer now a)"
  shows "\<exists>a'. handleAuth (lit ''POST'') peer now later (Some (auth_pin a)) (Some t) a = (200, Some t, a')
    \<and> (\<forall>at < later + sessionTTL. auth_allows a' (Some t) at) \<and> auth_pin a' = auth_pin a"
  using assms
  by (simp add: handleAuth_defs auth_enabled_def auth_allows_def grant_def fails_keep_sessions split_beta Let_def)

lemma wrong_or_blocked:
  assumes "auth_enabled a" and "g \<noteq> auth_pin a \<or> fst (tooManyFails peer now a)"
  shows "fst (handleAuth (lit ''POST'') peer now later (Some g) tok a) \<in> {401, 429}"
    and "fst (snd (handleAuth (lit ''POST'') peer now later (Some g) tok a)) = None"
  using assms by (auto simp: handleAuth_defs auth_enabled_def fails_keep_sessions split_beta Let_def)

end
