(* ===== verification/Startup.thy ===== *)
theory Startup
  imports Page_Properties Auth
begin

text \<open>
  How the page gets into the room (web/static/app.js: \<open>initPlatformUI\<close>, the join button, the start of
  the page), and the hub's side of it (\<open>handleInfo\<close> and \<open>handleAuth\<close> behind a browser that keeps the
  session cookie).
\<close>

section \<open>The join screen\<close>

record join_ui =
  ju_platform :: jstr
  ju_badge :: jstr
  ju_host :: jstr
  ju_placeholder :: jstr
  ju_capable :: bool
  ju_hint :: "jstr option"

definition initPlatformUI :: "jstr \<Rightarrow> page_location \<Rightarrow> join_ui" where
  "initPlatformUI userAgent loc =
     (let platform = detectPlatform userAgent;
          ui = (case platformUI platform of Some u \<Rightarrow> platform | None \<Rightarrow> lit ''unknown'')
      in \<lparr>ju_platform = platform,
          ju_badge = ([0x5DF2, 0x8BC6, 0x522B, 0x4E3A] @ lit '' '') @ ui_text ui_label ui @ (lit '' '' @ [0x00B7] @ lit '' '' @ [0x5176, 0x4ED6, 0x8BBE, 0x5907, 0x4F1A, 0x770B, 0x5230, 0x8FD9, 0x4E2A, 0x540D, 0x5B57]),
          ju_host = loc_host loc,
          ju_placeholder = ui_text ui_namePlaceholder ui,
          ju_capable = (platform = lit ''ios''),
          ju_hint = (if isMobilePlatform platform
             then Some (([0x624B, 0x673A, 0x8BF7, 0x626B] @ lit '' Hub '' @ [0x9875, 0x300C, 0x8FDE, 0x63A5, 0x4FE1, 0x606F, 0x300D, 0x91CC, 0x7684, 0x4E8C, 0x7EF4, 0x7801, 0xFF0C, 0x6216, 0x624B, 0x52A8, 0x8F93, 0x5165] @ lit '' '') @ joinHintAddress loc @ [0x3002]) else None)\<rparr>)"

text \<open>
  The join button.  \<open>nm\<close> and \<open>pin\<close> are the contents of the two inputs; the second result is the
  world \<open>post\<close> acts on.
\<close>

definition join_click ::
    "jstr \<Rightarrow> bool \<Rightarrow> jstr \<Rightarrow> jstr \<Rightarrow> (jstr \<Rightarrow> 's \<Rightarrow> fetch_result \<times> 's) \<Rightarrow> page \<Rightarrow> 's \<Rightarrow> page \<times> 's" where
  "join_click userAgent mobile nm pin post p s =
     (let name = or_default (trim nm) (defaultDeviceName userAgent) in
      if pin_row p then
        (case submitPIN (trim pin) post s of
           (Inl message, s') \<Rightarrow> (alert message p, s')
         | (Inr u, s') \<Rightarrow> (enterChat mobile name (showPinRow False p), s'))
      else (enterChat mobile name p, s))"

section \<open>The start of the page\<close>

record start_view =
  sv_name_input :: jstr
  sv_hash_removed :: bool
  sv_online :: "jstr option"

text \<open>
  From \<open>savedName\<close> to the end of the file.  \<open>info\<close> is the fetch of \<open>/api/info\<close>, \<open>None\<close> when it fails.  An
  exception of \<open>decodeURIComponent\<close> ends the asynchronous part after the fragment was removed.
\<close>

definition init_page ::
    "jstr \<Rightarrow> bool \<Rightarrow> page_location \<Rightarrow> (jstr \<Rightarrow> 's \<Rightarrow> fetch_result \<times> 's) \<Rightarrow> ('s \<Rightarrow> conn_info option \<times> 's) \<Rightarrow>
     page \<Rightarrow> 's \<Rightarrow> start_view \<times> page \<times> 's" where
  "init_page userAgent mobile loc post info p s =
     (let savedName = storageGet (page_storage p) STORAGE_KEY;
          v = \<lparr>sv_name_input = opt_or savedName (defaultDeviceName userAgent),
               sv_hash_removed = (match_pin (loc_hash loc) \<noteq> None), sv_online = None\<rparr>;
          rest = (\<lambda>s1.
            let (i, s2) = info s1;
                needPIN = (case i of None \<Rightarrow> False | Some c \<Rightarrow> pinRequired c \<and> \<not> authorized c);
                p1 = showPinRow needPIN p;
                v1 = v\<lparr>sv_online := (case i of None \<Rightarrow> None
                       | Some c \<Rightarrow> if clientCount c = 0 then None else Some (show_nat (clientCount c) @ (lit '' '' @ [0x53F0, 0x5728, 0x7EBF])))\<rparr>;
                p2 = (case savedName of None \<Rightarrow> p1
                        | Some n \<Rightarrow> if contains_str (loc_search loc) (lit ''auto=1'') \<and> n \<noteq> [] \<and> \<not> needPIN
                                    then enterChat mobile n p1 else p1)
            in (v1, p2, s2))
      in case consumePINFromHash loc of
           None \<Rightarrow> rest s
         | Some None \<Rightarrow> (v, p, s)
         | Some (Some pin) \<Rightarrow> rest (snd (submitPIN pin post s)))"

section \<open>The hub and the browser's cookie\<close>

record visit =
  v_auth :: auth
  v_cookie :: "jstr option"

text \<open>
  \<open>POST /api/auth\<close>: the browser keeps the cookie it is given.  \<open>GET /api/info\<close>: what the handler says about the
  PIN depends on the cookie; the rest of the answer is an argument.
\<close>

definition post_auth :: "jstr \<Rightarrow> nat \<Rightarrow> nat \<Rightarrow> jstr option \<Rightarrow> jstr \<Rightarrow> visit \<Rightarrow> fetch_result \<times> visit" where
  "post_auth peer moment later token pin v =
     (let (st, c, a) = handleAuth (lit ''POST'') peer moment later (Some pin) token (v_auth v)
      in (Status st, v\<lparr>v_auth := a, v_cookie := (case c of Some t \<Rightarrow> Some t | None \<Rightarrow> v_cookie v)\<rparr>))"

definition get_info :: "nat \<Rightarrow> conn_info \<Rightarrow> visit \<Rightarrow> conn_info option \<times> visit" where
  "get_info moment c v =
     (Some (c\<lparr>pinRequired := auth_enabled (v_auth v), authorized := auth_allows (v_auth v) (v_cookie v) moment\<rparr>), v)"

lemma submit_right:
  assumes "auth_enabled (v_auth v)" and "\<not> fst (tooManyFails peer moment (v_auth v))" and "at < later + sessionTTL"
  shows "\<exists>v'. submitPIN (auth_pin (v_auth v)) (post_auth peer moment later (Some t)) v = (Inr (), v')
    \<and> auth_allows (v_auth v') (v_cookie v') at \<and> auth_enabled (v_auth v')"
proof -
  from right_pin [OF assms(1,2), of later t] obtain a' where
    a: "handleAuth (lit ''POST'') peer moment later (Some (auth_pin (v_auth v))) (Some t) (v_auth v) = (200, Some t, a')"
      "auth_allows a' (Some t) at" "auth_pin a' = auth_pin (v_auth v)" using assms(3) by blast
  with assms(1) show ?thesis
    by (simp add: submitPIN_def post_auth_def ok_status_def auth_enabled_def)
qed

lemma submit_wrong:
  assumes "auth_enabled (v_auth v)" and "pin \<noteq> auth_pin (v_auth v) \<or> fst (tooManyFails peer moment (v_auth v))"
  shows "\<exists>m v'. submitPIN pin (post_auth peer moment later tok) v = (Inl m, v') \<and> v_cookie v' = v_cookie v"
proof (cases "pin = []")
  case False
  obtain st c a where h: "handleAuth (lit ''POST'') peer moment later (Some pin) tok (v_auth v) = (st, c, a)"
    by (cases "handleAuth (lit ''POST'') peer moment later (Some pin) tok (v_auth v)")
  with wrong_or_blocked [OF assms, of later tok] have "st = 401 \<or> st = 429" "c = None" by auto
  with False h show ?thesis by (auto simp: submitPIN_def post_auth_def ok_status_def)
qed (simp add: submitPIN_def)

lemma inChat_enter [simp]: "inChat (enterChat mobile name p)"
  by (simp add: enterChat_def Let_def connect_def drop_socket_def setDevicesPanel_def setConnected_def split: option.split)

text \<open>
  C34. The join button opens the room exactly to the right PIN: with the PIN row shown and the hub
  reachable, the page enters the chat if and only if the text in the PIN input is the hub's PIN and the
  address is not blocked; then the hub accepts its requests, and otherwise the page stays outside, tells
  why, and has no new cookie.
\<close>

theorem pin_gate:
  assumes "pin_row p" and "\<not> inChat p" and "auth_enabled (v_auth v)" and "at < later + sessionTTL"
    and "join_click ua mobile nm pin (post_auth peer moment later (Some t)) p v = (q, v')"
  shows "if trim pin = auth_pin (v_auth v) \<and> \<not> fst (tooManyFails peer moment (v_auth v))
    then inChat q \<and> auth_allows (v_auth v') (v_cookie v') at
    else \<not> inChat q \<and> v_cookie v' = v_cookie v \<and> length (alerts q) = length (alerts p) + 1"
proof (cases "trim pin = auth_pin (v_auth v) \<and> \<not> fst (tooManyFails peer moment (v_auth v))")
  case True
  with submit_right [OF assms(3) _ assms(4), of peer moment t] assms(1,5) show ?thesis
    by (auto simp: join_click_def Let_def)
next
  case False
  with submit_wrong [OF assms(3), of "trim pin" peer moment later "Some t"] assms(1,2,5) show ?thesis
    by (auto simp: join_click_def alert_def Let_def)
qed

definition demo_visit :: visit where
  "demo_visit = \<lparr>v_auth = newAuthState (utf16 [0x41, 0x26, 0x53E3, 0x1F600]), v_cookie = None\<rparr>"

lemma demo_visit_facts:
  "auth_pin (v_auth demo_visit) = utf16 [0x41, 0x26, 0x53E3, 0x1F600]" "auth_enabled (v_auth demo_visit)"
  "\<not> fst (tooManyFails peer m (v_auth demo_visit))"
  by (simp_all add: demo_visit_def newAuthState_def auth_enabled_def tooManyFails_def utf16_def utf16_enc_def)

theorem pin_gate_witness:
  "inChat (fst (join_click [] False [97] [0x41, 0x26, 0x53E3, 0xD83D, 0xDE00, 32] (post_auth [] 1 2 (Some [7]))
     (showPinRow True (initial_page empty_storage)) demo_visit))"
proof -
  let ?p = "showPinRow True (initial_page empty_storage)"
  obtain q v' where r: "join_click [] False [97] [0x41, 0x26, 0x53E3, 0xD83D, 0xDE00, 32] (post_auth [] 1 2 (Some [7])) ?p demo_visit = (q, v')"
    by (cases "join_click [] False [97] [0x41, 0x26, 0x53E3, 0xD83D, 0xDE00, 32] (post_auth [] 1 2 (Some [7])) ?p demo_visit")
  have "trim [0x41, 0x26, 0x53E3, 0xD83D, 0xDE00, 32] = auth_pin (v_auth demo_visit)"
    by (simp add: demo_visit_facts utf16_def utf16_enc_def trim_def is_space_def)
  with pin_gate [OF _ _ demo_visit_facts(2) _ r, of 3] r demo_visit_facts(3) show ?thesis
    by (simp add: showPinRow_def initial_page_def sessionTTL_def)
qed

section \<open>Scanning the link\<close>

lemma utf16_Nil_iff: "utf16 s = [] \<longleftrightarrow> s = []"
  by (cases s) (simp_all add: utf16_def utf16_enc_def)

lemma pin_row_enter [simp]: "pin_row (enterChat mobile name p) = pin_row p"
  by (simp add: enterChat_def Let_def connect_def drop_socket_def setDevicesPanel_def setConnected_def split: option.split)

text \<open>
  C17. Scanning the code of a device in the room is enough: when an authorized device shows the
  link the hub made and another browser opens it, from an address that is not blocked for its wrong guesses, that page finds the PIN in the fragment, removes it from the
  address, submits it, and is let in: it is not asked for the PIN, the hub accepts its requests, and with
  \<open>auto=1\<close> and a remembered name it is in the chat at once.  The PIN is of any Unicode characters but the space (with
  an inner space it fails: the hub writes it as \<open>+\<close>, which the page does not read as a space).
\<close>

theorem scan_lets_in:
  assumes "\<forall>c \<in> set pin. scalar c \<and> c \<noteq> 32" and "pin \<noteq> []" and "base \<noteq> []" and "35 \<notin> set base"
    and "35 \<notin> set (loc_origin loc)" and "joinUrl shown_info = hub_join_url base pin True"
    and "loc_hash visitor = fragment (pickJoinURL loc shown_info)"
    and "auth_pin (v_auth v) = utf16 pin" and "\<not> fst (tooManyFails peer moment (v_auth v))"
    and "asked < later + sessionTTL"
    and "init_page ua mobile visitor (post_auth peer moment later (Some t)) (get_info asked c) p v = (sv, q, v')"
  shows "\<not> pin_row q \<and> sv_hash_removed sv \<and> auth_allows (v_auth v') (v_cookie v') asked
    \<and> (\<forall>n. storageGet (page_storage p) STORAGE_KEY = Some n \<and> n \<noteq> [] \<and> contains_str (loc_search visitor) (lit ''auto=1'')
         \<longrightarrow> inChat q \<and> chatName q = Some n)"
proof -
  have found: "consumePINFromHash visitor = Some (Some (auth_pin (v_auth v)))"
    using link_pin [OF assms(1-7)] assms(8) by simp
  then have hash: "match_pin (loc_hash visitor) \<noteq> None" by (auto simp: consumePINFromHash_def)
  have "auth_enabled (v_auth v)" using assms(2,8) by (simp add: auth_enabled_def utf16_Nil_iff)
  from submit_right [OF this assms(9,10), of t] obtain v1 where
    v1: "submitPIN (auth_pin (v_auth v)) (post_auth peer moment later (Some t)) v = (Inr (), v1)"
      "auth_allows (v_auth v1) (v_cookie v1) asked" by blast
  have name: "chatName (enterChat mobile n (showPinRow False p)) = Some n" for n
    by (simp add: enterChat_def Let_def connect_def drop_socket_def setDevicesPanel_def setConnected_def
        showPinRow_def split: option.split)
  from assms(11) found v1 hash name show ?thesis
    by (auto simp: init_page_def get_info_def showPinRow_def Let_def split: option.splits if_splits)
qed

theorem scan_lets_in_witness:
  "\<exists>sv q v'. init_page [] False (demo_loc\<lparr>loc_hash := fragment (pickJoinURL demo_loc demo_info)\<rparr>)
       (post_auth [] 1 2 (Some [7])) (get_info 3 demo_info) (initial_page empty_storage)
       demo_visit = (sv, q, v')
     \<and> \<not> pin_row q \<and> auth_allows (v_auth v') (v_cookie v') 3"
proof -
  let ?vis = "demo_loc\<lparr>loc_hash := fragment (pickJoinURL demo_loc demo_info)\<rparr>"
  let ?p = "initial_page empty_storage"
  obtain sv q v' where r: "init_page [] False ?vis (post_auth [] 1 2 (Some [7])) (get_info 3 demo_info) ?p demo_visit = (sv, q, v')"
    by (cases "init_page [] False ?vis (post_auth [] 1 2 (Some [7])) (get_info 3 demo_info) ?p demo_visit")
  have "\<not> pin_row q \<and> sv_hash_removed sv \<and> auth_allows (v_auth v') (v_cookie v') 3
    \<and> (\<forall>n. storageGet (page_storage ?p) STORAGE_KEY = Some n \<and> n \<noteq> [] \<and> contains_str (loc_search ?vis) (lit ''auto=1'')
         \<longrightarrow> inChat q \<and> chatName q = Some n)"
    by (rule scan_lets_in [OF _ _ _ _ _ _ _ demo_visit_facts(1) demo_visit_facts(3) _ r,
          where base = "lit ''http://10.0.0.5:8787''" and loc = demo_loc and shown_info = demo_info])
      (simp_all add: demo_loc_def demo_info_def scalar_def sessionTTL_def js_eval)
  with r show ?thesis by blast
qed

end
