(* ===== verification/Hub.thy ===== *)
theory Hub
  imports Page "HOL-Library.Multiset"
begin

text \<open>
  The chat at the hub (internal/hub/hub.go): registering and unregistering connections, presence,
  history and the delivery of messages to the devices that may see them.

  Each lock section of the code is one step, so the steps of different connections come in any
  order.  A connection is a number; its device is given by \<open>NewClient\<close>.  Its queue is the \<open>send\<close>
  channel, and \<open>cl_sent\<close> what \<open>WritePump\<close> has taken from it.  \<open>hr_slow\<close> are the messages \<open>deliverSlow\<close>
  holds for connections whose queue was full, \<open>hr_flight\<close> those between \<open>addToHistory\<close> and \<open>deliver\<close>.
  Times are Unix seconds.  \<open>parse\<close> is \<open>uuid.Parse\<close> with \<open>String\<close>: the canonical form of an id, if it is
  one.  \<open>order\<close> is the order in which Go visits the map of connections.
\<close>

section \<open>State\<close>

record client =
  cl_device :: device
  cl_live :: bool
  cl_queue :: "server_msg list"
  cl_sent :: "server_msg list"

record hub_room =
  hr_clients :: "nat \<Rightarrow> client option"
  hr_history :: "chat_msg list"
  hr_ttl :: int
  hr_known :: "jstr \<Rightarrow> device option"
  hr_slow :: "(nat \<times> server_msg) list"
  hr_flight :: "chat_msg list"

definition sendBuffer :: nat where
  "sendBuffer = 256"

definition MaxRecipients :: nat where
  "MaxRecipients = 16"

definition new_hub :: "int \<Rightarrow> hub_room" where
  "new_hub ttl = \<lparr>hr_clients = Map.empty, hr_history = [], hr_ttl = ttl, hr_known = Map.empty,
     hr_slow = [], hr_flight = []\<rparr>"

section \<open>Operations\<close>

text \<open>The device of \<open>NewClient\<close>; the id is \<open>DeviceID(key)\<close>.\<close>

definition client_device :: "jstr \<Rightarrow> jstr \<Rightarrow> jstr \<Rightarrow> jstr \<Rightarrow> device" where
  "client_device i name platform ip =
     \<lparr>dev_id = i, dev_name = or_default name [0x533F, 0x540D, 0x8BBE, 0x5907], dev_platform = platform,
      dev_ip = or_default ip [0x672A, 0x77E5]\<rparr>"

definition visibleTo :: "chat_msg \<Rightarrow> jstr \<Rightarrow> bool" where
  "visibleTo m i =
     (msg_to m = [] \<or> (case msg_from m of None \<Rightarrow> False | Some d \<Rightarrow> dev_id d = i) \<or> i \<in> set (msg_to m))"

definition timestamp :: "chat_msg \<Rightarrow> int" where
  "timestamp m = (case msg_timestamp m of Some t \<Rightarrow> t | None \<Rightarrow> 0)"

definition put_client :: "nat \<Rightarrow> client \<Rightarrow> hub_room \<Rightarrow> hub_room" where
  "put_client c cl s = s\<lparr>hr_clients := (hr_clients s)(c \<mapsto> cl)\<rparr>"

text \<open>The first section of \<open>Register\<close>.\<close>

definition add_client :: "nat \<Rightarrow> device \<Rightarrow> hub_room \<Rightarrow> hub_room" where
  "add_client c d s =
     (put_client c \<lparr>cl_device = d, cl_live = True, cl_queue = [], cl_sent = []\<rparr> s)\<lparr>
        hr_known := (hr_known s)(dev_id d \<mapsto> d)\<rparr>"

text \<open>\<open>enqueueJSON\<close>: dropped when the queue is full.\<close>

definition enqueue :: "nat \<Rightarrow> server_msg \<Rightarrow> hub_room \<Rightarrow> hub_room" where
  "enqueue c f s =
     (case hr_clients s c of
        None \<Rightarrow> s
      | Some cl \<Rightarrow>
          if cl_live cl \<and> length (cl_queue cl) < sendBuffer
          then put_client c (cl\<lparr>cl_queue := cl_queue cl @ [f]\<rparr>) s else s)"

definition sendWelcome :: "nat \<Rightarrow> hub_room \<Rightarrow> hub_room" where
  "sendWelcome c s =
     (case hr_clients s c of None \<Rightarrow> s | Some cl \<Rightarrow> enqueue c (Welcome (Some (cl_device cl))) s)"

definition sendHistory :: "int \<Rightarrow> nat \<Rightarrow> hub_room \<Rightarrow> hub_room" where
  "sendHistory unix c s =
     (case hr_clients s c of
        None \<Rightarrow> s
      | Some cl \<Rightarrow>
          let msgs = filter (\<lambda>m. unix - hr_ttl s \<le> timestamp m \<and> visibleTo m (dev_id (cl_device cl))) (hr_history s)
          in if msgs = [] then s else enqueue c (History msgs) s)"

definition addToHistory :: "int \<Rightarrow> chat_msg \<Rightarrow> hub_room \<Rightarrow> hub_room" where
  "addToHistory unix m s =
     s\<lparr>hr_history := filter (\<lambda>x. unix - hr_ttl s \<le> timestamp x) (hr_history s) @ [m]\<rparr>"

text \<open>\<open>deliver\<close>: one frame to every live connection that passes the filter.\<close>

definition offer :: "server_msg \<Rightarrow> (device \<Rightarrow> bool) \<Rightarrow> client \<Rightarrow> client" where
  "offer f P cl =
     (if cl_live cl \<and> P (cl_device cl) \<and> length (cl_queue cl) < sendBuffer
      then cl\<lparr>cl_queue := cl_queue cl @ [f]\<rparr> else cl)"

definition too_slow :: "(device \<Rightarrow> bool) \<Rightarrow> hub_room \<Rightarrow> nat \<Rightarrow> bool" where
  "too_slow P s c =
     (case hr_clients s c of
        None \<Rightarrow> False
      | Some cl \<Rightarrow> cl_live cl \<and> P (cl_device cl) \<and> sendBuffer \<le> length (cl_queue cl))"

definition deliver_all :: "nat list \<Rightarrow> server_msg \<Rightarrow> (device \<Rightarrow> bool) \<Rightarrow> hub_room \<Rightarrow> hub_room" where
  "deliver_all order f P s =
     s\<lparr>hr_clients := (\<lambda>c. map_option (offer f P) (hr_clients s c)),
       hr_slow := hr_slow s @ map (\<lambda>c. (c, f)) (filter (too_slow P s) order)\<rparr>"

fun distinct_devices :: "jstr list \<Rightarrow> device list \<Rightarrow> device list" where
  "distinct_devices seen [] = []"
| "distinct_devices seen (d # ds) =
     (if dev_id d \<in> set seen then distinct_devices seen ds
      else d # distinct_devices (dev_id d # seen) ds)"

definition live_device :: "hub_room \<Rightarrow> nat \<Rightarrow> device option" where
  "live_device s c =
     (case hr_clients s c of None \<Rightarrow> None | Some cl \<Rightarrow> if cl_live cl then Some (cl_device cl) else None)"

definition devices :: "nat list \<Rightarrow> hub_room \<Rightarrow> device list" where
  "devices order s = distinct_devices [] (List.map_filter (live_device s) order)"

definition broadcastPresence :: "nat list \<Rightarrow> hub_room \<Rightarrow> hub_room" where
  "broadcastPresence order s = deliver_all order (Presence (devices order s)) (\<lambda>d. True) s"

definition unregister :: "nat \<Rightarrow> hub_room \<Rightarrow> hub_room" where
  "unregister c s =
     (case hr_clients s c of None \<Rightarrow> s | Some cl \<Rightarrow> put_client c (cl\<lparr>cl_live := False\<rparr>) s)"

section \<open>Messages from a connection\<close>

record incoming =
  in_type :: jstr
  in_to :: "jstr list"
  in_payload :: msg_payload

text \<open>The loop of \<open>sanitizeRecipients\<close>.\<close>

fun collect :: "(jstr \<Rightarrow> jstr option) \<Rightarrow> jstr \<Rightarrow> jstr list \<Rightarrow> jstr list \<Rightarrow> jstr list" where
  "collect parse self out [] = out"
| "collect parse self out (r # rs) =
     (case parse r of
        None \<Rightarrow> collect parse self out rs
      | Some i \<Rightarrow>
          if i = self \<or> i \<in> set out then collect parse self out rs
          else if length (out @ [i]) = MaxRecipients then out @ [i]
          else collect parse self (out @ [i]) rs)"

definition sanitizeRecipients :: "(jstr \<Rightarrow> jstr option) \<Rightarrow> jstr \<Rightarrow> jstr list \<Rightarrow> jstr list option" where
  "sanitizeRecipients parse self raw =
     (if raw = [] then Some []
      else (let out = collect parse self [] raw in if out = [] then None else Some out))"

text \<open>\<open>SendMessage\<close> up to \<open>addToHistory\<close>.\<close>

definition chat_message :: "int \<Rightarrow> device \<Rightarrow> jstr list \<Rightarrow> msg_payload \<Rightarrow> hub_room \<Rightarrow> chat_msg" where
  "chat_message unix from tos payload s =
     \<lparr>msg_from = Some from, msg_to = tos,
      msg_recipients = map (\<lambda>i. case hr_known s i of Some d \<Rightarrow> d
         | None \<Rightarrow> \<lparr>dev_id = i, dev_name = [], dev_platform = [], dev_ip = []\<rparr>) tos,
      msg_payload = payload, msg_timestamp = Some unix\<rparr>"

definition accept_message ::
    "(jstr \<Rightarrow> jstr option) \<Rightarrow> int \<Rightarrow> client \<Rightarrow> incoming \<Rightarrow> hub_room \<Rightarrow> chat_msg option" where
  "accept_message parse unix cl inc s =
     (if in_type inc \<noteq> lit ''message'' \<or> kind (in_payload inc) = [] then None
      else case sanitizeRecipients parse (dev_id (cl_device cl)) (in_to inc) of
        None \<Rightarrow> None
      | Some tos \<Rightarrow> Some (chat_message unix (cl_device cl) tos (in_payload inc) s))"

section \<open>Steps\<close>

datatype hub_event =
    HAdd nat device
  | HWelcome nat
  | HHistory nat int
  | HPresence "nat list"
  | HIncoming nat incoming int
  | HDeliver nat "nat list"
  | HWrite nat
  | HSlow nat
  | HSlowOut nat
  | HLeave nat

definition drop_nth :: "nat \<Rightarrow> 'a list \<Rightarrow> 'a list" where
  "drop_nth k xs = take k xs @ drop (Suc k) xs"

text \<open>One attempt of \<open>deliverSlow\<close>: it ends when the connection is gone or the queue has room.\<close>

definition slow_attempt :: "nat \<Rightarrow> hub_room \<Rightarrow> hub_room" where
  "slow_attempt k s =
     (let (c, f) = hr_slow s ! k; done_s = s\<lparr>hr_slow := drop_nth k (hr_slow s)\<rparr> in
      case hr_clients s c of
        None \<Rightarrow> done_s
      | Some cl \<Rightarrow>
          if \<not> cl_live cl then done_s
          else if length (cl_queue cl) < sendBuffer
          then put_client c (cl\<lparr>cl_queue := cl_queue cl @ [f]\<rparr>) done_s
          else s)"

text \<open>Its end when the time is over.\<close>

definition slow_timeout :: "nat \<Rightarrow> hub_room \<Rightarrow> hub_room" where
  "slow_timeout k s = unregister (fst (hr_slow s ! k)) (s\<lparr>hr_slow := drop_nth k (hr_slow s)\<rparr>)"

fun hub_step :: "(jstr \<Rightarrow> jstr option) \<Rightarrow> hub_event \<Rightarrow> hub_room \<Rightarrow> hub_room" where
  "hub_step parse (HAdd c d) s = add_client c d s"
| "hub_step parse (HWelcome c) s = sendWelcome c s"
| "hub_step parse (HHistory c unix) s = sendHistory unix c s"
| "hub_step parse (HPresence order) s = broadcastPresence order s"
| "hub_step parse (HIncoming c inc unix) s =
     (case hr_clients s c of
        None \<Rightarrow> s
      | Some cl \<Rightarrow>
          (case accept_message parse unix cl inc s of
             None \<Rightarrow> s
           | Some m \<Rightarrow> (addToHistory unix m s)\<lparr>hr_flight := hr_flight s @ [m]\<rparr>))"
| "hub_step parse (HDeliver k order) s =
     (let m = hr_flight s ! k in
      deliver_all order (Message m) (\<lambda>d. visibleTo m (dev_id d)) (s\<lparr>hr_flight := drop_nth k (hr_flight s)\<rparr>))"
| "hub_step parse (HWrite c) s =
     (case hr_clients s c of
        None \<Rightarrow> s
      | Some cl \<Rightarrow>
          (case cl_queue cl of
             [] \<Rightarrow> s
           | f # fs \<Rightarrow> put_client c (cl\<lparr>cl_queue := fs, cl_sent := cl_sent cl @ [f]\<rparr>) s))"
| "hub_step parse (HSlow k) s = slow_attempt k s"
| "hub_step parse (HSlowOut k) s = slow_timeout k s"
| "hub_step parse (HLeave c) s = unregister c s"

text \<open>When a step can be taken; a connection has a number of its own, and Go visits each connection once.\<close>

definition visits_all :: "nat list \<Rightarrow> hub_room \<Rightarrow> bool" where
  "visits_all order s \<longleftrightarrow> distinct order \<and> (\<forall>c. hr_clients s c \<noteq> None \<longrightarrow> c \<in> set order)"

fun hub_enabled :: "hub_event \<Rightarrow> hub_room \<Rightarrow> bool" where
  "hub_enabled (HAdd c d) s = (hr_clients s c = None)"
| "hub_enabled (HPresence order) s = visits_all order s"
| "hub_enabled (HDeliver k order) s = (k < length (hr_flight s) \<and> visits_all order s)"
| "hub_enabled (HSlow k) s = (k < length (hr_slow s))"
| "hub_enabled (HSlowOut k) s = (k < length (hr_slow s))"
| "hub_enabled _ s = True"

inductive hub_runs :: "(jstr \<Rightarrow> jstr option) \<Rightarrow> int \<Rightarrow> hub_event list \<Rightarrow> hub_room \<Rightarrow> bool"
  for parse ttl where
  start: "hub_runs parse ttl [] (new_hub ttl)"
| event: "hub_runs parse ttl es s \<Longrightarrow> hub_enabled e s \<Longrightarrow> hub_runs parse ttl (es @ [e]) (hub_step parse e s)"

text \<open>What an invariant of the hub has to satisfy; it may speak of the events so far.\<close>

locale hub_invariant =
  fixes parse :: "jstr \<Rightarrow> jstr option" and I :: "hub_event list \<Rightarrow> hub_room \<Rightarrow> bool"
  assumes at_start: "I [] (new_hub ttl)"
    and each_event: "I es s \<Longrightarrow> hub_enabled e s \<Longrightarrow> I (es @ [e]) (hub_step parse e s)"
begin

lemma always: "hub_runs parse ttl es s \<Longrightarrow> I es s"
  by (induction rule: hub_runs.induct) (simp_all add: at_start each_event)

end

section \<open>Everything a connection is given may be seen by its device\<close>

fun frame_messages :: "server_msg \<Rightarrow> chat_msg list" where
  "frame_messages (Message m) = [m]"
| "frame_messages (History ms) = ms"
| "frame_messages _ = []"

text \<open>
  Where a message comes from: a connection sent it, its sender is the device of that connection, and its
  recipients are among those asked for.
\<close>

definition origin :: "(jstr \<Rightarrow> jstr option) \<Rightarrow> hub_event list \<Rightarrow> chat_msg \<Rightarrow> bool" where
  "origin parse es m \<longleftrightarrow>
     (\<exists>c inc unix d. HIncoming c inc unix \<in> set es \<and> HAdd c d \<in> set es \<and> msg_from m = Some d \<and> msg_payload m = in_payload inc
        \<and> (msg_to m = [] \<longleftrightarrow> in_to inc = []) \<and> (\<forall>i \<in> set (msg_to m). \<exists>r \<in> set (in_to inc). parse r = Some i))"

definition frame_ok :: "(jstr \<Rightarrow> jstr option) \<Rightarrow> hub_event list \<Rightarrow> device \<Rightarrow> server_msg \<Rightarrow> bool" where
  "frame_ok parse es d f \<longleftrightarrow> (\<forall>m \<in> set (frame_messages f). origin parse es m \<and> visibleTo m (dev_id d))"

definition client_ok :: "(jstr \<Rightarrow> jstr option) \<Rightarrow> hub_event list \<Rightarrow> nat \<Rightarrow> client \<Rightarrow> bool" where
  "client_ok parse es c cl \<longleftrightarrow> HAdd c (cl_device cl) \<in> set es \<and> (\<forall>f \<in> set (cl_sent cl @ cl_queue cl). frame_ok parse es (cl_device cl) f)"

definition private_ok :: "(jstr \<Rightarrow> jstr option) \<Rightarrow> hub_event list \<Rightarrow> hub_room \<Rightarrow> bool" where
  "private_ok parse es s \<longleftrightarrow>
     (\<forall>c cl. hr_clients s c = Some cl \<longrightarrow> client_ok parse es c cl) \<and>
     (\<forall>x \<in> set (hr_slow s). \<exists>cl. hr_clients s (fst x) = Some cl \<and> frame_ok parse es (cl_device cl) (snd x)) \<and>
     (\<forall>m \<in> set (hr_history s) \<union> set (hr_flight s). origin parse es m)"

lemma private_okI:
  assumes "\<And>c cl. hr_clients s c = Some cl \<Longrightarrow> client_ok parse es c cl"
    and "\<And>x. x \<in> set (hr_slow s) \<Longrightarrow> \<exists>cl. hr_clients s (fst x) = Some cl \<and> frame_ok parse es (cl_device cl) (snd x)"
    and "\<And>m. m \<in> set (hr_history s) \<union> set (hr_flight s) \<Longrightarrow> origin parse es m"
  shows "private_ok parse es s"
  using assms unfolding private_ok_def by blast

lemma private_okD:
  assumes "private_ok parse es s"
  shows "hr_clients s c = Some cl \<Longrightarrow> client_ok parse es c cl"
    and "x \<in> set (hr_slow s) \<Longrightarrow> \<exists>cl. hr_clients s (fst x) = Some cl \<and> frame_ok parse es (cl_device cl) (snd x)"
    and "m \<in> set (hr_history s) \<Longrightarrow> origin parse es m" "m \<in> set (hr_flight s) \<Longrightarrow> origin parse es m"
  using assms unfolding private_ok_def by blast+

lemma collect_from:
  "set (collect parse self out rs) \<subseteq> set out \<union> {i. \<exists>r \<in> set rs. parse r = Some i}"
proof (induction parse self out rs rule: collect.induct)
  case (2 parse self out r rs)
  then show ?case by (cases "parse r") (simp_all, blast+)
qed simp

lemma accept_origin:
  assumes "accept_message parse unix cl inc s = Some m" and "HIncoming c inc unix \<in> set es" and "HAdd c (cl_device cl) \<in> set es"
  shows "origin parse es m"
proof -
  from assms(1) obtain tos where t: "sanitizeRecipients parse (dev_id (cl_device cl)) (in_to inc) = Some tos"
    and m: "m = chat_message unix (cl_device cl) tos (in_payload inc) s"
    by (auto simp: accept_message_def split: if_splits option.splits)
  have "tos = [] \<longleftrightarrow> in_to inc = []" and "\<forall>i \<in> set tos. \<exists>r \<in> set (in_to inc). parse r = Some i"
    using t collect_from [of parse "dev_id (cl_device cl)" "[]" "in_to inc"]
    by (auto simp: sanitizeRecipients_def Let_def split: if_splits)
  with m assms(2,3) show ?thesis
    unfolding origin_def
    by (intro exI [of _ c] exI [of _ inc] exI [of _ unix] exI [of _ "cl_device cl"]) (simp add: chat_message_def)
qed

lemma origin_more: "origin parse es m \<Longrightarrow> origin parse (es @ [e]) m"
  unfolding origin_def set_append by blast

lemma frame_more: "frame_ok parse es d f \<Longrightarrow> frame_ok parse (es @ [e]) d f"
  by (simp add: frame_ok_def origin_more)

lemma client_more: "client_ok parse es c cl \<Longrightarrow> client_ok parse (es @ [e]) c cl"
  by (auto simp: client_ok_def frame_more)

lemma private_more: "private_ok parse es s \<Longrightarrow> private_ok parse (es @ [e]) s"
  unfolding private_ok_def using client_more frame_more origin_more by blast

lemma client_push:
  assumes "client_ok parse es c cl" and "frame_ok parse es (cl_device cl) f"
  shows "client_ok parse es c (cl\<lparr>cl_queue := cl_queue cl @ [f]\<rparr>)"
  using assms by (auto simp: client_ok_def)

text \<open>The operations that change connections keep the invariant.\<close>

lemma private_put:
  assumes "private_ok parse es s" and "client_ok parse es c cl'"
    and "\<And>cl. hr_clients s c = Some cl \<Longrightarrow> cl_device cl = cl_device cl'"
  shows "private_ok parse es (put_client c cl' s)"
proof (rule private_okI)
  show "client_ok parse es d cl" if "hr_clients (put_client c cl' s) d = Some cl" for d cl
    using that assms(2) private_okD(1) [OF assms(1), of d cl] by (cases "d = c") (simp_all add: put_client_def)
next
  fix x assume "x \<in> set (hr_slow (put_client c cl' s))"
  then have "x \<in> set (hr_slow s)" by (simp add: put_client_def)
  from private_okD(2) [OF assms(1) this] assms(3)
  show "\<exists>cl. hr_clients (put_client c cl' s) (fst x) = Some cl \<and> frame_ok parse es (cl_device cl) (snd x)"
    by (cases "fst x = c") (auto simp: put_client_def)
next
  show "origin parse es m" if "m \<in> set (hr_history (put_client c cl' s)) \<union> set (hr_flight (put_client c cl' s))" for m
    using that private_okD(3,4) [OF assms(1), of m] by (auto simp: put_client_def)
qed

lemma private_enqueue:
  assumes "private_ok parse es s" and "\<And>cl. hr_clients s c = Some cl \<Longrightarrow> frame_ok parse es (cl_device cl) f"
  shows "private_ok parse es (enqueue c f s)"
proof (cases "hr_clients s c")
  case (Some cl)
  have "client_ok parse es c cl" using assms(1) Some by (simp add: private_ok_def)
  from client_push [OF this assms(2) [OF Some]]
  have "private_ok parse es (put_client c (cl\<lparr>cl_queue := cl_queue cl @ [f]\<rparr>) s)"
    by (rule private_put [OF assms(1)]) (simp add: Some)
  with Some assms(1) show ?thesis by (simp add: enqueue_def)
qed (simp add: enqueue_def assms(1))

lemma private_slow_subset:
  assumes "private_ok parse es s" and "set xs \<subseteq> set (hr_slow s)"
  shows "private_ok parse es (s\<lparr>hr_slow := xs\<rparr>)"
proof (rule private_okI)
  fix x assume "x \<in> set (hr_slow (s\<lparr>hr_slow := xs\<rparr>))"
  with assms(2) have "x \<in> set (hr_slow s)" by auto
  from private_okD(2) [OF assms(1) this]
  show "\<exists>cl. hr_clients (s\<lparr>hr_slow := xs\<rparr>) (fst x) = Some cl \<and> frame_ok parse es (cl_device cl) (snd x)" by simp
qed (use private_okD [OF assms(1)] in \<open>auto\<close>)

lemma set_drop_nth: "set (drop_nth k xs) \<subseteq> set xs"
  by (auto simp: drop_nth_def dest: in_set_takeD in_set_dropD)

lemma private_unregister: "private_ok parse es s \<Longrightarrow> private_ok parse es (unregister c s)"
proof (cases "hr_clients s c")
  case (Some cl)
  assume ok: "private_ok parse es s"
  then have "client_ok parse es c (cl\<lparr>cl_live := False\<rparr>)" using Some by (simp add: private_ok_def client_ok_def)
  then have "private_ok parse es (put_client c (cl\<lparr>cl_live := False\<rparr>) s)"
    by (rule private_put [OF ok]) (simp add: Some)
  with Some show ?thesis by (simp add: unregister_def)
qed (simp add: unregister_def)

lemma private_deliver:
  assumes "private_ok parse es s" and "\<And>d. P d \<Longrightarrow> frame_ok parse es d f"
  shows "private_ok parse es (deliver_all order f P s)"
proof (rule private_okI)
  fix c cl assume "hr_clients (deliver_all order f P s) c = Some cl"
  then obtain cl0 where c: "hr_clients s c = Some cl0" "cl = offer f P cl0" by (auto simp: deliver_all_def)
  with private_okD(1) [OF assms(1) c(1)] assms(2) client_push [of parse es c cl0 f]
  show "client_ok parse es c cl" by (simp add: offer_def)
next
  fix x assume "x \<in> set (hr_slow (deliver_all order f P s))"
  then have "x \<in> set (hr_slow s) \<or> (too_slow P s (fst x) \<and> snd x = f)" by (auto simp: deliver_all_def)
  then have "\<exists>cl. hr_clients s (fst x) = Some cl \<and> frame_ok parse es (cl_device cl) (snd x)"
    using private_okD(2) [OF assms(1), of x] assms(2) by (auto simp: too_slow_def split: option.splits)
  moreover have "cl_device (offer f P cl) = cl_device cl" for cl by (simp add: offer_def)
  ultimately show "\<exists>cl. hr_clients (deliver_all order f P s) (fst x) = Some cl \<and> frame_ok parse es (cl_device cl) (snd x)"
    by (auto simp: deliver_all_def)
qed (use private_okD(3,4) [OF assms(1)] in \<open>auto simp: deliver_all_def\<close>)

lemma private_known: "private_ok parse es (s\<lparr>hr_known := kn\<rparr>) = private_ok parse es s"
  by (simp add: private_ok_def)

lemma private_add:
  assumes "private_ok parse es s" and "hr_clients s c = None" and "HAdd c d \<in> set es"
  shows "private_ok parse es (add_client c d s)"
  unfolding add_client_def private_known
  by (rule private_put [OF assms(1)]) (simp_all add: assms(2,3) client_ok_def)

lemma private_slow_attempt:
  assumes "private_ok parse es s" and "k < length (hr_slow s)"
  shows "private_ok parse es (slow_attempt k s)"
proof -
  obtain c f where k: "hr_slow s ! k = (c, f)" by (cases "hr_slow s ! k")
  let ?d = "s\<lparr>hr_slow := drop_nth k (hr_slow s)\<rparr>"
  have d: "private_ok parse es ?d" using assms(1) set_drop_nth by (rule private_slow_subset)
  have "(c, f) \<in> set (hr_slow s)" using k assms(2) by (metis nth_mem)
  from private_okD(2) [OF assms(1) this] obtain cl where cl: "hr_clients s c = Some cl" "frame_ok parse es (cl_device cl) f"
    by auto
  from client_push [OF private_okD(1) [OF assms(1) cl(1)] cl(2)]
  have "private_ok parse es (put_client c (cl\<lparr>cl_queue := cl_queue cl @ [f]\<rparr>) ?d)"
    by (rule private_put [OF d]) (simp add: cl(1))
  with cl(1) d assms(1) k show ?thesis by (simp add: slow_attempt_def Let_def)
qed

lemma private_write: "private_ok parse es s \<Longrightarrow> private_ok parse es (hub_step parse (HWrite c) s)"
proof -
  assume ok: "private_ok parse es s"
  show ?thesis
  proof (cases "hr_clients s c")
    case (Some cl)
    show ?thesis
    proof (cases "cl_queue cl")
      case (Cons f fs)
      with private_okD(1) [OF ok Some] have "client_ok parse es c (cl\<lparr>cl_queue := fs, cl_sent := cl_sent cl @ [f]\<rparr>)"
        by (simp add: client_ok_def)
      then have "private_ok parse es (put_client c (cl\<lparr>cl_queue := fs, cl_sent := cl_sent cl @ [f]\<rparr>) s)"
        by (rule private_put [OF ok]) (simp add: Some)
      with Some Cons show ?thesis by simp
    qed (use Some ok in simp)
  qed (use ok in simp)
qed

lemma private_history:
  assumes "private_ok parse es s"
  shows "private_ok parse es (sendHistory unix c s)"
proof (cases "hr_clients s c")
  case (Some cl)
  let ?ms = "filter (\<lambda>m. unix - hr_ttl s \<le> timestamp m \<and> visibleTo m (dev_id (cl_device cl))) (hr_history s)"
  have "frame_ok parse es (cl_device cl) (History ?ms)"
    using private_okD(3) [OF assms] by (simp add: frame_ok_def)
  then have "private_ok parse es (enqueue c (History ?ms) s)"
    using assms Some by (intro private_enqueue) simp_all
  with Some assms show ?thesis by (simp add: sendHistory_def Let_def)
qed (simp add: sendHistory_def assms)

lemma private_incoming:
  assumes "private_ok parse es s" and "HIncoming c inc unix \<in> set es"
  shows "private_ok parse es (hub_step parse (HIncoming c inc unix) s)"
proof (cases "hr_clients s c")
  case (Some cl)
  show ?thesis
  proof (cases "accept_message parse unix cl inc s")
    case (Some m)
    have "HAdd c (cl_device cl) \<in> set es"
      using private_okD(1) [OF assms(1) \<open>hr_clients s c = Some cl\<close>] by (simp add: client_ok_def)
    with Some assms(2) have "origin parse es m" using accept_origin by blast
    with Some \<open>hr_clients s c = Some cl\<close> assms(1) show ?thesis
      by (auto simp: private_ok_def addToHistory_def)
  qed (use Some assms(1) in simp)
qed (use assms(1) in simp)

lemma private_flight:
  assumes "private_ok parse es s" and "set xs \<subseteq> set (hr_flight s)"
  shows "private_ok parse es (s\<lparr>hr_flight := xs\<rparr>)"
  using assms unfolding private_ok_def by auto

interpretation privacy: hub_invariant parse "private_ok parse" for parse
proof
  show "private_ok parse [] (new_hub ttl)" for ttl by (simp add: private_ok_def new_hub_def)
next
  fix es s e assume ok: "private_ok parse es s" and en: "hub_enabled e s"
  have more: "private_ok parse (es @ [e]) s" using ok by (rule private_more)
  have plain: "frame_ok parse es' d (Presence ds)" "frame_ok parse es' d (Welcome w)" for es' d ds w
    by (simp_all add: frame_ok_def)
  show "private_ok parse (es @ [e]) (hub_step parse e s)"
  proof (cases e)
    case (HAdd c d) with more en show ?thesis by (simp add: private_add)
  next
    case (HWelcome c) with more plain show ?thesis
      by (simp add: sendWelcome_def private_enqueue split: option.split)
  next
    case (HHistory c unix) with more show ?thesis by (simp add: private_history)
  next
    case (HPresence order) with more plain show ?thesis by (simp add: broadcastPresence_def private_deliver)
  next
    case (HIncoming c inc unix) with more private_incoming [of parse "es @ [e]" s c inc unix] show ?thesis by simp
  next
    case (HDeliver k order)
    let ?m = "hr_flight s ! k"
    have "?m \<in> set (hr_flight s)" using en HDeliver by simp
    then have "origin parse (es @ [e]) ?m" using more private_okD(4) by blast
    then show ?thesis
      using HDeliver private_flight [OF more set_drop_nth]
      by (simp add: Let_def private_deliver frame_ok_def)
  next
    case (HWrite c) with more private_write show ?thesis by blast
  next
    case (HSlow k) with more en show ?thesis by (simp add: private_slow_attempt)
  next
    case (HSlowOut k)
    with private_slow_subset [OF more set_drop_nth] show ?thesis by (simp add: slow_timeout_def private_unregister)
  next
    case (HLeave c) with more show ?thesis by (simp add: private_unregister)
  qed
qed

text \<open>
  C5. A private message stays private.  Whatever the connections do and in whatever order their
  steps come: every message a connection was ever sent, live or as history, was sent by some connection
  of the device the message names as its sender, and was meant for everyone, or comes from the
  receiving device itself, or the receiving device is among the recipients its sender asked for.
\<close>

theorem dm_private:
  assumes "hub_runs parse ttl es s" and "hr_clients s c = Some cl"
    and "f \<in> set (cl_sent cl)" and "m \<in> set (frame_messages f)"
  shows "\<exists>b inc unix d. HIncoming b inc unix \<in> set es \<and> HAdd b d \<in> set es \<and> msg_from m = Some d
    \<and> msg_payload m = in_payload inc
    \<and> (in_to inc = [] \<or> dev_id (cl_device cl) = dev_id d
         \<or> (\<exists>r \<in> set (in_to inc). parse r = Some (dev_id (cl_device cl))))"
proof -
  have "client_ok parse es c cl" using private_okD(1) [OF privacy.always [OF assms(1)] assms(2)] .
  with assms(3,4) have o: "origin parse es m" and v: "visibleTo m (dev_id (cl_device cl))"
    by (auto simp: client_ok_def frame_ok_def)
  from o obtain b inc unix d where m: "HIncoming b inc unix \<in> set es" "HAdd b d \<in> set es" "msg_from m = Some d"
    "msg_payload m = in_payload inc" "msg_to m = [] \<longleftrightarrow> in_to inc = []"
    "\<forall>i \<in> set (msg_to m). \<exists>r \<in> set (in_to inc). parse r = Some i" unfolding origin_def by blast
  from v m(3,5,6) have "in_to inc = [] \<or> dev_id (cl_device cl) = dev_id d
      \<or> (\<exists>r \<in> set (in_to inc). parse r = Some (dev_id (cl_device cl)))"
    by (auto simp: visibleTo_def)
  with m(1-4) show ?thesis by blast
qed

text \<open>Two devices, and a private message from the first to the second.\<close>

definition dev_a :: device where
  "dev_a = \<lparr>dev_id = lit ''a'', dev_name = lit ''A'', dev_platform = [], dev_ip = []\<rparr>"

definition dev_b :: device where
  "dev_b = \<lparr>dev_id = lit ''b'', dev_name = lit ''B'', dev_platform = [], dev_ip = []\<rparr>"

definition whisper :: incoming where
  "whisper = \<lparr>in_type = lit ''message'', in_to = [lit ''b''],
     in_payload = \<lparr>kind = lit ''text'', pl_content = Some (lit ''hi''), pl_fileId = None, pl_meta = None\<rparr>\<rparr>"

definition whisper_events :: "hub_event list" where
  "whisper_events = [HAdd 0 dev_a, HAdd 1 dev_b, HIncoming 0 whisper 100, HDeliver 0 [0, 1], HWrite 1]"

definition whisper_room :: hub_room where
  "whisper_room = foldl (\<lambda>s e. hub_step Some e s) (new_hub 3600) whisper_events"

lemma run_prefix:
  "hub_runs parse ttl es s \<Longrightarrow> hub_enabled e s \<Longrightarrow> es' = es @ [e] \<Longrightarrow> s' = hub_step parse e s \<Longrightarrow> hub_runs parse ttl es' s'"
  using hub_runs.event by blast

lemmas hub_eval = add_client_def put_client_def accept_message_def sanitizeRecipients_def chat_message_def addToHistory_def
  deliver_all_def offer_def too_slow_def visibleTo_def drop_nth_def visits_all_def new_hub_def MaxRecipients_def sendBuffer_def
  whisper_def dev_a_def dev_b_def Let_def js_eval

lemma whisper_reached: "hub_runs Some 3600 whisper_events whisper_room"
proof -
  let ?s1 = "hub_step Some (HAdd 0 dev_a) (new_hub 3600)"
  let ?s2 = "hub_step Some (HAdd 1 dev_b) ?s1"
  let ?s3 = "hub_step Some (HIncoming 0 whisper 100) ?s2"
  let ?s4 = "hub_step Some (HDeliver 0 [0, 1]) ?s3"
  have "hub_runs Some 3600 [HAdd 0 dev_a] ?s1"
    by (rule run_prefix [OF hub_runs.start _ _ HOL.refl]) (simp_all add: new_hub_def)
  then have "hub_runs Some 3600 [HAdd 0 dev_a, HAdd 1 dev_b] ?s2"
    by (rule run_prefix [OF _ _ _ HOL.refl]) (simp_all add: hub_eval)
  then have "hub_runs Some 3600 [HAdd 0 dev_a, HAdd 1 dev_b, HIncoming 0 whisper 100] ?s3"
    by (rule run_prefix [OF _ _ _ HOL.refl]) simp_all
  then have "hub_runs Some 3600 [HAdd 0 dev_a, HAdd 1 dev_b, HIncoming 0 whisper 100, HDeliver 0 [0, 1]] ?s4"
    by (rule run_prefix [OF _ _ _ HOL.refl]) (simp_all add: hub_eval)
  from hub_runs.event [OF this, of "HWrite 1", unfolded hub_enabled.simps, OF TrueI] show ?thesis
    by (simp only: whisper_events_def whisper_room_def foldl.simps append.simps)
qed

lemma whisper_sent:
  "\<exists>cl m. hr_clients whisper_room 1 = Some cl \<and> cl_device cl = dev_b \<and> cl_sent cl = [Message m]
     \<and> msg_payload m = in_payload whisper"
  by (simp add: whisper_room_def whisper_events_def hub_eval)

theorem dm_private_witness:
  "\<exists>b inc unix d. HIncoming b inc unix \<in> set whisper_events \<and> HAdd b d \<in> set whisper_events
     \<and> in_payload inc = in_payload whisper"
proof -
  obtain cl m where c: "hr_clients whisper_room 1 = Some cl" "cl_sent cl = [Message m]" "msg_payload m = in_payload whisper"
    using whisper_sent by blast
  then have "Message m \<in> set (cl_sent cl)" and "m \<in> set (frame_messages (Message m))" by simp_all
  from dm_private [OF whisper_reached c(1) this] c(3) show ?thesis by metis
qed

end
