(* ===== verification/Hub_Spec.thy ===== *)
theory Hub_Spec
  imports Hub
begin

text \<open>
  What the hub promises, without queues, slow connections and lock sections: who is in the room, and
  which messages each of them was given.  Every step of the hub is a step of this specification or
  changes nothing in it: no message is lost, duplicated or given to the wrong device while its
  connection lasts.
\<close>

section \<open>The specification\<close>

record room_spec =
  sp_device :: "nat \<Rightarrow> device option"
  sp_given :: "nat \<Rightarrow> chat_msg multiset"

datatype spec_event = Enters nat device | Leaves nat | Says chat_msg | Nothing

fun spec_step :: "spec_event \<Rightarrow> room_spec \<Rightarrow> room_spec" where
  "spec_step (Enters c d) sp = sp\<lparr>sp_device := (sp_device sp)(c \<mapsto> d), sp_given := (sp_given sp)(c := {#})\<rparr>"
| "spec_step (Leaves c) sp = sp\<lparr>sp_device := (sp_device sp)(c := None), sp_given := (sp_given sp)(c := {#})\<rparr>"
| "spec_step (Says m) sp =
     sp\<lparr>sp_given := (\<lambda>c. case sp_device sp c of
          None \<Rightarrow> sp_given sp c
        | Some d \<Rightarrow> if visibleTo m (dev_id d) then add_mset m (sp_given sp c) else sp_given sp c)\<rparr>"
| "spec_step Nothing sp = sp"

section \<open>The abstraction\<close>

text \<open>The live messages of a frame: history is not counted, it is given again.\<close>

fun live_messages :: "server_msg \<Rightarrow> chat_msg list" where
  "live_messages (Message m) = [m]"
| "live_messages _ = []"

definition in_frames :: "server_msg list \<Rightarrow> chat_msg multiset" where
  "in_frames fs = mset (concat (map live_messages fs))"

definition slow_for :: "nat \<Rightarrow> (nat \<times> server_msg) list \<Rightarrow> chat_msg multiset" where
  "slow_for c xs = in_frames (map snd (filter (\<lambda>x. fst x = c) xs))"

definition given :: "hub_room \<Rightarrow> nat \<Rightarrow> chat_msg multiset" where
  "given s c =
     (case hr_clients s c of
        None \<Rightarrow> {#}
      | Some cl \<Rightarrow> if cl_live cl then in_frames (cl_sent cl @ cl_queue cl) + slow_for c (hr_slow s) else {#})"

definition abs_hub :: "hub_room \<Rightarrow> room_spec" where
  "abs_hub s = \<lparr>sp_device = live_device s, sp_given = given s\<rparr>"

definition spec_event_of :: "hub_event \<Rightarrow> hub_room \<Rightarrow> spec_event" where
  "spec_event_of e s =
     (case e of
        HAdd c d \<Rightarrow> Enters c d
      | HDeliver k order \<Rightarrow> Says (hr_flight s ! k)
      | HSlowOut k \<Rightarrow> Leaves (fst (hr_slow s ! k))
      | HLeave c \<Rightarrow> Leaves c
      | _ \<Rightarrow> Nothing)"

lemma in_frames_simps [simp]:
  "in_frames [] = {#}" "in_frames (f # fs) = mset (live_messages f) + in_frames fs"
  "in_frames (fs @ gs) = in_frames fs + in_frames gs"
  by (simp_all add: in_frames_def)

lemma slow_for_simps [simp]:
  "slow_for c [] = {#}"
  "slow_for c (x # xs) = (if fst x = c then mset (live_messages (snd x)) else {#}) + slow_for c xs"
  "slow_for c (xs @ ys) = slow_for c xs + slow_for c ys"
  by (simp_all add: slow_for_def)

lemma slow_for_drop: "k < length xs \<Longrightarrow>
    slow_for c xs = (if fst (xs ! k) = c then mset (live_messages (snd (xs ! k))) else {#}) + slow_for c (drop_nth k xs)"
proof -
  assume "k < length xs"
  then have "xs = take k xs @ xs ! k # drop (Suc k) xs" by (rule id_take_nth_drop)
  then have "slow_for c xs = slow_for c (take k xs @ xs ! k # drop (Suc k) xs)" by (rule arg_cong)
  then show ?thesis by (simp add: drop_nth_def ac_simps)
qed

lemma slow_for_marked:
  "distinct order \<Longrightarrow> slow_for c (map (\<lambda>c. (c, f)) (filter Q order))
     = (if c \<in> set order \<and> Q c then mset (live_messages f) else {#})"
  by (induction order) auto

lemma slow_for_none: "c \<notin> fst ` set xs \<Longrightarrow> slow_for c xs = {#}"
  by (induction xs) auto

text \<open>Two hubs with the same connections up to what the specification does not see.\<close>

lemma abs_hubI:
  assumes "\<And>c. live_device s c = sp_device sp c" and "\<And>c. given s c = sp_given sp c"
  shows "abs_hub s = sp"
  using assms by (cases sp) (simp add: abs_hub_def fun_eq_iff)

lemma abs_fields [simp]: "sp_device (abs_hub s) = live_device s" "sp_given (abs_hub s) = given s"
  by (simp_all add: abs_hub_def)

lemma given_deliver:
  assumes "visits_all order s"
  shows "given (deliver_all order f P s) c = given s c
    + (case live_device s c of Some d \<Rightarrow> if P d then mset (live_messages f) else {#} | None \<Rightarrow> {#})"
proof (cases "hr_clients s c")
  case (Some cl)
  with assms have "c \<in> set order" "distinct order" by (auto simp: visits_all_def)
  with Some show ?thesis
    by (auto simp: given_def deliver_all_def offer_def live_device_def slow_for_marked too_slow_def)
qed (simp add: given_def deliver_all_def live_device_def)

lemma device_deliver: "live_device (deliver_all order f P s) c = live_device s c"
  by (simp add: live_device_def deliver_all_def offer_def split: option.split)

lemma abs_enqueue: "live_messages f = [] \<Longrightarrow> abs_hub (enqueue c f s) = abs_hub s"
  by (rule abs_hubI)
    (auto simp: enqueue_def put_client_def live_device_def given_def split: option.split)

lemma abs_presence:
  assumes "visits_all order s"
  shows "abs_hub (broadcastPresence order s) = abs_hub s"
  by (rule abs_hubI)
    (simp_all add: broadcastPresence_def device_deliver given_deliver [OF assms] split: option.split)

lemma abs_says:
  assumes "visits_all order s"
  shows "abs_hub (deliver_all order (Message m) (\<lambda>d. visibleTo m (dev_id d)) s) = spec_step (Says m) (abs_hub s)"
  by (rule abs_hubI)
    (simp_all add: device_deliver given_deliver [OF assms] split: option.split)

lemma abs_unregister: "abs_hub (unregister c s) = spec_step (Leaves c) (abs_hub s)"
  by (rule abs_hubI)
    (auto simp: unregister_def put_client_def live_device_def given_def split: option.split)

lemma abs_slow_attempt:
  assumes "k < length (hr_slow s)"
  shows "abs_hub (slow_attempt k s) = abs_hub s"
proof -
  obtain c f where k: "hr_slow s ! k = (c, f)" by (cases "hr_slow s ! k")
  have sf: "slow_for d (hr_slow s) = (if c = d then mset (live_messages f) else {#}) + slow_for d (drop_nth k (hr_slow s))" for d
    using slow_for_drop [OF assms, of d] k by simp
  show ?thesis
    by (rule abs_hubI)
      (auto simp: slow_attempt_def k sf put_client_def live_device_def given_def Let_def split: option.split)
qed

lemma abs_slow_timeout:
  assumes "k < length (hr_slow s)"
  shows "abs_hub (slow_timeout k s) = spec_step (Leaves (fst (hr_slow s ! k))) (abs_hub s)"
proof -
  have sf: "d \<noteq> fst (hr_slow s ! k) \<Longrightarrow> slow_for d (hr_slow s) = slow_for d (drop_nth k (hr_slow s))" for d
    using slow_for_drop [OF assms, of d] by simp
  show ?thesis
    by (rule abs_hubI)
      (auto simp: slow_timeout_def unregister_def put_client_def live_device_def given_def sf split: option.split)
qed

lemma abs_write: "abs_hub (hub_step parse (HWrite c) s) = abs_hub s"
  by (rule abs_hubI)
    (auto simp: put_client_def live_device_def given_def split: option.split list.split)

lemma abs_add:
  assumes "hr_clients s c = None" and "c \<notin> fst ` set (hr_slow s)"
  shows "abs_hub (add_client c d s) = spec_step (Enters c d) (abs_hub s)"
  by (rule abs_hubI)
    (auto simp: add_client_def put_client_def live_device_def given_def slow_for_none [OF assms(2)] split: option.split)

lemma abs_same:
  assumes "hr_clients t = hr_clients s" and "hr_slow t = hr_slow s"
  shows "abs_hub t = abs_hub s"
  by (rule abs_hubI) (simp_all add: live_device_def given_def assms split: option.split)

lemma abs_incoming: "abs_hub (hub_step parse (HIncoming c inc unix) s) = abs_hub s"
proof (cases "hr_clients s c")
  case (Some cl)
  then show ?thesis
    by (cases "accept_message parse unix cl inc s") (auto intro!: abs_same simp: addToHistory_def)
qed simp

section \<open>The refinement\<close>

text \<open>
  C6. The hub implements its specification: in every state it can reach, each step (of
  a reading connection, a writing one, a retry for a slow one, a time-out, a departure) does to the
  room and to the messages each connection was given exactly what the specification says, and the
  steps inside the hub are invisible.  So each message reaches each connection present that may see it
  exactly once, through the queue or the slow path, or the connection is closed.
\<close>

theorem hub_refines_spec:
  assumes "hub_runs parse ttl es s" and "hub_enabled e s"
  shows "abs_hub (hub_step parse e s) = spec_step (spec_event_of e s) (abs_hub s)"
proof (cases e)
  case (HAdd c d)
  with assms(2) have "hr_clients s c = None" by simp
  moreover from this have "c \<notin> fst ` set (hr_slow s)"
    using private_okD(2) [OF privacy.always [OF assms(1)]] by force
  ultimately show ?thesis using HAdd by (simp add: spec_event_of_def abs_add)
next
  case (HWelcome c)
  then show ?thesis by (simp add: spec_event_of_def sendWelcome_def abs_enqueue split: option.split)
next
  case (HHistory c unix)
  then show ?thesis by (simp add: spec_event_of_def sendHistory_def Let_def abs_enqueue split: option.split)
next
  case (HPresence order) with assms(2) show ?thesis by (simp add: spec_event_of_def abs_presence)
next
  case (HIncoming c inc unix) with abs_incoming show ?thesis by (simp add: spec_event_of_def)
next
  case (HDeliver k order)
  let ?t = "s\<lparr>hr_flight := drop_nth k (hr_flight s)\<rparr>"
  have "visits_all order ?t" using assms(2) HDeliver by (simp add: visits_all_def)
  moreover have "abs_hub ?t = abs_hub s" by (rule abs_same) simp_all
  ultimately show ?thesis using HDeliver by (simp add: spec_event_of_def Let_def abs_says del: spec_step.simps)
next
  case (HWrite c) with abs_write [of parse c s] show ?thesis by (simp add: spec_event_of_def)
next
  case (HSlow k) with assms(2) show ?thesis by (simp add: spec_event_of_def abs_slow_attempt)
next
  case (HSlowOut k) with assms(2) show ?thesis by (simp add: spec_event_of_def abs_slow_timeout del: spec_step.simps)
next
  case (HLeave c) then show ?thesis by (simp add: spec_event_of_def abs_unregister del: spec_step.simps)
qed

theorem hub_refines_spec_witness:
  "abs_hub (hub_step Some (HLeave 1) whisper_room) = spec_step (Leaves 1) (abs_hub whisper_room)"
  using hub_refines_spec [OF whisper_reached, of "HLeave 1"] by (simp add: spec_event_of_def)

text \<open>
  The refinement says nothing about history.  A connection that is registered between \<open>addToHistory\<close> and
  \<open>deliver\<close> of a message, and asks for the history before the delivery, is given the message twice.
\<close>

definition whisper_twice :: hub_room where
  "whisper_twice = foldl (\<lambda>s e. hub_step Some e s) (new_hub 3600)
     [HAdd 0 dev_a, HIncoming 0 (whisper\<lparr>in_to := []\<rparr>) 100, HAdd 1 dev_b, HHistory 1 100, HDeliver 0 [0, 1]]"

lemma given_twice:
  "\<exists>cl m. hr_clients whisper_twice 1 = Some cl \<and> cl_queue cl = [History [m], Message m]"
  by (simp add: whisper_twice_def hub_eval sendHistory_def enqueue_def timestamp_def)

end
