(* ===== verification/Json.thy ===== *)
theory Json
  imports Query Identity
begin

text \<open>
  JSON as the page writes it (\<open>JSON.stringify\<close>) and as Go reads it (\<open>encoding/json\<close>), on the octets of the wire: a text of the page is
  UTF-16, the wire is UTF-8, and both sides have escapes.  A value written by the one is read back by the other.
\<close>

section \<open>JSON values\<close>

text \<open>\<open>JReal\<close> is a number with a fraction or an exponent, as it is written.\<close>

datatype json = JNull | JBool bool | JString jstr | JNumber int | JReal "nat list" | JArray "json list" | JObject "(jstr \<times> json) list"

subsection \<open>Writing\<close>

text \<open>
  \<open>JSON.stringify\<close> goes over the code points of a string; a surrogate without its partner is written as an escape, so
  the result, here as code points, has none.
\<close>

definition unicode_escape :: "nat \<Rightarrow> nat list" where
  "unicode_escape c =
     [92, 117, hex_digit (c div 4096), hex_digit (c div 256 mod 16), hex_digit (c div 16 mod 16), hex_digit (c mod 16)]"

definition surrogate :: "nat \<Rightarrow> bool" where
  "surrogate c = (0xD800 \<le> c \<and> c < 0xE000)"

definition short_escapes :: "(nat \<times> nat) list" where
  "short_escapes = [(8, 98), (9, 116), (10, 110), (12, 102), (13, 114), (34, 34), (92, 92)]"

definition json_point :: "nat \<Rightarrow> nat list" where
  "json_point c =
     (case map_of short_escapes c of
        Some e \<Rightarrow> [92, e]
      | None \<Rightarrow> if c < 32 \<or> surrogate c then unicode_escape c else [c])"

definition json_quote :: "jstr \<Rightarrow> nat list" where
  "json_quote s = [34] @ concat (map json_point (code_points s)) @ [34]"

definition json_number :: "int \<Rightarrow> nat list" where
  "json_number i = (if i < 0 then 45 # show_nat (nat (- i)) else show_nat (nat i))"

fun json_text :: "json \<Rightarrow> nat list" where
  "json_text JNull = lit ''null''"
| "json_text (JBool b) = (if b then lit ''true'' else lit ''false'')"
| "json_text (JString s) = json_quote s"
| "json_text (JNumber i) = json_number i"
| "json_text (JReal t) = t"
| "json_text (JArray vs) = [91] @ join [44] (map json_text vs) @ [93]"
| "json_text (JObject kvs) = [123] @ join [44] (map (\<lambda>(k, v). json_quote k @ [58] @ json_text v) kvs) @ [125]"

subsection \<open>Reading\<close>

text \<open>\<open>getu4\<close>: four hexadecimal digits.\<close>

fun read_u4 :: "byte list \<Rightarrow> nat option" where
  "read_u4 (a # b # c # d # r) =
     (case (pct_value a, pct_value b, pct_value c, pct_value d) of
        (Some w, Some x, Some y, Some z) \<Rightarrow> Some (w * 4096 + x * 256 + y * 16 + z)
      | _ \<Rightarrow> None)"
| "read_u4 _ = None"

definition simple_escape :: "byte \<Rightarrow> nat option" where
  "simple_escape e = map_of (map (\<lambda>(c, e). (e, c)) short_escapes @ [(47, 47)]) e"

text \<open>The escape \<open>\u\<close> at the front of a text, if there is one.\<close>

definition next_u4 :: "byte list \<Rightarrow> nat option" where
  "next_u4 t = (if take 2 t = [92, 117] then read_u4 (drop 2 t) else None)"

text \<open>
  The rest of a string behind its opening quote, as code points, and what follows the closing quote.  Octets that are not
  UTF-8 and escaped surrogates without their partner read as U+FFFD.
\<close>

definition cons_fst :: "'a \<Rightarrow> ('a list \<times> 'b) option \<Rightarrow> ('a list \<times> 'b) option" where
  "cons_fst x r = map_option (\<lambda>(xs, b). (x # xs, b)) r"

function go_string :: "byte list \<Rightarrow> (nat list \<times> byte list) option" where
  "go_string [] = None"
| "go_string (b # r) =
     (if b = 34 then Some ([], r)
      else if b = 92 then
        (case r of
           [] \<Rightarrow> None
         | e # t \<Rightarrow>
             if e = 117 then
               (case read_u4 t of
                  None \<Rightarrow> None
                | Some v \<Rightarrow>
                    if \<not> surrogate v then cons_fst v (go_string (drop 4 t))
                    else
                      (case next_u4 (drop 4 t) of
                         None \<Rightarrow> cons_fst 0xFFFD (go_string (drop 4 t))
                       | Some w \<Rightarrow>
                           if is_high v \<and> is_low w
                           then cons_fst (0x10000 + (v - 0xD800) * 1024 + (w - 0xDC00)) (go_string (drop 10 t))
                           else cons_fst 0xFFFD (go_string (drop 4 t))))
             else (case simple_escape e of None \<Rightarrow> None | Some c \<Rightarrow> cons_fst c (go_string t)))
      else if b < 32 then None
      else if b < 128 then cons_fst b (go_string r)
      else if followers b = 0 then cons_fst 0xFFFD (go_string r)
      else
        (case utf8_dec (b # take (followers b) r) of
           None \<Rightarrow> cons_fst 0xFFFD (go_string r)
         | Some v \<Rightarrow> cons_fst v (go_string (drop (followers b) r))))"
  by pat_completeness auto
termination by (relation "measure length") auto

declare go_string.simps(2) [simp del]

definition skip_blank :: "byte list \<Rightarrow> byte list" where
  "skip_blank = dropWhile (\<lambda>b. b \<in> {9, 10, 13, 32})"

text \<open>A number: digits without a leading zero, then what may follow them.\<close>

definition go_fraction :: "byte list \<Rightarrow> byte list option" where
  "go_fraction r =
     (if r = [] \<or> hd r \<noteq> 46 then Some r
      else if takeWhile is_digit (tl r) = [] then None else Some (dropWhile is_digit (tl r)))"

definition go_exponent :: "byte list \<Rightarrow> byte list option" where
  "go_exponent r =
     (if r = [] \<or> hd r \<notin> {69, 101} then Some r
      else
        let t = (if tl r \<noteq> [] \<and> hd (tl r) \<in> {43, 45} then tl (tl r) else tl r)
        in if takeWhile is_digit t = [] then None else Some (dropWhile is_digit t))"

definition go_number :: "byte list \<Rightarrow> (json \<times> byte list) option" where
  "go_number bs =
     (let neg = (bs \<noteq> [] \<and> hd bs = 45); t = (if neg then tl bs else bs);
          ds = takeWhile is_digit t; r = dropWhile is_digit t
      in if ds = [] \<or> hd ds = 48 \<and> tl ds \<noteq> [] then None
         else
           (case Option.bind (go_fraction r) go_exponent of
              None \<Rightarrow> None
            | Some u \<Rightarrow>
                Some (if u = r then JNumber (if neg then - int (read_digits ds) else int (read_digits ds))
                      else JReal (take (length bs - length u) bs), u)))"

definition go_literal :: "byte list \<Rightarrow> (json \<times> byte list) option" where
  "go_literal bs =
     (if startsWith bs (lit ''null'') then Some (JNull, drop 4 bs)
      else if startsWith bs (lit ''true'') then Some (JBool True, drop 4 bs)
      else if startsWith bs (lit ''false'') then Some (JBool False, drop 5 bs)
      else go_number bs)"

text \<open>
  Go reads values nested up to ten thousand deep; that limit is left out.  \<open>n\<close> is fuel; the length of the text is enough, since every
  call reads at least one octet.
\<close>

fun json_value :: "nat \<Rightarrow> byte list \<Rightarrow> (json \<times> byte list) option"
  and json_elems :: "nat \<Rightarrow> byte list \<Rightarrow> (json list \<times> byte list) option"
  and json_members :: "nat \<Rightarrow> byte list \<Rightarrow> ((jstr \<times> json) list \<times> byte list) option" where
  "json_value 0 bs = None"
| "json_value (Suc n) bs =
     (case skip_blank bs of
        [] \<Rightarrow> None
      | b # r \<Rightarrow>
          if b = 34 then map_option (\<lambda>(t, u). (JString (utf16 t), u)) (go_string r)
          else if b = 91 then
            (if skip_blank r \<noteq> [] \<and> hd (skip_blank r) = 93 then Some (JArray [], tl (skip_blank r))
             else map_option (\<lambda>(vs, u). (JArray vs, u)) (json_elems n r))
          else if b = 123 then
            (if skip_blank r \<noteq> [] \<and> hd (skip_blank r) = 125 then Some (JObject [], tl (skip_blank r))
             else map_option (\<lambda>(kvs, u). (JObject kvs, u)) (json_members n r))
          else go_literal (b # r))"
| "json_elems 0 bs = None"
| "json_elems (Suc n) bs =
     (case json_value n bs of
        None \<Rightarrow> None
      | Some (v, u) \<Rightarrow>
          (case skip_blank u of
             [] \<Rightarrow> None
           | b # w \<Rightarrow> if b = 44 then cons_fst v (json_elems n w) else if b = 93 then Some ([v], w) else None))"
| "json_members 0 bs = None"
| "json_members (Suc n) bs =
     (case skip_blank bs of
        [] \<Rightarrow> None
      | q # r \<Rightarrow>
          if q \<noteq> 34 then None
          else
            (case go_string r of
               None \<Rightarrow> None
             | Some (k, u) \<Rightarrow>
                 if skip_blank u = [] \<or> hd (skip_blank u) \<noteq> 58 then None
                 else
                   (case json_value n (tl (skip_blank u)) of
                      None \<Rightarrow> None
                    | Some (v, x) \<Rightarrow>
                        (case skip_blank x of
                           [] \<Rightarrow> None
                         | b # w \<Rightarrow>
                             if b = 44 then cons_fst (utf16 k, v) (json_members n w)
                             else if b = 125 then Some ([(utf16 k, v)], w) else None))))"

definition json_parse :: "byte list \<Rightarrow> json option" where
  "json_parse bs =
     (case json_value (length bs) bs of None \<Rightarrow> None | Some (v, r) \<Rightarrow> if skip_blank r = [] then Some v else None)"

subsection \<open>Into the fields of a struct\<close>

text \<open>
  \<open>json.Unmarshal\<close> goes over the members of an object in their order.  A field takes the members of its name, whatever the case
  of their letters; \<open>null\<close> leaves a string, a number or a struct as it is and empties a slice or a pointer; an object goes into
  the struct that is already there.  A value of the wrong kind is an error, \<open>None\<close>; a member without a field is passed over.
\<close>

definition fold_char :: "jchar \<Rightarrow> jchar" where
  "fold_char c = (if c = 0x17F then 115 else if c = 0x212A then 107 else lower_char c)"

definition is_field :: "string \<Rightarrow> jstr \<Rightarrow> bool" where
  "is_field name k = (map fold_char k = map fold_char (lit name))"

definition into_string :: "json \<Rightarrow> jstr \<Rightarrow> jstr option" where
  "into_string v s = (case v of JNull \<Rightarrow> Some s | JString t \<Rightarrow> Some t | _ \<Rightarrow> None)"

definition into_int64 :: "json \<Rightarrow> int \<Rightarrow> int option" where
  "into_int64 v i =
     (case v of
        JNull \<Rightarrow> Some i
      | JNumber j \<Rightarrow> if - (2 ^ 63) \<le> j \<and> j < 2 ^ 63 then Some j else None
      | _ \<Rightarrow> None)"

fun into_members :: "(jstr \<Rightarrow> json \<Rightarrow> 'a \<Rightarrow> 'a option) \<Rightarrow> (jstr \<times> json) list \<Rightarrow> 'a \<Rightarrow> 'a option" where
  "into_members f [] x = Some x"
| "into_members f ((k, v) # kvs) x = Option.bind (f k v x) (into_members f kvs)"

definition into_struct :: "(jstr \<Rightarrow> json \<Rightarrow> 'a \<Rightarrow> 'a option) \<Rightarrow> json \<Rightarrow> 'a \<Rightarrow> 'a option" where
  "into_struct f v x = (case v of JNull \<Rightarrow> Some x | JObject kvs \<Rightarrow> into_members f kvs x | _ \<Rightarrow> None)"

definition into_pointer :: "(json \<Rightarrow> 'a \<Rightarrow> 'a option) \<Rightarrow> 'a \<Rightarrow> json \<Rightarrow> 'a option \<Rightarrow> 'a option option" where
  "into_pointer read zero v p =
     (if v = JNull then Some None else map_option Some (read v (case p of None \<Rightarrow> zero | Some x \<Rightarrow> x)))"

fun into_elems :: "(json \<Rightarrow> 'a \<Rightarrow> 'a option) \<Rightarrow> 'a \<Rightarrow> json list \<Rightarrow> 'a list option" where
  "into_elems read zero [] = Some []"
| "into_elems read zero (v # vs) = Option.bind (read v zero) (\<lambda>x. map_option ((#) x) (into_elems read zero vs))"

definition into_slice :: "(json \<Rightarrow> 'a \<Rightarrow> 'a option) \<Rightarrow> 'a \<Rightarrow> json \<Rightarrow> 'a list option" where
  "into_slice read zero v = (case v of JNull \<Rightarrow> Some [] | JArray vs \<Rightarrow> into_elems read zero vs | _ \<Rightarrow> None)"

section \<open>A string arrives\<close>

lemma u4_escape:
  assumes "c < 65536"
  shows "read_u4 ([hex_digit (c div 4096), hex_digit (c div 256 mod 16), hex_digit (c div 16 mod 16), hex_digit (c mod 16)] @ r) = Some c"
proof -
  have hex: "pct_value (hex_digit d) = Some d" if "d < 16" for d using that by (auto simp: pct_value_def hex_digit_def)
  have "c div 4096 < 16" using assms by auto
  moreover have "c div 4096 * 4096 + c div 256 mod 16 * 256 + c div 16 mod 16 * 16 + c mod 16 = c"
  proof -
    have "c div 16 = 16 * (c div 256) + c div 16 mod 16" using mult_div_mod_eq [of 16 "c div 16"] by (simp add: div_mult2_eq [symmetric])
    moreover have "c div 256 = 16 * (c div 4096) + c div 256 mod 16" using mult_div_mod_eq [of 16 "c div 256"] by (simp add: div_mult2_eq [symmetric])
    moreover have "c = 16 * (c div 16) + c mod 16" by simp
    ultimately show ?thesis by linarith
  qed
  ultimately show ?thesis by (simp add: hex)
qed

lemma unicode_escape_octets: "c < 65536 \<Longrightarrow> utf8 (unicode_escape c) = unicode_escape c"
proof -
  assume "c < 65536"
  then have "c div 4096 < 16" by auto
  then have "\<forall>x \<in> set (unicode_escape c). x < 0x80" by (auto simp: unicode_escape_def hex_digit_def)
  then show ?thesis by (rule utf8_ascii)
qed

lemma next_u4_escape: "c < 65536 \<Longrightarrow> next_u4 (unicode_escape c @ r) = Some c"
  using u4_escape [of c] by (simp add: unicode_escape_def next_u4_def)

lemma go_string_unicode:
  assumes "c < 65536" and "surrogate c \<Longrightarrow> is_high c \<Longrightarrow> (\<forall>w. next_u4 r = Some w \<longrightarrow> \<not> is_low w)"
  shows "go_string (unicode_escape c @ r) = cons_fst (if surrogate c then 0xFFFD else c) (go_string r)"
proof -
  obtain t where t: "t = [hex_digit (c div 4096), hex_digit (c div 256 mod 16), hex_digit (c div 16 mod 16), hex_digit (c mod 16)] @ r"
    by blast
  then have "read_u4 t = Some c" using u4_escape [OF assms(1)] by simp
  moreover have "unicode_escape c @ r = 92 # 117 # t" "drop 4 t = r" using t by (simp_all add: unicode_escape_def)
  ultimately show ?thesis using assms(2)
    by (auto simp: go_string.simps(2) [of 92] split: option.split)
qed

lemma go_string_plain:
  assumes "scalar c" and "32 \<le> c" and "c \<noteq> 34" and "c \<noteq> 92"
  shows "go_string (utf8_enc c @ r) = cons_fst c (go_string r)"
proof -
  obtain b bs where c: "utf8_enc c = b # bs" "followers b = length bs" "c < 0x80 \<Longrightarrow> b = c \<and> bs = []"
    "0x80 \<le> c \<Longrightarrow> 0xC0 \<le> b \<and> utf8_dec (b # bs) = Some c" using utf8_shape [OF assms(1)] by metis
  show ?thesis
  proof (cases "c < 0x80")
    case True
    with c assms show ?thesis by (simp add: go_string.simps(2))
  next
    case False
    have "followers b \<noteq> 0" using c(4) False c(2) by (cases bs) auto
    with c False show ?thesis by (simp add: go_string.simps(2))
  qed
qed

text \<open>Code points of a string of UTF-16 code units: no high surrogate stands before a low one.\<close>

fun pair_free :: "nat list \<Rightarrow> bool" where
  "pair_free (a # b # s) = (\<not> (is_high a \<and> is_low b) \<and> pair_free (b # s))"
| "pair_free _ = True"

definition units :: "jstr \<Rightarrow> bool" where
  "units s \<longleftrightarrow> (\<forall>c \<in> set s. c < 0x10000)"

lemma units_Cons [simp]: "units (c # s) \<longleftrightarrow> c < 0x10000 \<and> units s" and units_Nil [simp]: "units []"
  by (simp_all add: units_def)

lemma code_points_hd: "s \<noteq> [] \<Longrightarrow> code_points s \<noteq> [] \<and> (hd (code_points s) = hd s \<or> 0x10000 \<le> hd (code_points s))"
  by (cases s rule: code_points.cases) auto

lemma pair_free_Cons: "pair_free (a # s) \<longleftrightarrow> pair_free s \<and> (s \<noteq> [] \<longrightarrow> \<not> (is_high a \<and> is_low (hd s)))"
  by (cases s) auto

lemma pair_free_points: "pair_free (code_points s)"
proof (induction s rule: code_points.induct)
  case (3 a b s)
  have "\<not> is_low (hd (code_points s')) " if "0x10000 \<le> hd (code_points s')" for s' using that by (simp add: is_low_def)
  with 3 code_points_hd [of "b # s"] show ?case
    by (auto simp: pair_free_Cons is_high_def is_low_def)
qed simp_all

lemma points_bound: "units s \<Longrightarrow> c \<in> set (code_points s) \<Longrightarrow> c < 0x110000"
proof (induction s rule: code_points.induct)
  case (3 a b s)
  show ?case
  proof (cases "is_high a \<and> is_low b")
    case True
    then have "0x10000 + (a - 0xD800) * 1024 + (b - 0xDC00) < 0x110000" by (auto simp: is_high_def is_low_def)
    with True 3 show ?thesis by auto
  qed (use 3 in auto)
qed auto

lemma scalar_surrogate: "c < 0x110000 \<Longrightarrow> scalar c \<longleftrightarrow> \<not> surrogate c"
  by (auto simp: scalar_def surrogate_def)

text \<open>What stands before the next code point is an escape of a low surrogate only if that code point is one.\<close>

lemma next_low:
  assumes "next_u4 (utf8 (json_point d) @ r) = Some w" and "is_low w" and "d < 0x110000"
  shows "is_low d"
proof (cases "map_of short_escapes d = None \<and> (d < 32 \<or> surrogate d)")
  case True
  then have "d < 65536" by (auto simp: surrogate_def)
  with True assms(1,2) show ?thesis by (auto simp: json_point_def unicode_escape_octets next_u4_escape)
next
  case False
  show ?thesis
  proof (cases "map_of short_escapes d")
    case (Some e)
    then have "e \<noteq> 117" "e < 0x80" by (auto simp: short_escapes_def split: if_splits)
    with Some assms(1) show ?thesis by (simp add: json_point_def next_u4_def utf8_enc_def split: if_splits)
  next
    case None
    with False have d: "32 \<le> d" "\<not> surrogate d" "d \<noteq> 92" by (auto simp: short_escapes_def split: if_splits)
    then have "scalar d" using assms(3) scalar_surrogate by blast
    then obtain b bs where "utf8_enc d = b # bs" "d < 0x80 \<Longrightarrow> b = d" "0x80 \<le> d \<Longrightarrow> 0xC0 \<le> b" using utf8_shape by metis
    then have "hd (utf8_enc d @ r) \<noteq> 92" using d(3) by (cases "d < 0x80") auto
    with None False assms(1) show ?thesis
      by (cases "utf8_enc d @ r") (auto simp: json_point_def next_u4_def split: if_splits)
  qed
qed

lemma go_string_point:
  assumes "d < 0x110000" and "is_high d \<Longrightarrow> (\<forall>w. next_u4 r = Some w \<longrightarrow> \<not> is_low w)"
  shows "go_string (utf8 (json_point d) @ r) = cons_fst (to_scalar d) (go_string r)"
proof (cases "map_of short_escapes d")
  case (Some e)
  then have "simple_escape e = Some d" "e \<noteq> 117" "e < 0x80" "scalar d"
    by (auto simp: short_escapes_def simple_escape_def scalar_def split: if_splits)
  with Some show ?thesis by (simp add: json_point_def utf8_enc_def go_string.simps(2))
next
  case None
  then have plain: "d \<noteq> 34" "d \<noteq> 92" by (auto simp: short_escapes_def)
  show ?thesis
  proof (cases "d < 32 \<or> surrogate d")
    case True
    then have "d < 65536" by (auto simp: surrogate_def)
    moreover from this have "to_scalar d = (if surrogate d then 0xFFFD else d)" by (auto simp: to_scalar_def scalar_def surrogate_def)
    ultimately show ?thesis
      using None True assms(2) by (simp add: json_point_def unicode_escape_octets go_string_unicode)
  next
    case False
    with scalar_surrogate assms(1) have "scalar d" by blast
    with False None plain show ?thesis by (simp add: json_point_def go_string_plain)
  qed
qed

lemma utf8_append: "utf8 (a @ b) = utf8 a @ utf8 b"
  by (simp add: utf8_def)

lemma go_string_points:
  assumes "pair_free cps" and "\<forall>c \<in> set cps. c < 0x110000"
  shows "go_string (utf8 (concat (map json_point cps)) @ 34 # r) = Some (map to_scalar cps, r)"
  using assms
proof (induction cps)
  case Nil
  then show ?case by (simp add: go_string.simps(2))
next
  case (Cons c cps)
  let ?rest = "utf8 (concat (map json_point cps)) @ 34 # r"
  have "\<not> is_low w" if "is_high c" "next_u4 ?rest = Some w" for w
  proof (cases cps)
    case Nil
    with that show ?thesis by (simp add: next_u4_def split: if_splits)
  next
    case (Cons d ds)
    with that Cons.prems next_low [of d "utf8 (concat (map json_point ds)) @ 34 # r" w] show ?thesis
      by (auto simp: utf8_append)
  qed
  with go_string_point [of c ?rest] Cons.prems Cons.IH show ?case
    by (simp add: utf8_append pair_free_Cons cons_fst_def)
qed

lemma go_string_quote:
  assumes "units s"
  shows "\<exists>bs. utf8 (json_quote s) @ r = 34 # bs \<and> go_string bs = Some (usv s, r)"
proof -
  have "utf8 (json_quote s) @ r = 34 # (utf8 (concat (map json_point (code_points s))) @ 34 # r)"
    by (simp add: json_quote_def utf8_append utf8_enc_def)
  with go_string_points [OF pair_free_points] points_bound [OF assms] show ?thesis by (auto simp: usv_def)
qed

section \<open>A value arrives\<close>

text \<open>What reaches the hub of a value: every string as it can be sent.\<close>

fun json_sent :: "json \<Rightarrow> json" where
  "json_sent JNull = JNull"
| "json_sent (JBool b) = JBool b"
| "json_sent (JString s) = JString (to_well_formed s)"
| "json_sent (JNumber i) = JNumber i"
| "json_sent (JReal t) = JReal t"
| "json_sent (JArray vs) = JArray (map json_sent vs)"
| "json_sent (JObject kvs) = JObject (map (\<lambda>(k, v). (to_well_formed k, json_sent v)) kvs)"

text \<open>Texts of code units; a number with a fraction is only read here.\<close>

fun json_units :: "json \<Rightarrow> bool" where
  "json_units JNull = True"
| "json_units (JBool b) = True"
| "json_units (JString s) = units s"
| "json_units (JNumber i) = True"
| "json_units (JReal t) = False"
| "json_units (JArray vs) = list_all json_units vs"
| "json_units (JObject kvs) = list_all (\<lambda>(k, v). units k \<and> json_units v) kvs"

definition stops :: "byte list \<Rightarrow> bool" where
  "stops r \<longleftrightarrow> r = [] \<or> hd r \<in> {44, 93, 125}"

lemma stops_Cons [simp]: "stops (b # r) \<longleftrightarrow> b \<in> {44, 93, 125}" and stops_Nil [simp]: "stops []"
  by (simp_all add: stops_def)

lemma utf8_one: "c < 0x80 \<Longrightarrow> utf8 [c] = [c]"
  by (simp add: utf8_enc_def)

lemma utf8_join: "utf8 (join [44] xs) = join [44] (map utf8 xs)"
  by (induction "[44::nat]" xs rule: join.induct) (simp_all add: utf8_append utf8_enc_def)

lemma show_nat_octets: "utf8 (show_nat n) = show_nat n"
  by (rule utf8_ascii) (auto simp: is_digit_def dest: show_nat_digits)

lemma json_number_octets: "utf8 (json_number i) = json_number i"
  by (simp add: json_number_def show_nat_octets utf8_enc_def)

lemma show_nat_hd: "hd (show_nat n) = 48 \<Longrightarrow> tl (show_nat n) = []"
proof (induction n rule: show_nat.induct)
  case (1 n)
  show ?case
  proof (cases "n < 10")
    case False
    have "hd (show_nat n) = hd (show_nat (n div 10))" using False by (simp add: show_nat_big)
    with 1 False have "tl (show_nat (n div 10)) = []" "hd (show_nat (n div 10)) = 48" by simp_all
    then have "show_nat (n div 10) = [48]" using show_nat_nonempty [of "n div 10"] by (metis list.collapse)
    moreover have "show_nat 0 = [48]" by (simp add: show_nat_small)
    ultimately have "n div 10 = 0" by (metis show_nat_inject)
    with False show ?thesis by auto
  qed (simp add: show_nat_small)
qed

lemma go_number_text:
  assumes "stops r" shows "go_number (json_number i @ r) = Some (JNumber i, r)"
proof -
  have stop: "r = [] \<or> \<not> is_digit (hd r) \<and> hd r \<notin> {46, 69, 101}" using assms by (auto simp: stops_def is_digit_def)
  then have r: "takeWhile is_digit r = []" "dropWhile is_digit r = r" by (cases r; auto)+
  have ds: "takeWhile is_digit (show_nat n @ r) = show_nat n" "dropWhile is_digit (show_nat n @ r) = r" for n
    using r by (simp_all add: takeWhile_append2 dropWhile_append2 show_nat_digits)
  have "hd (show_nat n @ r) \<noteq> 45" for n
    using show_nat_digits [of "hd (show_nat n)" n] by (auto simp: is_digit_def)
  moreover have "Option.bind (go_fraction r) go_exponent = Some r"
    using stop by (auto simp: go_fraction_def go_exponent_def)
  ultimately show ?thesis using show_nat_hd by (auto simp: go_number_def json_number_def Let_def ds dest: show_nat_digits)
qed

lemma json_text_octets:
  "utf8 (json_text (JArray vs)) = 91 # join [44] (map (\<lambda>v. utf8 (json_text v)) vs) @ [93]"
  "utf8 (json_text (JObject kvs)) = 123 # join [44] (map (\<lambda>kv. utf8 (json_quote (fst kv)) @ 58 # utf8 (json_text (snd kv))) kvs) @ [125]"
  by (simp_all add: utf8_append utf8_join utf8_enc_def comp_def split_beta)

lemma json_quote_octets: "\<exists>bs. utf8 (json_quote s) = 34 # bs"
  by (simp add: json_quote_def utf8_append utf8_enc_def)

lemma json_number_hd: "\<exists>b bs. json_number i = b # bs \<and> (b = 45 \<or> is_digit b)"
proof (cases "i < 0")
  case False
  with show_nat_digits [of "hd (show_nat (nat i))" "nat i"] show ?thesis
    by (cases "show_nat (nat i)") (auto simp: json_number_def)
qed (simp add: json_number_def)

lemma skip_blank_other [simp]: "b \<notin> {9, 10, 13, 32} \<Longrightarrow> skip_blank (b # r) = b # r"
  by (simp add: skip_blank_def)

text \<open>A text that starts with neither a blank nor a closing bracket, and is read back whatever follows.\<close>

definition reads_back :: "json \<Rightarrow> bool" where
  "reads_back v \<longleftrightarrow>
     (\<exists>b bs. utf8 (json_text v) = b # bs \<and> b \<notin> {9, 10, 13, 32, 93})
     \<and> (\<forall>n r. length (utf8 (json_text v)) \<le> n \<and> stops r \<longrightarrow> json_value n (utf8 (json_text v) @ r) = Some (json_sent v, r))"

lemma reads_backI:
  assumes "utf8 (json_text v) = b # bs" and "b \<notin> {9, 10, 13, 32, 93}"
    and "\<And>n r. length bs \<le> n \<Longrightarrow> stops r \<Longrightarrow> json_value (Suc n) (b # bs @ r) = Some (json_sent v, r)"
  shows "reads_back v"
  unfolding reads_back_def
proof (intro conjI allI impI exI)
  fix n r assume "length (utf8 (json_text v)) \<le> n \<and> stops r"
  then show "json_value n (utf8 (json_text v) @ r) = Some (json_sent v, r)"
    using assms by (cases n) simp_all
qed (use assms in simp_all)

lemma reads_backD: "reads_back v \<Longrightarrow> length (utf8 (json_text v)) \<le> n \<Longrightarrow> stops r \<Longrightarrow>
    json_value n (utf8 (json_text v) @ r) = Some (json_sent v, r)"
  by (simp add: reads_back_def)

lemma reads_back_start:
  "reads_back v \<Longrightarrow> skip_blank (utf8 (json_text v) @ r) \<noteq> [] \<and> hd (skip_blank (utf8 (json_text v) @ r)) \<noteq> 93"
  by (auto simp: reads_back_def)

lemma elems_read_back:
  assumes "vs \<noteq> []" and "\<forall>v \<in> set vs. reads_back v" and "length (join [44] (map (\<lambda>v. utf8 (json_text v)) vs)) < n"
  shows "json_elems n (join [44] (map (\<lambda>v. utf8 (json_text v)) vs) @ 93 # r) = Some (map json_sent vs, r)"
  using assms
proof (induction vs arbitrary: n)
  case (Cons v vs)
  then obtain m where n: "n = Suc m" by (cases n) auto
  show ?case
  proof (cases "vs = []")
    case True
    with Cons.prems n reads_backD [of v m "93 # r"] show ?thesis by simp
  next
    case False
    let ?rest = "join [44] (map (\<lambda>v. utf8 (json_text v)) vs)"
    have body: "join [44] (map (\<lambda>v. utf8 (json_text v)) (v # vs)) = utf8 (json_text v) @ 44 # ?rest"
      using False by (cases vs) simp_all
    with Cons.prems n reads_backD [of v m "44 # ?rest @ 93 # r"] Cons.IH [OF False, of m] show ?thesis
      by (simp only: body) (simp add: cons_fst_def)
  qed
qed simp

lemma members_read_back:
  assumes "kvs \<noteq> []" and "\<forall>kv \<in> set kvs. units (fst kv) \<and> reads_back (snd kv)"
    and "length (join [44] (map (\<lambda>kv. utf8 (json_quote (fst kv)) @ 58 # utf8 (json_text (snd kv))) kvs)) < n"
  shows "json_members n (join [44] (map (\<lambda>kv. utf8 (json_quote (fst kv)) @ 58 # utf8 (json_text (snd kv))) kvs) @ 125 # r)
    = Some (map (\<lambda>kv. (to_well_formed (fst kv), json_sent (snd kv))) kvs, r)"
  using assms
proof (induction kvs arbitrary: n)
  case (Cons kv kvs)
  let ?text = "\<lambda>kv. utf8 (json_quote (fst kv)) @ 58 # utf8 (json_text (snd kv))"
  obtain m where n: "n = Suc m" using Cons.prems by (cases n) auto
  have member: "json_members n (?text kv @ b # w) =
      (if b = 44 then cons_fst (to_well_formed (fst kv), json_sent (snd kv)) (json_members m w)
       else if b = 125 then Some ([(to_well_formed (fst kv), json_sent (snd kv))], w) else None)"
    if "b = 44 \<or> b = 125" and "length (?text kv) \<le> n" for b w
  proof -
    obtain bs where q: "utf8 (json_quote (fst kv)) @ 58 # utf8 (json_text (snd kv)) @ b # w = 34 # bs"
      "go_string bs = Some (usv (fst kv), 58 # utf8 (json_text (snd kv)) @ b # w)"
      using go_string_quote [of "fst kv" "58 # utf8 (json_text (snd kv)) @ b # w"] Cons.prems by auto
    have "json_value m (utf8 (json_text (snd kv)) @ b # w) = Some (json_sent (snd kv), b # w)"
      using Cons.prems that n by (intro reads_backD) auto
    with q that n show ?thesis by (auto simp: to_well_formed_def)
  qed
  show ?case
  proof (cases "kvs = []")
    case True
    with Cons.prems member [of 125 r] show ?thesis by simp
  next
    case False
    let ?rest = "join [44] (map ?text kvs)"
    have body: "join [44] (map ?text (kv # kvs)) = ?text kv @ 44 # ?rest" using False by (cases kvs) simp_all
    have "length ?rest < m" "length (?text kv) \<le> n" using Cons.prems(3) n unfolding body by simp_all
    with member [of 44 "?rest @ 125 # r"] Cons.IH [OF False, of m] Cons.prems(2) show ?thesis
      by (simp only: body) (simp add: cons_fst_def)
  qed
qed simp

lemma reads_back_literal: "reads_back JNull" "reads_back (JBool b)"
proof -
  show "reads_back JNull"
    by (rule reads_backI [of _ 110 "[117, 108, 108]"]) (simp_all add: utf8_enc_def go_literal_def startsWith_def js_eval)
  show "reads_back (JBool b)"
  proof (cases b)
    case True
    then show ?thesis
      by (intro reads_backI [of _ 116 "[114, 117, 101]"]) (simp_all add: utf8_enc_def go_literal_def startsWith_def js_eval)
  next
    case False
    then show ?thesis
      by (intro reads_backI [of _ 102 "[97, 108, 115, 101]"]) (simp_all add: utf8_enc_def go_literal_def startsWith_def js_eval)
  qed
qed

lemma reads_back_string:
  assumes "units s" shows "reads_back (JString s)"
proof -
  obtain bs where q: "utf8 (json_quote s) = 34 # bs" using json_quote_octets by blast
  have "go_string (bs @ r) = Some (usv s, r)" for r using go_string_quote [OF assms, of r] q by auto
  then show ?thesis by (intro reads_backI [of _ 34 bs]) (simp_all add: q to_well_formed_def)
qed

lemma reads_back_number: "reads_back (JNumber i)"
proof -
  obtain b bs where b: "json_number i = b # bs" "b = 45 \<or> is_digit b" using json_number_hd by blast
  have "go_literal (b # bs @ r) = Some (JNumber i, r)" if "stops r" for r
    using go_number_text [OF that, of i] b by (auto simp: go_literal_def startsWith_def is_digit_def js_eval)
  moreover have "utf8 (json_text (JNumber i)) = b # bs" by (metis json_text.simps(4) json_number_octets b(1))
  ultimately show ?thesis using b(2) by (intro reads_backI) (auto simp: is_digit_def)
qed

lemma reads_back_array:
  assumes all: "\<forall>v \<in> set vs. reads_back v"
  shows "reads_back (JArray vs)"
proof (rule reads_backI)
  let ?text = "join [44] (map (\<lambda>v. utf8 (json_text v)) vs)"
  show "utf8 (json_text (JArray vs)) = 91 # ?text @ [93]" by (rule json_text_octets(1))
  fix n r assume n: "length (?text @ [93]) \<le> n" "stops r"
  show "json_value (Suc n) (91 # (?text @ [93]) @ r) = Some (json_sent (JArray vs), r)"
  proof (cases "vs = []")
    case False
    then obtain v t where "?text @ 93 # r = utf8 (json_text v) @ t" "v \<in> set vs" by (cases vs; cases "tl vs") auto
    with all reads_back_start [of v t] elems_read_back [OF False all, of n r] n show ?thesis by simp
  qed simp
qed simp

lemma reads_back_object:
  assumes all: "\<forall>kv \<in> set kvs. units (fst kv) \<and> reads_back (snd kv)"
  shows "reads_back (JObject kvs)"
proof (rule reads_backI)
  let ?text = "join [44] (map (\<lambda>kv. utf8 (json_quote (fst kv)) @ 58 # utf8 (json_text (snd kv))) kvs)"
  show "utf8 (json_text (JObject kvs)) = 123 # ?text @ [125]" by (rule json_text_octets(2))
  fix n r assume n: "length (?text @ [125]) \<le> n" "stops r"
  show "json_value (Suc n) (123 # (?text @ [125]) @ r) = Some (json_sent (JObject kvs), r)"
  proof (cases "kvs = []")
    case False
    then obtain k t where "?text @ 125 # r = utf8 (json_quote k) @ t" by (cases kvs; cases "tl kvs") auto
    with json_quote_octets [of k] members_read_back [OF False all, of n r] n show ?thesis by (auto simp: split_beta)
  qed simp
qed simp

lemma json_reads_back: "json_units v \<Longrightarrow> reads_back v"
proof (induction v)
  case (JArray vs)
  then show ?case by (intro reads_back_array) (simp add: list_all_iff)
next
  case (JObject kvs)
  then show ?case by (intro reads_back_object) (fastforce simp: list_all_iff)
qed (simp_all add: reads_back_literal reads_back_string reads_back_number)

lemma json_roundtrip: "json_units v \<Longrightarrow> json_parse (utf8 (json_text v)) = Some (json_sent v)"
  using json_reads_back [of v] reads_backD [of v "length (utf8 (json_text v))" "[]"]
  by (simp add: json_parse_def skip_blank_def)

lemma lit_bound: "c \<in> set (lit s) \<Longrightarrow> c < 0x100"
proof -
  assume "c \<in> set (lit s)"
  then obtain x :: char where "c = of_char x" by (auto simp: lit_def)
  moreover have "of_char x mod 256 = (of_char x :: nat)" by (rule of_char_mod_256)
  ultimately show ?thesis by (metis mod_less_divisor zero_less_numeral numeral_eq_iff semiring_norm(87))
qed

lemma units_lit: "units (lit s)"
  using lit_bound by (fastforce simp: units_def)

lemma code_points_plain: "\<forall>c \<in> set s. c < 0xD800 \<Longrightarrow> code_points s = s"
  by (induction s rule: code_points.induct) (auto simp: is_high_def)

lemma lit_well_formed: "is_well_formed (lit s)"
proof -
  have small: "\<forall>c \<in> set (lit s). c < 0xD800" using lit_bound by fastforce
  then show ?thesis by (auto simp: is_well_formed_def code_points_plain list_all_iff scalar_def)
qed

lemma lit_sent: "to_well_formed (lit s) = lit s"
  using units_lit by (intro to_well_formed_id lit_well_formed) (auto simp: units_def)

section \<open>The length of a text\<close>

lemma json_point_length: "(if c < 0x10000 then 1 else 2) \<le> length (utf8 (json_point c))"
proof (cases "map_of short_escapes c = None \<and> \<not> (c < 32 \<or> surrogate c)")
  case True
  then show ?thesis by (simp add: json_point_def utf8_enc_def)
next
  case False
  have "map_of short_escapes c = Some e \<Longrightarrow> c < 0x10000" for e by (auto simp: short_escapes_def split: if_splits)
  moreover have "surrogate c \<Longrightarrow> c < 0x10000" by (simp add: surrogate_def)
  ultimately have "c < 0x10000" using False by fastforce
  moreover have "utf8 (json_point c) \<noteq> []"
    by (auto simp: json_point_def unicode_escape_def split: option.split)
  ultimately show ?thesis by (simp add: Suc_le_eq)
qed

lemma json_points_length: "length s \<le> length (utf8 (concat (map json_point (code_points s))))"
proof (induction s rule: code_points.induct)
  case (2 c)
  from json_point_length [of c] show ?case by (auto split: if_splits)
next
  case (3 a b s)
  show ?case
  proof (cases "is_high a \<and> is_low b")
    case True
    with 3 json_point_length [of "0x10000 + (a - 0xD800) * 1024 + (b - 0xDC00)"] show ?thesis by (simp add: utf8_append)
  next
    case False
    with 3 json_point_length [of a] show ?thesis by (auto simp: utf8_append split: if_splits)
  qed
qed simp

lemma json_quote_length: "length s \<le> length (utf8 (json_quote s))"
  using json_points_length [of s] by (simp add: json_quote_def utf8_append)

text \<open>A code unit takes at most the six octets of an escape.\<close>

lemma json_point_upper: "length (utf8 (json_point c)) \<le> 6"
proof -
  have one: "length (utf8_enc d) \<le> 4" for d by (simp add: utf8_enc_def)
  have "utf8 (json_point c) = utf8_enc 92 @ utf8_enc (the (map_of short_escapes c)) \<or> utf8 (json_point c) = utf8_enc c
      \<or> utf8 (json_point c) = utf8 (unicode_escape c) \<and> c < 65536"
    by (auto simp: json_point_def surrogate_def split: option.split)
  moreover have "length (utf8_enc 92) = 1" by (simp add: utf8_enc_def)
  ultimately show ?thesis
    using one [of c] one [of "the (map_of short_escapes c)"]
    by (auto simp: unicode_escape_octets) (auto simp: unicode_escape_def)
qed

lemma json_points_upper: "length (utf8 (concat (map json_point (code_points s)))) \<le> 6 * length s"
proof (induction s rule: code_points.induct)
  case (2 c)
  then show ?case using json_point_upper [of c] by simp
next
  case (3 a b s)
  then show ?case
    using json_point_upper [of a] json_point_upper [of "0x10000 + (a - 0xD800) * 1024 + (b - 0xDC00)"]
    by (auto simp: utf8_append)
qed simp

lemma json_quote_upper: "length (utf8 (json_quote s)) \<le> 6 * length s + 2"
  using json_points_upper [of s] by (simp add: json_quote_def utf8_append utf8_enc_def)

lemma join_length: "x \<in> set xs \<Longrightarrow> length x \<le> length (join sep xs)"
  by (induction sep xs rule: join.induct) auto

lemma member_length: "(k, v) \<in> set kvs \<Longrightarrow> length (utf8 (json_text v)) \<le> length (utf8 (json_text (JObject kvs)))"
proof -
  assume "(k, v) \<in> set kvs"
  then have "utf8 (json_quote k) @ 58 # utf8 (json_text v)
      \<in> set (map (\<lambda>kv. utf8 (json_quote (fst kv)) @ 58 # utf8 (json_text (snd kv))) kvs)" by force
  from join_length [OF this, of "[44]"] show ?thesis unfolding json_text_octets by simp
qed

end
