(* ===== verification/Frames.thy ===== *)
theory Frames
  imports Json Hub
begin

text \<open>
  A frame of the chat on the wire: what \<open>sendWS\<close> (web/static/app.js) makes of a message with \<open>JSON.stringify\<close>, the octets
  the browser sends, and what the hub's \<open>ReadPump\<close> (internal/hub/hub.go) reads from them with \<open>json.Unmarshal\<close>, within
  \<open>MaxMessageSize\<close>.
\<close>

section \<open>A frame\<close>

text \<open>What its transport does to a string: a surrogate without its partner becomes U+FFFD.\<close>

definition high_surrogate :: "jchar \<Rightarrow> bool" where
  "high_surrogate c = (0xD800 \<le> c \<and> c < 0xDC00)"

definition low_surrogate :: "jchar \<Rightarrow> bool" where
  "low_surrogate c = (0xDC00 \<le> c \<and> c < 0xE000)"

fun go_text :: "jstr \<Rightarrow> jstr" where
  "go_text [] = []"
| "go_text [c] = [if high_surrogate c \<or> low_surrogate c then 0xFFFD else c]"
| "go_text (c # d # s) =
     (if high_surrogate c \<and> low_surrogate d then c # d # go_text s
      else (if high_surrogate c \<or> low_surrogate c then 0xFFFD else c) # go_text (d # s))"

definition go_opt :: "jstr option \<Rightarrow> jstr option" where
  "go_opt f = (case f of None \<Rightarrow> None | Some s \<Rightarrow> if s = [] then None else Some (go_text s))"

definition go_meta :: "file_meta \<Rightarrow> file_meta" where
  "go_meta m = \<lparr>meta_name = go_text (meta_name m), meta_size = meta_size m, meta_mime = go_text (meta_mime m)\<rparr>"

text \<open>\<open>JSON.stringify({ type, payload, to })\<close>, read into a \<open>ChatMessage\<close>.\<close>

definition read_frame :: "sent_msg \<Rightarrow> incoming" where
  "read_frame f =
     \<lparr>in_type = lit ''message'',
      in_to = (case sent_to f of None \<Rightarrow> [] | Some l \<Rightarrow> map go_text l),
      in_payload = \<lparr>kind = go_text (kind (sent_payload f)), pl_content = go_opt (pl_content (sent_payload f)),
        pl_fileId = go_opt (pl_fileId (sent_payload f)), pl_meta = map_option go_meta (pl_meta (sent_payload f))\<rparr>\<rparr>"

text \<open>A text of well-formed UTF-16 arrives unchanged, and what arrives is well-formed.\<close>

fun well_formed :: "jstr \<Rightarrow> bool" where
  "well_formed [] = True"
| "well_formed [c] = (\<not> high_surrogate c \<and> \<not> low_surrogate c)"
| "well_formed (c # d # s) =
     (if high_surrogate c \<and> low_surrogate d then well_formed s
      else \<not> high_surrogate c \<and> \<not> low_surrogate c \<and> well_formed (d # s))"

lemma go_text_same [simp]: "well_formed s \<Longrightarrow> go_text s = s"
  by (induction s rule: go_text.induct) (auto split: if_splits)

lemma well_formed_cons: "\<not> high_surrogate c \<Longrightarrow> \<not> low_surrogate c \<Longrightarrow> well_formed (c # s) = well_formed s"
  by (cases s) simp_all

lemma well_formed_go [simp]: "well_formed (go_text s)"
proof (induction s rule: go_text.induct)
  case (3 c d s)
  have "\<not> high_surrogate 0xFFFD" "\<not> low_surrogate 0xFFFD" by (simp_all add: high_surrogate_def low_surrogate_def)
  with 3 show ?case by (auto simp: well_formed_cons)
qed (auto simp: high_surrogate_def low_surrogate_def)

lemma go_text_Nil_iff [simp]: "go_text s = [] \<longleftrightarrow> s = []"
  by (induction s rule: go_text.induct) simp_all


subsection \<open>The page\<close>

text \<open>\<open>JSON.stringify\<close> leaves out a field that is undefined.\<close>

definition some_field :: "string \<Rightarrow> json option \<Rightarrow> (jstr \<times> json) list" where
  "some_field name v = (case v of None \<Rightarrow> [] | Some x \<Rightarrow> [(lit name, x)])"

definition meta_json :: "file_meta \<Rightarrow> json" where
  "meta_json m = JObject [(lit ''name'', JString (meta_name m)), (lit ''size'', JNumber (meta_size m)), (lit ''mime'', JString (meta_mime m))]"

definition payload_json :: "msg_payload \<Rightarrow> json" where
  "payload_json p =
     JObject ((lit ''kind'', JString (kind p)) # some_field ''content'' (map_option JString (pl_content p))
       @ some_field ''fileId'' (map_option JString (pl_fileId p)) @ some_field ''meta'' (map_option meta_json (pl_meta p)))"

definition frame_json :: "sent_msg \<Rightarrow> json" where
  "frame_json f =
     JObject ([(lit ''type'', JString (lit ''message'')), (lit ''payload'', payload_json (sent_payload f))]
       @ some_field ''to'' (map_option (JArray \<circ> map JString) (sent_to f)))"

definition frame_octets :: "sent_msg \<Rightarrow> byte list" where
  "frame_octets f = utf8 (json_text (frame_json f))"

subsection \<open>The hub\<close>

text \<open>The structs of internal/hub/hub.go, by the names in their tags.  The empty string and a missing one are the same in Go.\<close>

definition device_member :: "jstr \<Rightarrow> json \<Rightarrow> device \<Rightarrow> device option" where
  "device_member k v d =
     (if is_field ''id'' k then map_option (\<lambda>s. d\<lparr>dev_id := s\<rparr>) (into_string v (dev_id d))
      else if is_field ''name'' k then map_option (\<lambda>s. d\<lparr>dev_name := s\<rparr>) (into_string v (dev_name d))
      else if is_field ''platform'' k then map_option (\<lambda>s. d\<lparr>dev_platform := s\<rparr>) (into_string v (dev_platform d))
      else if is_field ''ip'' k then map_option (\<lambda>s. d\<lparr>dev_ip := s\<rparr>) (into_string v (dev_ip d))
      else Some d)"

definition no_device :: device where
  "no_device = \<lparr>dev_id = [], dev_name = [], dev_platform = [], dev_ip = []\<rparr>"

definition meta_member :: "jstr \<Rightarrow> json \<Rightarrow> file_meta \<Rightarrow> file_meta option" where
  "meta_member k v m =
     (if is_field ''name'' k then map_option (\<lambda>s. m\<lparr>meta_name := s\<rparr>) (into_string v (meta_name m))
      else if is_field ''size'' k then map_option (\<lambda>i. m\<lparr>meta_size := i\<rparr>) (into_int64 v (meta_size m))
      else if is_field ''mime'' k then map_option (\<lambda>s. m\<lparr>meta_mime := s\<rparr>) (into_string v (meta_mime m))
      else Some m)"

definition no_meta :: file_meta where
  "no_meta = \<lparr>meta_name = [], meta_size = 0, meta_mime = []\<rparr>"

definition non_empty :: "jstr \<Rightarrow> jstr option" where
  "non_empty s = (if s = [] then None else Some s)"

definition text_or_empty :: "jstr option \<Rightarrow> jstr" where
  "text_or_empty f = (case f of None \<Rightarrow> [] | Some s \<Rightarrow> s)"

definition payload_member :: "jstr \<Rightarrow> json \<Rightarrow> msg_payload \<Rightarrow> msg_payload option" where
  "payload_member k v p =
     (if is_field ''kind'' k then map_option (\<lambda>s. p\<lparr>kind := s\<rparr>) (into_string v (kind p))
      else if is_field ''content'' k
      then map_option (\<lambda>s. p\<lparr>pl_content := non_empty s\<rparr>) (into_string v (text_or_empty (pl_content p)))
      else if is_field ''fileId'' k
      then map_option (\<lambda>s. p\<lparr>pl_fileId := non_empty s\<rparr>) (into_string v (text_or_empty (pl_fileId p)))
      else if is_field ''meta'' k
      then map_option (\<lambda>m. p\<lparr>pl_meta := m\<rparr>) (into_pointer (into_struct meta_member) no_meta v (pl_meta p))
      else Some p)"

text \<open>Of the fields that only the hub writes, nothing is used but whether they can be read.\<close>

definition message_member :: "jstr \<Rightarrow> json \<Rightarrow> incoming \<Rightarrow> incoming option" where
  "message_member k v m =
     (if is_field ''type'' k then map_option (\<lambda>s. m\<lparr>in_type := s\<rparr>) (into_string v (in_type m))
      else if is_field ''from'' k then map_option (\<lambda>_. m) (into_pointer (into_struct device_member) no_device v None)
      else if is_field ''to'' k then map_option (\<lambda>l. m\<lparr>in_to := l\<rparr>) (into_slice into_string [] v)
      else if is_field ''recipients'' k then map_option (\<lambda>_. m) (into_slice (into_struct device_member) no_device v)
      else if is_field ''payload'' k
      then map_option (\<lambda>p. m\<lparr>in_payload := p\<rparr>) (into_struct payload_member v (in_payload m))
      else if is_field ''timestamp'' k then map_option (\<lambda>_. m) (into_int64 v 0)
      else Some m)"

definition no_message :: incoming where
  "no_message = \<lparr>in_type = [], in_to = [], in_payload = \<lparr>kind = [], pl_content = None, pl_fileId = None, pl_meta = None\<rparr>\<rparr>"

definition unmarshal :: "json \<Rightarrow> incoming option" where
  "unmarshal v = into_struct message_member v no_message"

definition MaxMessageSize :: nat where
  "MaxMessageSize = 512 * 1024"

text \<open>
  One message at \<open>ReadPump\<close>, up to \<open>addToHistory\<close>: one that is too long ends the connection, one that cannot be read is
  passed over.
\<close>

definition read_message :: "(jstr \<Rightarrow> jstr option) \<Rightarrow> nat \<Rightarrow> byte list \<Rightarrow> int \<Rightarrow> hub_room \<Rightarrow> hub_room" where
  "read_message parse c data unix s =
     (if MaxMessageSize < length data then hub_step parse (HLeave c) s
      else case Option.bind (json_parse data) unmarshal of
        None \<Rightarrow> s
      | Some inc \<Rightarrow> hub_step parse (HIncoming c inc unix) s)"

section \<open>A frame arrives\<close>

lemma go_text_well_formed: "units s \<Longrightarrow> to_well_formed s = go_text s"
proof (induction s rule: go_text.induct)
  case (3 c d s)
  have *: "to_well_formed (c # d # s) = (if is_high c \<and> is_low d then c # d # to_well_formed s
      else (if scalar c then c else 0xFFFD) # to_well_formed (d # s))"
  proof (cases "is_high c \<and> is_low d")
    case True
    let ?p = "0x10000 + (c - 0xD800) * 1024 + (d - 0xDC00)"
    obtain h l where hl: "c = 0xD800 + h" "d = 0xDC00 + l" "h < 1024" "l < 1024"
      using True by (auto simp: is_high_def is_low_def le_iff_add)
    then have p: "?p = 0x10000 + h * 1024 + l" and "scalar ?p" by (simp_all add: scalar_def)
    then have "to_scalar ?p = ?p" by simp
    moreover have "utf16_enc ?p = [c, d]" unfolding p using hl by (simp add: utf16_enc_def)
    ultimately show ?thesis using True by (simp add: to_well_formed_def usv_def utf16_def)
  next
    case False
    with 3 show ?thesis by (auto simp: to_well_formed_def usv_def utf16_def utf16_enc_def to_scalar_def)
  qed
  show ?case unfolding * using 3
    by (auto simp: is_high_def is_low_def high_surrogate_def low_surrogate_def scalar_def)
qed (auto simp: to_well_formed_def usv_def utf16_def utf16_enc_def to_scalar_def scalar_def high_surrogate_def low_surrogate_def)

text \<open>Texts of UTF-16 code units, and a size that is a 64-bit number.\<close>

definition meta_units :: "file_meta \<Rightarrow> bool" where
  "meta_units m \<longleftrightarrow> units (meta_name m) \<and> units (meta_mime m) \<and> - (2 ^ 63) \<le> meta_size m \<and> meta_size m < 2 ^ 63"

definition frame_units :: "sent_msg \<Rightarrow> bool" where
  "frame_units f \<longleftrightarrow> units (kind (sent_payload f)) \<and> pred_option units (pl_content (sent_payload f))
     \<and> pred_option units (pl_fileId (sent_payload f)) \<and> pred_option meta_units (pl_meta (sent_payload f))
     \<and> pred_option (list_all units) (sent_to f)"

lemma frame_json_units: "frame_units f \<Longrightarrow> json_units (frame_json f)"
  by (cases "pl_content (sent_payload f)"; cases "pl_fileId (sent_payload f)"; cases "pl_meta (sent_payload f)"; cases "sent_to f")
    (simp_all add: frame_units_def frame_json_def payload_json_def meta_json_def some_field_def units_lit meta_units_def
      list_all_iff)

text \<open>The fields have different names, so each member the page writes goes into its own.\<close>

definition field_names :: "string list" where
  "field_names = [''type'', ''from'', ''to'', ''recipients'', ''payload'', ''timestamp'', ''kind'', ''content'', ''fileId'', ''meta'',
     ''name'', ''size'', ''mime'']"

lemma folded_names: "distinct (map (\<lambda>s. map fold_char (lit s)) field_names)"
  by (simp add: field_names_def fold_char_def lower_char_def js_eval)

lemma is_field_lit: "a \<in> set field_names \<Longrightarrow> b \<in> set field_names \<Longrightarrow> is_field a (lit b) \<longleftrightarrow> a = b"
  using folded_names unfolding distinct_map inj_on_def is_field_def by metis

lemmas field_reads = is_field_lit field_names_def lit_sent some_field_def go_text_well_formed into_string_def into_int64_def
  non_empty_def go_opt_def

lemma meta_arrives: "meta_units m \<Longrightarrow> into_struct meta_member (json_sent (meta_json m)) no_meta = Some (go_meta m)"
  by (simp add: meta_units_def meta_json_def into_struct_def meta_member_def no_meta_def go_meta_def field_reads)

lemma payload_arrives:
  assumes "units (kind p)" and "pred_option units (pl_content p)" and "pred_option units (pl_fileId p)"
    and "pred_option meta_units (pl_meta p)"
  shows "into_struct payload_member (json_sent (payload_json p)) (in_payload no_message) =
    Some \<lparr>kind = go_text (kind p), pl_content = go_opt (pl_content p), pl_fileId = go_opt (pl_fileId p), pl_meta = map_option go_meta (pl_meta p)\<rparr>"
proof -
  have meta: "into_pointer (into_struct meta_member) no_meta (json_sent (meta_json m)) None = Some (Some (go_meta m))" if "meta_units m" for m
  proof -
    have "json_sent (meta_json m) \<noteq> JNull" by (simp add: meta_json_def)
    with meta_arrives [OF that] show ?thesis by (simp add: into_pointer_def)
  qed
  show ?thesis
    using assms meta
    by (cases "pl_content p"; cases "pl_fileId p"; cases "pl_meta p")
      (simp_all add: payload_json_def into_struct_def [of payload_member] payload_member_def no_message_def field_reads)
qed

lemma recipients_arrive: "list_all units l \<Longrightarrow> into_slice into_string [] (json_sent (JArray (map JString l))) = Some (map go_text l)"
  unfolding into_slice_def by (induction l) (simp_all add: into_string_def go_text_well_formed)

lemma message_filled:
  "no_message\<lparr>in_type := t, in_payload := p\<rparr> = \<lparr>in_type = t, in_to = [], in_payload = p\<rparr>"
  "no_message\<lparr>in_type := t, in_to := l, in_payload := p\<rparr> = \<lparr>in_type = t, in_to = l, in_payload = p\<rparr>"
  by (simp_all add: no_message_def)

lemma read_back:
  assumes "frame_units f"
  shows "Option.bind (json_parse (frame_octets f)) unmarshal = Some (read_frame f)"
proof -
  have parsed: "json_parse (frame_octets f) = Some (json_sent (frame_json f))"
    unfolding frame_octets_def using frame_json_units [OF assms] by (rule json_roundtrip)
  have payload: "into_struct payload_member (json_sent (payload_json (sent_payload f))) (in_payload no_message) = Some (in_payload (read_frame f))"
    using assms by (subst payload_arrives) (simp_all add: frame_units_def read_frame_def)
  show ?thesis
  proof (cases "sent_to f")
    case None
    with parsed payload show ?thesis
      by (simp add: frame_json_def unmarshal_def into_struct_def [of message_member] message_member_def message_filled field_reads read_frame_def)
  next
    case (Some l)
    with assms have "list_all units l" by (simp add: frame_units_def)
    with recipients_arrive [of l] parsed payload Some show ?thesis
      by (simp add: frame_json_def unmarshal_def into_struct_def [of message_member] message_member_def message_filled field_reads read_frame_def)
  qed
qed

text \<open>
  C8. A message of the page arrives at the hub as it was meant.  Whatever texts it has, with quotes, control characters,
  emoji or surrogates without a partner: the octets \<open>sendWS\<close> puts on the wire are one JSON value, and \<open>json.Unmarshal\<close> reads
  from them exactly the type, the recipients and the payload that were written, every string unchanged but for a
  surrogate without its partner, which becomes U+FFFD.
\<close>

theorem frame_arrives:
  assumes "frame_units f"
  shows "Option.bind (json_parse (frame_octets f)) unmarshal = Some (read_frame f)"
  using assms by (rule read_back)

text \<open>A text with a quote, a line end, a character beyond the first plane, and half of such a character.\<close>

definition demo_frame :: sent_msg where
  "demo_frame = \<lparr>sent_on = 0, sent_payload = \<lparr>kind = lit ''text'', pl_content = Some [34, 10, 0xD83D, 0xDE00, 0xD800],
     pl_fileId = None, pl_meta = None\<rparr>, sent_to = Some [lit ''b'']\<rparr>"

theorem frame_arrives_witness:
  "map_option (pl_content \<circ> in_payload) (Option.bind (json_parse (frame_octets demo_frame)) unmarshal)
     = Some (Some [34, 10, 0xD83D, 0xDE00, 0xFFFD])"
proof -
  have "frame_units demo_frame" by (simp add: frame_units_def demo_frame_def units_lit)
  from frame_arrives [OF this] show ?thesis
    by (simp add: read_frame_def demo_frame_def go_opt_def high_surrogate_def low_surrogate_def)
qed

section \<open>The length of a frame\<close>

lemma frame_length:
  assumes "pl_content (sent_payload f) = Some t"
  shows "length t < length (frame_octets f)"
proof -
  let ?p = "payload_json (sent_payload f)"
  have "length t \<le> length (utf8 (json_text (JString t)))" using json_quote_length by simp
  also have "\<dots> \<le> length (utf8 (json_text ?p))"
    unfolding payload_json_def by (rule member_length [of "lit ''content''"]) (simp add: some_field_def assms)
  also have "\<dots> < length (frame_octets f)"
    unfolding frame_octets_def frame_json_def json_text_octets
    by (simp add: some_field_def utf8_append json_quote_def split: option.split)
  finally show ?thesis .
qed

text \<open>A frame the hub takes.\<close>

definition frame_fits :: "sent_msg \<Rightarrow> bool" where
  "frame_fits f \<longleftrightarrow> frame_units f \<and> length (frame_octets f) \<le> MaxMessageSize"

end
