(* ===== verification/Conversation.thy ===== *)
theory Conversation
  imports Page_Sending Hub_Spec Frames
begin

text \<open>
  A text on its way from page to page: \<open>sendText\<close> of one page, the octets of the frame, the hub's \<open>ReadPump\<close>, \<open>SendMessage\<close> and
  \<open>deliver\<close>, and the other page's \<open>onmessage\<close>.
\<close>

section \<open>At the hub\<close>

lemma go_hi: "go_text [104, 105] = [104, 105]"
  by (simp add: high_surrogate_def low_surrogate_def)

lemma text_frame:
  "in_payload (read_frame \<lparr>sent_on = w, sent_payload = text_payload t, sent_to = l\<rparr>) =
     \<lparr>kind = lit ''text'', pl_content = go_opt (Some t), pl_fileId = None, pl_meta = None\<rparr>"
proof -
  have "well_formed (lit ''text'')" by (simp add: high_surrogate_def low_surrogate_def js_eval)
  then show ?thesis by (simp add: read_frame_def text_payload_def go_opt_def)
qed

text \<open>The steps of the hub for the octets of a frame of connection \<open>c\<close>: \<open>ReadPump\<close>, and \<open>deliver\<close> if there is something to deliver.\<close>

definition pass_on :: "(jstr \<Rightarrow> jstr option) \<Rightarrow> nat \<Rightarrow> byte list \<Rightarrow> int \<Rightarrow> nat list \<Rightarrow> hub_room \<Rightarrow> hub_room" where
  "pass_on parse c data unix order s =
     (let t = read_message parse c data unix s in
      if length (hr_flight t) = length (hr_flight s) then t else hub_step parse (HDeliver (length (hr_flight s)) order) t)"

text \<open>Each live connection of a device in \<open>P\<close> is given the message once more, the others nothing.\<close>

definition hands_over :: "chat_msg \<Rightarrow> (device \<Rightarrow> bool) \<Rightarrow> hub_room \<Rightarrow> hub_room \<Rightarrow> bool" where
  "hands_over m P s s' \<longleftrightarrow>
     (\<forall>x. given s' x = given s x
        + (case live_device s x of Some d \<Rightarrow> if P d then {#m#} else {#} | None \<Rightarrow> {#}))"

lemma hands_over_cong: "hands_over m P s s' \<Longrightarrow> (\<And>d. P d = Q d) \<Longrightarrow> hands_over m Q s s'"
  by (simp add: hands_over_def split: option.split)

lemma pass_on_given:
  assumes "hr_clients s c = Some cl" and "accept_message parse unix cl (read_frame f) s = Some m" and "visits_all order s"
    and "frame_fits f"
  shows "hands_over m (\<lambda>d. visibleTo m (dev_id d)) s (pass_on parse c (frame_octets f) unix order s)"
proof -
  let ?s = "(addToHistory unix m s)\<lparr>hr_flight := hr_flight s\<rparr>"
  have "read_message parse c (frame_octets f) unix s = hub_step parse (HIncoming c (read_frame f) unix) s"
    using assms(4) read_back by (simp add: read_message_def frame_fits_def)
  then have step: "pass_on parse c (frame_octets f) unix order s
      = deliver_all order (Message m) (\<lambda>d. visibleTo m (dev_id d)) ?s"
    using assms(1,2) by (simp add: pass_on_def drop_nth_def Let_def addToHistory_def)
  have same: "hr_clients ?s = hr_clients s" "hr_slow ?s = hr_slow s" by (simp_all add: addToHistory_def)
  have visits: "visits_all order ?s" using assms(3) by (simp add: visits_all_def same)
  have "given ?s x = given s x" "live_device ?s x = live_device s x" for x
    by (simp_all only: given_def live_device_def same)
  then show ?thesis unfolding step hands_over_def by (simp add: given_deliver [OF visits] split: option.split)
qed

text \<open>
  The device a recipient of a frame stands for at the hub: none, when the id is not one \<open>ParseDeviceID\<close> accepts or is that of the
  sending device.  A text to nobody but such a recipient is dropped.
\<close>

definition hub_recipient :: "(jstr \<Rightarrow> jstr option) \<Rightarrow> device \<Rightarrow> jstr \<Rightarrow> jstr option" where
  "hub_recipient parse own i =
     (case parse (go_text i) of None \<Rightarrow> None | Some j \<Rightarrow> if j = dev_id own then None else Some j)"

lemma one_recipient:
  "sanitizeRecipients parse (dev_id own) [go_text i] = map_option (\<lambda>j. [j]) (hub_recipient parse own i)"
  by (simp add: sanitizeRecipients_def hub_recipient_def MaxRecipients_def split: option.split)

text \<open>What the hub makes of a target: \<open>None\<close> drops the text, \<open>Some None\<close> is everyone.\<close>

definition reached :: "(jstr \<Rightarrow> jstr option) \<Rightarrow> device \<Rightarrow> target option \<Rightarrow> jstr option option" where
  "reached parse own t =
     (case t of None \<Rightarrow> Some None | Some u \<Rightarrow> map_option Some (hub_recipient parse own (tg_id u)))"

definition audience :: "device \<Rightarrow> jstr option \<Rightarrow> device \<Rightarrow> bool" where
  "audience own r d = (case r of None \<Rightarrow> True | Some j \<Rightarrow> dev_id d \<in> {j, dev_id own})"

lemma accept_text:
  assumes "kind (in_payload inc) = lit ''text''" and "in_type inc = lit ''message''"
    and "in_to inc = (case t of None \<Rightarrow> [] | Some u \<Rightarrow> [go_text (tg_id u)])"
  shows "case reached parse (cl_device cl) t of
      None \<Rightarrow> accept_message parse unix cl inc s = None
    | Some r \<Rightarrow> \<exists>m. accept_message parse unix cl inc s = Some m \<and> msg_from m = Some (cl_device cl)
        \<and> msg_payload m = in_payload inc \<and> msg_to m = (case r of None \<Rightarrow> [] | Some j \<Rightarrow> [j])"
proof (cases t)
  case None
  have "lit ''text'' \<noteq> []" by (simp add: js_eval)
  with None assms show ?thesis
    by (simp add: reached_def accept_message_def sanitizeRecipients_def chat_message_def)
next
  case (Some u)
  have "lit ''text'' \<noteq> []" by (simp add: js_eval)
  with Some assms show ?thesis
    by (cases "hub_recipient parse (cl_device cl) (tg_id u)")
      (simp_all add: reached_def accept_message_def one_recipient chat_message_def)
qed

lemma sent_text_passes:
  assumes "outbox (sendText p) = outbox p @ [f]" and "hr_clients s c = Some cl" and "visits_all order s"
    and "frame_fits f"
  shows "case reached parse (cl_device cl) (sendTarget (page_room p)) of
      None \<Rightarrow> pass_on parse c (frame_octets f) unix order s = s
    | Some r \<Rightarrow> \<exists>m. msg_from m = Some (cl_device cl) \<and> pl_content (msg_payload m) = Some (go_text (trim (messageInput p)))
        \<and> hands_over m (audience (cl_device cl) r) s (pass_on parse c (frame_octets f) unix order s)"
proof -
  obtain w where f: "f = \<lparr>sent_on = w, sent_payload = text_payload (trim (messageInput p)), sent_to = currentRecipients (page_room p)\<rparr>"
    and nonempty: "trim (messageInput p) \<noteq> []"
    using sendText_sent [OF assms(1)] by (cases f) auto
  let ?t = "sendTarget (page_room p)"
  have to: "in_to (read_frame f) = (case ?t of None \<Rightarrow> [] | Some u \<Rightarrow> [go_text (tg_id u)])"
    by (simp add: read_frame_def f currentRecipients_def split: option.split)
  have pl: "in_payload (read_frame f) = \<lparr>kind = lit ''text'', pl_content = Some (go_text (trim (messageInput p))), pl_fileId = None, pl_meta = None\<rparr>"
    using nonempty by (simp only: f text_frame go_opt_def option.case if_False)
  have "in_type (read_frame f) = lit ''message''" by (simp add: read_frame_def)
  from accept_text [OF _ this to, where parse = parse and cl = cl and unix = unix and s = s] pl
  have acc: "case reached parse (cl_device cl) ?t of
      None \<Rightarrow> accept_message parse unix cl (read_frame f) s = None
    | Some r \<Rightarrow> \<exists>m. accept_message parse unix cl (read_frame f) s = Some m \<and> msg_from m = Some (cl_device cl)
        \<and> msg_payload m = in_payload (read_frame f) \<and> msg_to m = (case r of None \<Rightarrow> [] | Some j \<Rightarrow> [j])" by simp
  show ?thesis
  proof (cases "reached parse (cl_device cl) ?t")
    case None
    have "read_message parse c (frame_octets f) unix s = hub_step parse (HIncoming c (read_frame f) unix) s"
      using assms(4) read_back by (simp add: read_message_def frame_fits_def)
    with None acc assms(2) show ?thesis by (simp add: pass_on_def)
  next
    case (Some r)
    with acc obtain m where
      m: "accept_message parse unix cl (read_frame f) s = Some m" "msg_from m = Some (cl_device cl)"
        "msg_payload m = in_payload (read_frame f)" "msg_to m = (case r of None \<Rightarrow> [] | Some j \<Rightarrow> [j])"
      by auto
    have "visibleTo m (dev_id d) = audience (cl_device cl) r d" for d
      using m(2,4) by (auto simp: visibleTo_def audience_def split: option.splits)
    with hands_over_cong [OF pass_on_given [OF assms(2) m(1) assms(3,4)]] m pl Some show ?thesis
      by (auto intro!: exI [of _ m])
  qed
qed

text \<open>A text of up to 80000 code units fits, whatever its characters are.\<close>

lemma text_fits:
  assumes "sent_payload f = text_payload t" and "units t" and "length t \<le> 80000"
    and "sent_to f = None \<or> (\<exists>i. sent_to f = Some [i] \<and> units i \<and> length i \<le> 1000)"
  shows "frame_fits f"
proof -
  let ?q = "\<lambda>s. length (utf8 (json_quote s))"
  have long: "?q t \<le> 480002" using json_quote_upper [of t] assms(3) by simp
  have lits: "?q (lit s) \<le> 6 * length s + 2" for s using json_quote_upper [of "lit s"] by (simp add: lit_def)
  have names: "?q (lit ''type'') \<le> 26" "?q (lit ''message'') \<le> 44" "?q (lit ''payload'') \<le> 44" "?q (lit ''kind'') \<le> 26"
    "?q (lit ''text'') \<le> 26" "?q (lit ''content'') \<le> 44" "?q (lit ''to'') \<le> 14"
    using lits [of "''type''"] lits [of "''message''"] lits [of "''payload''"] lits [of "''kind''"] lits [of "''text''"]
      lits [of "''content''"] lits [of "''to''"] by simp_all
  have one: "length (utf8_enc c) = 1" if "c < 0x80" for c using that by (simp add: utf8_enc_def)
  have "frame_units f"
    using assms(1,2,4) by (auto simp: frame_units_def text_payload_def units_lit)
  moreover have "length (frame_octets f) \<le> MaxMessageSize"
    using assms(4)
  proof (elim disjE exE conjE)
    assume "sent_to f = None"
    then show ?thesis using names long
      by (simp add: frame_octets_def frame_json_def payload_json_def some_field_def assms(1) text_payload_def utf8_append one MaxMessageSize_def)
  next
    fix i assume i: "sent_to f = Some [i]" "length i \<le> 1000"
    have "?q i \<le> 6002" using json_quote_upper [of i] i(2) by simp
    with i(1) show ?thesis using names long
      by (simp add: frame_octets_def frame_json_def payload_json_def some_field_def assms(1) text_payload_def utf8_append one MaxMessageSize_def)
  qed
  ultimately show ?thesis by (simp add: frame_fits_def)
qed

lemma sent_text_fits:
  assumes "outbox (sendText p) = outbox p @ [f]" and "units (trim (messageInput p))" and "length (trim (messageInput p)) \<le> 80000"
    and "case sendTarget (page_room p) of None \<Rightarrow> True | Some t \<Rightarrow> units (tg_id t) \<and> length (tg_id t) \<le> 1000"
  shows "frame_fits f"
proof -
  obtain w where f: "f = \<lparr>sent_on = w, sent_payload = text_payload (trim (messageInput p)), sent_to = currentRecipients (page_room p)\<rparr>"
    using sendText_sent [OF assms(1)] by (cases f) auto
  show ?thesis
    using assms(2-4) by (intro text_fits [of f "trim (messageInput p)"]) (auto simp: f currentRecipients_def split: option.splits)
qed

section \<open>Texts that are too long\<close>

text \<open>
  A text of \<open>MaxMessageSize\<close> code units or more is lost.  The page empties its input as if the text was sent, but the hub ends
  the connection instead of reading it, and gives it to nobody.
\<close>

lemma long_text_lost:
  assumes "outbox (sendText p) = outbox p @ [f]" and "MaxMessageSize \<le> length (trim (messageInput p))"
  shows "messageInput (sendText p) = [] \<and> pass_on parse c (frame_octets f) unix order s = unregister c s
    \<and> given (pass_on parse c (frame_octets f) unix order s) x \<subseteq># given s x"
proof -
  obtain w where f: "f = \<lparr>sent_on = w, sent_payload = text_payload (trim (messageInput p)), sent_to = currentRecipients (page_room p)\<rparr>"
    using sendText_sent [OF assms(1)] by (cases f) auto
  have "pl_content (sent_payload f) = Some (trim (messageInput p))" by (simp add: f text_payload_def)
  from frame_length [OF this] assms(2) have "MaxMessageSize < length (frame_octets f)" by simp
  then have pass: "pass_on parse c (frame_octets f) unix order s = unregister c s"
    by (auto simp: pass_on_def read_message_def Let_def unregister_def put_client_def split: option.split)
  moreover have "given (unregister c s) x \<subseteq># given s x"
    by (auto simp: given_def unregister_def put_client_def split: option.split)
  moreover have "messageInput (sendText p) = []"
    using assms(1) by (auto simp: sendText_def sendWS_def Let_def split: if_splits option.splits prod.splits)
  ultimately show ?thesis by simp
qed

section \<open>Properties\<close>

text \<open>A frame over the limit ends the connection.\<close>

lemma too_long_lost:
  assumes "MaxMessageSize < length data"
  shows "pass_on parse c data unix order s = unregister c s"
  using assms by (auto simp: pass_on_def read_message_def Let_def unregister_def put_client_def split: option.split)

lemma unregister_given: "given (unregister c s) x \<subseteq># given s x"
  by (auto simp: given_def unregister_def put_client_def split: option.split)

text \<open>
  C7. A typed text reaches whom the page shows, and nobody else.  From every reachable
  state of the page in the chat, when the hub records a text and then delivers it with no other step of its own in between: with the private colours on, the title is the name of a
  target, and the hub gives the text once to each connection of that device and of the own one and to no other; without them the
  title is the group, and every connection present is given it once.  It arrives as typed, trimmed,
  and under the device the hub knows the sending connection by.  Two cases are lost, and then nobody is given anything: a target whose id the hub
  does not accept or that is the sending device, and a frame of more than \<open>MaxMessageSize\<close> octets, which ends the connection.
  (A text has UTF-16 code units: \<open>frame_units\<close>.)
\<close>

theorem text_reaches_shown:
  assumes "reachable p" and "inChat p" and "outbox (sendText p) = outbox p @ [f]" and "frame_units f"
    and "hr_clients s c = Some cl" and "visits_all order s" and "s' = pass_on parse c (frame_octets f) unix order s"
  shows "if MaxMessageSize < length (frame_octets f) then s' = unregister c s \<and> (\<forall>x. given s' x \<subseteq># given s x)
    else if bar_dm (bar (page_room p))
    then \<exists>i. sendTarget (page_room p) = Some \<lparr>tg_id = i, tg_name = bar_title (bar (page_room p))\<rparr>
      \<and> (case hub_recipient parse (cl_device cl) i of
           None \<Rightarrow> s' = s
         | Some j \<Rightarrow> \<exists>m. msg_from m = Some (cl_device cl) \<and> pl_content (msg_payload m) = Some (go_text (trim (messageInput p)))
             \<and> hands_over m (\<lambda>d. dev_id d \<in> {j, dev_id (cl_device cl)}) s s')
    else bar_title (bar (page_room p)) = [0x7FA4, 0x804A]
      \<and> (\<exists>m. msg_from m = Some (cl_device cl) \<and> pl_content (msg_payload m) = Some (go_text (trim (messageInput p)))
           \<and> hands_over m (\<lambda>d. True) s s')"
proof (cases "MaxMessageSize < length (frame_octets f)")
  case True
  with too_long_lost [OF True] unregister_given assms(7) show ?thesis by simp
next
  case False
  with assms(4) have fit: "frame_fits f" by (simp add: frame_fits_def)
  have ok: "bar_ok (page_room p)" using shown.always [OF assms(1)] assms(2) by (simp add: shown_ok_def)
  note passes = sent_text_passes [OF assms(3,5,6) fit, of parse unix, folded assms(7)]
  show ?thesis
  proof (cases "sendTarget (page_room p)")
    case None
    with passes obtain m where m: "msg_from m = Some (cl_device cl)" "pl_content (msg_payload m) = Some (go_text (trim (messageInput p)))"
      and over: "hands_over m (audience (cl_device cl) None) s s'" by (auto simp: reached_def)
    from hands_over_cong [OF over, of "\<lambda>d. True"] None False ok m show ?thesis
      by (auto simp: bar_ok_def audience_def)
  next
    case (Some t)
    with ok have t: "bar_dm (bar (page_room p))" "t = \<lparr>tg_id = tg_id t, tg_name = bar_title (bar (page_room p))\<rparr>"
      by (simp_all add: bar_ok_def)
    have "case hub_recipient parse (cl_device cl) (tg_id t) of
           None \<Rightarrow> s' = s
         | Some j \<Rightarrow> \<exists>m. msg_from m = Some (cl_device cl) \<and> pl_content (msg_payload m) = Some (go_text (trim (messageInput p)))
             \<and> hands_over m (\<lambda>d. dev_id d \<in> {j, dev_id (cl_device cl)}) s s'"
    proof (cases "hub_recipient parse (cl_device cl) (tg_id t)")
      case (Some j)
      with passes \<open>sendTarget (page_room p) = Some t\<close> obtain m where
        m: "msg_from m = Some (cl_device cl)" "pl_content (msg_payload m) = Some (go_text (trim (messageInput p)))"
        and over: "hands_over m (audience (cl_device cl) (Some j)) s s'" by (auto simp: reached_def)
      from hands_over_cong [OF over, of "\<lambda>d. dev_id d \<in> {j, dev_id (cl_device cl)}"] m Some show ?thesis
        by (auto simp: audience_def)
    qed (use passes Some in \<open>simp add: reached_def\<close>)
    with False t Some show ?thesis by auto
  qed
qed

text \<open>On the two devices of \<open>whisper_room\<close>, from the first.\<close>

lemma whisper_room_client: "\<exists>cl. hr_clients whisper_room 0 = Some cl \<and> cl_device cl = dev_a"
  and whisper_room_visits: "visits_all [0, 1] whisper_room"
  by (simp_all add: whisper_room_def whisper_events_def hub_eval)

theorem text_reaches_shown_witness:
  "\<exists>f m. pl_content (msg_payload m) = Some [104, 105]
    \<and> hands_over m (\<lambda>d. True) whisper_room (pass_on Some 0 (frame_octets f) 100 [0, 1] whisper_room)"
proof -
  let ?p = "opened_page\<lparr>messageInput := [104, 105]\<rparr>"
  obtain f where f: "outbox (sendText ?p) = outbox ?p @ [f]"
    using typed_page_sends [of "[104, 105]"] trim_hi by auto
  obtain cl where cl: "hr_clients whisper_room 0 = Some cl" using whisper_room_client by blast
  have "frame_fits f" using typed_page(2) trim_hi by (intro sent_text_fits [OF f]) simp_all
  then have fit: "frame_units f" "\<not> MaxMessageSize < length (frame_octets f)" by (simp_all add: frame_fits_def)
  from text_reaches_shown [OF typed_page(1) _ f fit(1) cl whisper_room_visits HOL.refl, of Some 100] fit(2) typed_page(3) opened_conn(1) trim_hi go_hi
  show ?thesis by (auto simp del: go_text.simps)
qed

text \<open>
  C22. An answer goes back to where the message came from.  When a message arrives from another device, under an id in the form
  \<open>ParseDeviceID\<close> gives it, the user clicks on its sender, types and sends a text whose frame does not exceed \<open>MaxMessageSize\<close>, then the
  title shows the name the message was shown under, and the hub, recording and delivering the answer with no step in between, gives
  it to the connections of the device that sent the message and of the own device, and to no
  other, whatever characters the sender's name contains.
\<close>

theorem reply_returns:
  assumes "reachable q" and "inChat q" and "enabled (SockMsg w (Message m)) q" and "msg_from m = Some d"
    and "q1 = handle_event b mobile (SockMsg w (Message m)) q"
    and "q2 = handle_event b mobile (ClickReply (replyAttrs m @ [62])) q1"
    and "q3 = handle_event b mobile (TypeText t) q2"
    and "outbox (sendText q3) = outbox q3 @ [f]"
    and "hr_clients s c = Some cl" and "visits_all order s"
    and "well_formed (dev_id d)" and "parse (dev_id d) = Some (dev_id d)" and "dev_id d \<noteq> dev_id (cl_device cl)"
    and "frame_fits f"
  shows "last (chatLog (page_chat q1)) = m \<and> bar_title (bar (page_room q3)) = from_name m
    \<and> (\<exists>r. msg_from r = Some (cl_device cl) \<and> pl_content (msg_payload r) = Some (go_text (trim t))
        \<and> hands_over r (\<lambda>x. dev_id x \<in> {dev_id d, dev_id (cl_device cl)}) s (pass_on parse c (frame_octets f) unix order s))"
proof -
  have target: "sendTarget (page_room q3) = Some \<lparr>tg_id = dev_id d, tg_name = from_name m\<rparr>"
    using reply_target [OF assms(4)] assms(6,7) by (simp add: on_room_def)
  have r1: "reachable q1" unfolding assms(5) by (rule reachable_step [OF assms(1,3)])
  have r2: "reachable q2" unfolding assms(6) by (rule reachable_step [OF r1]) simp
  have "reachable q3" unfolding assms(7) by (rule reachable_step [OF r2]) simp
  moreover have "inChat q3" using assms(2,5-7) by (simp add: on_room_def on_message_def Let_def)
  ultimately have "bar_ok (page_room q3)" using shown.always [of q3] by (simp add: shown_ok_def)
  with target have title: "bar_title (bar (page_room q3)) = from_name m" by (simp add: bar_ok_def)
  have shown: "last (chatLog (page_chat q1)) = m" using assms(5) by (simp add: on_message_def Let_def)
  have input: "messageInput q3 = t" using assms(7) by simp
  have "reached parse (cl_device cl) (sendTarget (page_room q3)) = Some (Some (dev_id d))"
    using target assms(11-13) by (simp add: reached_def hub_recipient_def)
  with sent_text_passes [OF assms(8-10) assms(14), of parse unix] obtain r where
    r: "msg_from r = Some (cl_device cl)" "pl_content (msg_payload r) = Some (go_text (trim t))"
      "hands_over r (audience (cl_device cl) (Some (dev_id d))) s (pass_on parse c (frame_octets f) unix order s)"
    unfolding input by auto
  from hands_over_cong [OF r(3), of "\<lambda>x. dev_id x \<in> {dev_id d, dev_id (cl_device cl)}"] r(1,2) title shown show ?thesis
    by (auto simp: audience_def)
qed

definition from_b :: chat_msg where
  "from_b = \<lparr>msg_from = Some dev_b, msg_to = [], msg_recipients = [],
     msg_payload = text_payload (lit ''hello''), msg_timestamp = None\<rparr>"

theorem reply_returns_witness:
  "\<exists>f r. pl_content (msg_payload r) = Some [104, 105]
    \<and> hands_over r (\<lambda>x. dev_id x \<in> {lit ''b'', lit ''a''}) whisper_room
        (pass_on Some 0 (frame_octets f) 100 [0, 1] whisper_room)"
proof -
  let ?q1 = "handle_event plain_browser False (SockMsg 0 (Message from_b)) opened_page"
  let ?q2 = "handle_event plain_browser False (ClickReply (replyAttrs from_b @ [62])) ?q1"
  let ?q3 = "handle_event plain_browser False (TypeText [104, 105]) ?q2"
  have en: "enabled (SockMsg 0 (Message from_b)) opened_page" using opened_conn(4) by (simp add: sock_in_def)
  have sender: "msg_from from_b = Some dev_b" by (simp add: from_b_def)
  have conn: "isOpen ?q3" "ws ?q3 = Some 0"
    using opened_conn(3,4) by (simp_all add: isOpen_def on_room_def on_message_def Let_def)
  with trim_hi obtain f where f: "outbox (sendText ?q3) = outbox ?q3 @ [f]"
    using sendText_open [of ?q3 0] by simp
  obtain cl where cl: "hr_clients whisper_room 0 = Some cl" "cl_device cl = dev_a" using whisper_room_client by blast
  have ids: "well_formed (dev_id dev_b)" "dev_id dev_b \<noteq> dev_id (cl_device cl)"
    by (simp_all add: cl dev_a_def dev_b_def high_surrogate_def low_surrogate_def js_eval)
  have "sendTarget (page_room ?q3) = Some \<lparr>tg_id = dev_id dev_b, tg_name = from_name from_b\<rparr>"
    using reply_target [OF sender] by (simp add: on_room_def)
  then have fit: "frame_fits f"
    using trim_hi by (intro sent_text_fits [OF f]) (simp_all add: dev_b_def units_lit js_eval)
  from reply_returns [OF reachable_opened opened_conn(1) en sender HOL.refl HOL.refl HOL.refl f cl(1) whisper_room_visits ids(1) _ ids(2) fit,
      of Some 100]
  show ?thesis using trim_hi go_hi cl(2) by (fastforce simp: dev_a_def dev_b_def simp del: go_text.simps)
qed

end
