(* ===== verification/Clicks.thy ===== *)
theory Clicks
  imports Sending
begin

text \<open>
  Clicks and keys in the chat (web/static/app.js): the listener on the message area, the image viewer, the feedback
  of copy buttons (\<open>flashCopyBtn\<close>), the keys of the inputs, and the dialog with the join addresses.

  \<open>e.target.closest(...)\<close> finds an element around the place that was clicked; what the handler then reads are
  the attributes of its start tag, as the browser decodes them.
\<close>

section \<open>Attributes\<close>

text \<open>The text behind the first occurrence of \<open>tag\<close>, where its attributes begin.\<close>

fun behind :: "jstr \<Rightarrow> jstr \<Rightarrow> jstr" where
  "behind tag [] = []"
| "behind tag (c # s) = (if startsWith (c # s) tag then drop (length tag) (c # s) else behind tag s)"

definition attr :: "jstr \<Rightarrow> jstr \<Rightarrow> jstr option" where
  "attr attrs name = map_of (tag_attrs attrs) name"

section \<open>Feedback of a copy button\<close>

record copy_btn =
  cb_label :: jstr
  cb_disabled :: bool

text \<open>\<open>flashCopyBtn\<close>: the label it remembers and the button, and what its timer does after 1.6 seconds.\<close>

definition flash_begin :: "bool \<Rightarrow> jstr \<Rightarrow> jstr \<Rightarrow> copy_btn \<Rightarrow> jstr \<times> copy_btn" where
  "flash_begin ok okLabel failLabel btn =
     (cb_label btn, btn\<lparr>cb_label := (if ok then okLabel else failLabel), cb_disabled := True\<rparr>)"

definition flash_end :: "jstr \<Rightarrow> copy_btn \<Rightarrow> copy_btn" where
  "flash_end prev btn = btn\<lparr>cb_label := prev, cb_disabled := False\<rparr>"

lemma flash_restores:
  assumes "flash_begin ok okL failL btn = (prev, b1)" and "\<not> cb_disabled btn"
  shows "flash_end prev b1 = btn"
  using assms by (cases btn) (auto simp: flash_begin_def flash_end_def)

text \<open>
  The button is disabled only once the copy is done.  When it is clicked again before (copying an image takes
  as long as fetching it), two flashes overlap: the second remembers the first one's label, and its timer,
  the last, leaves it there.
\<close>

lemma flash_stuck:
  assumes "flash_begin True okL failL btn = (prev1, b1)" and "flash_begin True okL failL b1 = (prev2, b2)"
  shows "cb_label (flash_end prev2 (flash_end prev1 b2)) = okL"
  using assms by (auto simp: flash_begin_def flash_end_def)

text \<open>The button beside the address in the side panel changes its title instead.\<close>

definition side_copy :: "abilities \<Rightarrow> jstr \<Rightarrow> jstr \<times> action list" where
  "side_copy a sideUrl =
     (let (ok, acts) = copyToClipboard a sideUrl in (if ok then [0x5DF2, 0x590D, 0x5236] else [0x590D, 0x5236, 0x5931, 0x8D25], acts))"

section \<open>The image viewer\<close>

record viewer =
  vw_open :: bool
  vw_src :: "jstr option"
  vw_fileId :: jstr
  vw_fileName :: jstr

definition initial_viewer :: viewer where
  "initial_viewer = \<lparr>vw_open = False, vw_src = None, vw_fileId = [], vw_fileName = []\<rparr>"

text \<open>\<open>openImageViewer(img)\<close>; the address is kept as it stands in the attribute.\<close>

definition openImageViewer :: "jstr \<Rightarrow> viewer \<Rightarrow> viewer" where
  "openImageViewer img v =
     \<lparr>vw_open = True, vw_src = Some (opt_or (attr img (lit ''src'')) []),
      vw_fileId = opt_or (attr img (lit ''data-file-id'')) [],
      vw_fileName = opt_or (attr img (lit ''data-file-name'')) (lit ''image'')\<rparr>"

definition viewer_download :: "abilities \<Rightarrow> viewer \<Rightarrow> action list" where
  "viewer_download a v = downloadFile a (Some (vw_fileId v)) (vw_fileName v) True"

text \<open>The dialog is closed by its button, by Escape and by a click beside the image; \<open>close\<close> drops the image.\<close>

definition viewer_close :: "viewer \<Rightarrow> viewer" where
  "viewer_close v = v\<lparr>vw_open := False, vw_src := None\<rparr>"

definition viewer_click :: "bool \<Rightarrow> viewer \<Rightarrow> viewer" where
  "viewer_click on_backdrop v = (if on_backdrop then viewer_close v else v)"

section \<open>The message area\<close>

text \<open>What \<open>closest\<close> finds around the click: the attributes of each element, and whether the link is busy.\<close>

record click_path =
  cp_copy :: "jstr option"
  cp_reply :: "jstr option"
  cp_image :: "jstr option"
  cp_link :: "jstr option"
  cp_busy :: bool

datatype click_effect =
    Copies "action list"
  | Replies
  | Views
  | Downloads "action list"
  | FollowsLink
  | NoEffect

text \<open>
  The listener.  \<open>FollowsLink\<close> leaves the click to the browser, which saves the link's target; a click that
  hits nothing has no effect of its own.
\<close>

definition messages_click ::
    "abilities \<Rightarrow> jstr \<Rightarrow> jstr \<Rightarrow> bool \<Rightarrow> click_path \<Rightarrow> chat \<Rightarrow> room \<Rightarrow> viewer \<Rightarrow> click_effect \<times> room \<times> viewer" where
  "messages_click a origin platform mobile cp c r v =
     (case cp_copy cp of
        Some btn \<Rightarrow> (Copies (copyOneMessage a origin (read_digits (opt_or (attr btn (lit ''data-msg-idx'')) [])) c), r, v)
      | None \<Rightarrow>
     (case cp_reply cp of
        Some reply \<Rightarrow> (Replies, click_reply mobile reply r, v)
      | None \<Rightarrow>
     (case cp_image cp of
        Some img \<Rightarrow> (Views, r, openImageViewer img v)
      | None \<Rightarrow>
     (case cp_link cp of
        None \<Rightarrow> (NoEffect, r, v)
      | Some link \<Rightarrow>
          if cp_busy cp then (FollowsLink, r, v)
          else if \<not> needsBlobDownload platform then (FollowsLink, r, v)
          else (Downloads (downloadFile a (attr link (lit ''data-file-id''))
                 (opt_or (attr link (lit ''data-file-name'')) []) True), r, v)))))"

section \<open>Keys\<close>

text \<open>The key of the message input: whether the browser's own action is prevented, and the page.\<close>

definition message_key :: "jstr \<Rightarrow> bool \<Rightarrow> page \<Rightarrow> bool \<times> page" where
  "message_key key shift p =
     (if key = lit ''Enter'' \<and> \<not> shift then (True, sendText p) else (False, p))"

datatype join_key = ClicksJoin | FocusesPin | NoKey

definition pin_key :: "jstr \<Rightarrow> join_key" where
  "pin_key key = (if key = lit ''Enter'' then ClicksJoin else NoKey)"

definition name_key :: "jstr \<Rightarrow> page \<Rightarrow> join_key" where
  "name_key key p =
     (if key \<noteq> lit ''Enter'' then NoKey else if \<not> pin_row p then ClicksJoin else FocusesPin)"

section \<open>The dialog with the addresses\<close>

record info_dialog =
  id_open :: bool
  id_entries :: "jstr list"
  id_qr :: jstr
  id_url :: jstr

text \<open>\<open>loadConnectionInfo\<close>: the fetch throws, answers with an error status, or gives the information.\<close>

datatype info_fetch = FetchThrows | Answered nat conn_info

definition loadConnectionInfo :: "info_fetch \<Rightarrow> conn_info option option" where
  "loadConnectionInfo f =
     (case f of
        FetchThrows \<Rightarrow> None
      | Answered status i \<Rightarrow> Some (if ok_status status then Some i else None))"

text \<open>
  \<open>showInfoDialog\<close>: \<open>info\<close> is the answer, \<open>Some None\<close> when its status is an error, \<open>None\<close> when the fetch throws,
  which nobody catches.  An exception of \<open>encodeURIComponent\<close> leaves the new entries but no dialog.
\<close>

definition showInfoDialog ::
    "nat \<Rightarrow> page_location \<Rightarrow> conn_info option option \<Rightarrow> info_dialog \<Rightarrow> page \<Rightarrow> info_dialog \<times> page" where
  "showInfoDialog now_ms loc info dlg p =
     (case info of
        None \<Rightarrow> (dlg, p)
      | Some None \<Rightarrow> (dlg, alert [0x65E0, 0x6CD5, 0x83B7, 0x53D6, 0x8FDE, 0x63A5, 0x4FE1, 0x606F] p)
      | Some (Some i) \<Rightarrow>
          let url = pickJoinURL loc i;
              d1 = dlg\<lparr>id_entries := infoDialogEntries i\<rparr>
          in if url = [] then (d1\<lparr>id_open := True\<rparr>, p)
             else (case qr_request now_ms url of
                     None \<Rightarrow> (d1, p)
                   | Some src \<Rightarrow> (d1\<lparr>id_qr := src, id_url := url, id_open := True\<rparr>, p)))"

section \<open>Scroll bars\<close>

text \<open>
  \<open>initAutoHideScrollbars\<close>: an element shows its scroll bar while it is scrolled.  The timer is the time at which it fires.
\<close>

record autohide =
  ah_scrolling :: bool
  ah_timer :: "nat option"

definition hideDelay :: nat where
  "hideDelay = 900"

definition scroll_show :: "nat \<Rightarrow> autohide" where
  "scroll_show t = \<lparr>ah_scrolling = True, ah_timer = Some (t + hideDelay)\<rparr>"

definition scroll_timeout :: "nat \<Rightarrow> autohide \<Rightarrow> autohide" where
  "scroll_timeout t s =
     (if ah_timer s = Some t then \<lparr>ah_scrolling = False, ah_timer = None\<rparr> else s)"

section \<open>Reading the attributes of a message\<close>

lemma tag_attrs_blank: "\<forall>c \<in> set bl. c = 32 \<or> c = 10 \<Longrightarrow> tag_attrs (bl @ s) = tag_attrs s"
proof -
  assume "\<forall>c \<in> set bl. c = 32 \<or> c = 10"
  then have "dropWhile (\<lambda>c. c = 32 \<or> c = 10) (bl @ s) = dropWhile (\<lambda>c. c = 32 \<or> c = 10) s"
    by (subst dropWhile_append2) auto
  then show ?thesis by (subst (1 2) tag_attrs.simps) (simp only:)
qed

lemma tag_attrs_nl [simp]: "tag_attrs (nl k @ s) = tag_attrs s"
  by (rule tag_attrs_blank) (auto simp: nl_def)

text \<open>One attribute, with its name as a literal.\<close>

definition plain_name :: "jstr \<Rightarrow> bool" where
  "plain_name n \<longleftrightarrow> n \<noteq> [] \<and> (\<forall>c \<in> set n. c \<noteq> 32 \<and> c \<noteq> 10 \<and> c \<noteq> 61 \<and> c \<noteq> 62)"

lemma tag_attrs_next:
  assumes "plain_name n" and "34 \<notin> set v"
  shows "tag_attrs (n @ 61 # 34 # v @ 34 # t) = (n, html_decode v) # tag_attrs t"
  using tag_attrs_one [of n v t] tag_attrs_blank [of "[32]" "n @ 61 # 34 # v @ 34 # t"] assms
  by (simp add: plain_name_def)

lemma tag_attrs_space: "tag_attrs (32 # s) = tag_attrs s"
  using tag_attrs_blank [of "[32]" s] by simp

lemma tag_attrs_escaped:
  assumes "plain_name n"
  shows "tag_attrs (n @ 61 # 34 # escapeAttr v @ 34 # t) = (n, v) # tag_attrs t"
  using tag_attrs_next [OF assms escapeAttr_special(2), of v t] by (simp add: escapeAttr_decode)

lemma plain_names:
  "plain_name (lit ''class'')" "plain_name (lit ''src'')" "plain_name (lit ''alt'')" "plain_name (lit ''loading'')"
  "plain_name (lit ''data-file-id'')" "plain_name (lit ''data-file-name'')" "plain_name (lit ''href'')"
  "plain_name (lit ''download'')" "plain_name (lit ''type'')" "plain_name (lit ''data-msg-idx'')"
  by (simp_all add: plain_name_def js_eval)

definition file_id_text :: "msg_payload \<Rightarrow> jstr" where
  "file_id_text p = (case pl_fileId p of Some i \<Rightarrow> i | None \<Rightarrow> lit ''undefined'')"

lemma image_attrs:
  "\<exists>c al lo t. tag_attrs (behind (lit ''<img'') (imageHTML url p)) =
     (lit ''class'', c) # (lit ''src'', url) # (lit ''alt'', al) # (lit ''loading'', lo) #
     (lit ''data-file-id'', file_id_text p) # (lit ''data-file-name'', meta_name_or p (lit ''image'')) # t"
proof -
  let ?t = "32 # lit ''/>''"
  let ?rest = "lit ''data-file-id'' @ 61 # 34 # escapeAttr (file_id_text p) @ 34 # 32 #
    lit ''data-file-name'' @ 61 # 34 # escapeAttr (meta_name_or p (lit ''image'')) @ 34 # ?t"
  have "behind (lit ''<img'') (imageHTML url p) = 32 # lit ''class'' @ 61 # 34 # lit ''msg-image'' @ 34 # 32 #
      lit ''src'' @ 61 # 34 # escapeAttr url @ 34 # 32 # lit ''alt'' @ 61 # 34 # [0x56FE, 0x7247] @ 34 # 32 #
      lit ''loading'' @ 61 # 34 # lit ''lazy'' @ 34 # nl 11 @ ?rest"
    by (simp add: imageHTML_def startsWith_def file_id_text_def js_eval)
  moreover have "34 \<notin> set (lit ''msg-image'')" "34 \<notin> set (lit ''lazy'')" "34 \<notin> set ([0x56FE, 0x7247] :: jstr)"
    by (simp_all add: js_eval)
  ultimately have "tag_attrs (behind (lit ''<img'') (imageHTML url p)) =
      (lit ''class'', html_decode (lit ''msg-image'')) # (lit ''src'', url) # (lit ''alt'', html_decode [0x56FE, 0x7247]) #
      (lit ''loading'', html_decode (lit ''lazy'')) # (lit ''data-file-id'', file_id_text p) #
      (lit ''data-file-name'', meta_name_or p (lit ''image'')) # tag_attrs ?t"
    by (simp only: tag_attrs_space tag_attrs_nl plain_names tag_attrs_escaped tag_attrs_next not_False_eq_True)
  then show ?thesis by blast
qed

lemma link_attrs:
  "\<exists>c t. tag_attrs (behind (lit ''<a'') (fileHTML url p)) =
     (lit ''class'', c) # (lit ''href'', url) # (lit ''download'', meta_name_or p [0x6587, 0x4EF6]) #
     (lit ''data-file-id'', file_id_text p) # (lit ''data-file-name'', meta_name_or p [0x6587, 0x4EF6]) # t"
proof -
  let ?n = "meta_name_or p [0x6587, 0x4EF6]"
  have "\<exists>t. behind (lit ''<a'') (fileHTML url p) = 32 # lit ''class'' @ 61 # 34 # lit ''file-card file-download'' @ 34 # 32 #
      lit ''href'' @ 61 # 34 # escapeAttr url @ 34 # 32 # lit ''download'' @ 61 # 34 # escapeAttr ?n @ 34 # nl 11 @
      lit ''data-file-id'' @ 61 # 34 # escapeAttr (file_id_text p) @ 34 # 32 #
      lit ''data-file-name'' @ 61 # 34 # escapeAttr ?n @ 34 # 32 # t"
    by (simp add: fileHTML_def startsWith_def file_id_text_def Let_def js_eval)
  then obtain t where "behind (lit ''<a'') (fileHTML url p) = 32 # lit ''class'' @ 61 # 34 # lit ''file-card file-download'' @ 34 # 32 #
      lit ''href'' @ 61 # 34 # escapeAttr url @ 34 # 32 # lit ''download'' @ 61 # 34 # escapeAttr ?n @ 34 # nl 11 @
      lit ''data-file-id'' @ 61 # 34 # escapeAttr (file_id_text p) @ 34 # 32 #
      lit ''data-file-name'' @ 61 # 34 # escapeAttr ?n @ 34 # 32 # t" by blast
  moreover have "34 \<notin> set (lit ''file-card file-download'')" by (simp add: js_eval)
  ultimately have "tag_attrs (behind (lit ''<a'') (fileHTML url p)) =
      (lit ''class'', html_decode (lit ''file-card file-download'')) # (lit ''href'', url) # (lit ''download'', ?n) #
      (lit ''data-file-id'', file_id_text p) # (lit ''data-file-name'', ?n) # tag_attrs t"
    by (simp only: tag_attrs_space tag_attrs_nl plain_names tag_attrs_escaped tag_attrs_next not_False_eq_True)
  then show ?thesis by blast
qed

lemma copy_attrs:
  "\<exists>ty c t. tag_attrs (behind (lit ''<button'') (copyButtonHTML saveInstead k)) =
     (lit ''type'', ty) # (lit ''class'', c) # (lit ''data-msg-idx'', html_decode (show_nat k)) # t"
proof -
  have "\<exists>t. behind (lit ''<button'') (copyButtonHTML saveInstead k) = 32 # lit ''type'' @ 61 # 34 # lit ''button'' @ 34 # 32 #
      lit ''class'' @ 61 # 34 # lit ''msg-copy-btn'' @ 34 # 32 # lit ''data-msg-idx'' @ 61 # 34 # show_nat k @ 34 # 32 # t"
    by (simp add: copyButtonHTML_def startsWith_def js_eval)
  then obtain t where "behind (lit ''<button'') (copyButtonHTML saveInstead k) = 32 # lit ''type'' @ 61 # 34 # lit ''button'' @ 34 # 32 #
      lit ''class'' @ 61 # 34 # lit ''msg-copy-btn'' @ 34 # 32 # lit ''data-msg-idx'' @ 61 # 34 # show_nat k @ 34 # 32 # t" by blast
  moreover have "34 \<notin> set (lit ''button'')" "34 \<notin> set (lit ''msg-copy-btn'')" "34 \<notin> set (show_nat k)"
    using show_nat_digits [of 34 k] by (auto simp: js_eval is_digit_def)
  ultimately show ?thesis
    by (simp only: tag_attrs_space plain_names tag_attrs_next not_False_eq_True) blast
qed

lemma html_decode_plain: "38 \<notin> set s \<Longrightarrow> html_decode s = s"
  by (induction s) auto

lemma decode_show_nat [simp]: "html_decode (show_nat k) = show_nat k"
  using show_nat_digits [of 38 k] by (intro html_decode_plain) (auto simp: is_digit_def)

lemma attr_facts:
  "attr (behind (lit ''<img'') (imageHTML url p)) (lit ''src'') = Some url"
  "attr (behind (lit ''<img'') (imageHTML url p)) (lit ''data-file-id'') = Some (file_id_text p)"
  "attr (behind (lit ''<img'') (imageHTML url p)) (lit ''data-file-name'') = Some (meta_name_or p (lit ''image''))"
  "attr (behind (lit ''<a'') (fileHTML url p)) (lit ''href'') = Some url"
  "attr (behind (lit ''<a'') (fileHTML url p)) (lit ''download'') = Some (meta_name_or p [0x6587, 0x4EF6])"
  "attr (behind (lit ''<a'') (fileHTML url p)) (lit ''data-file-id'') = Some (file_id_text p)"
  "attr (behind (lit ''<a'') (fileHTML url p)) (lit ''data-file-name'') = Some (meta_name_or p [0x6587, 0x4EF6])"
  "attr (behind (lit ''<button'') (copyButtonHTML si k)) (lit ''data-msg-idx'') = Some (show_nat k)"
proof -
  obtain c al lo t where i: "tag_attrs (behind (lit ''<img'') (imageHTML url p)) =
     (lit ''class'', c) # (lit ''src'', url) # (lit ''alt'', al) # (lit ''loading'', lo) #
     (lit ''data-file-id'', file_id_text p) # (lit ''data-file-name'', meta_name_or p (lit ''image'')) # t"
    using image_attrs by blast
  show "attr (behind (lit ''<img'') (imageHTML url p)) (lit ''src'') = Some url"
    "attr (behind (lit ''<img'') (imageHTML url p)) (lit ''data-file-id'') = Some (file_id_text p)"
    "attr (behind (lit ''<img'') (imageHTML url p)) (lit ''data-file-name'') = Some (meta_name_or p (lit ''image''))"
    unfolding attr_def i by (simp_all add: js_eval)
  obtain c t where l: "tag_attrs (behind (lit ''<a'') (fileHTML url p)) =
     (lit ''class'', c) # (lit ''href'', url) # (lit ''download'', meta_name_or p [0x6587, 0x4EF6]) #
     (lit ''data-file-id'', file_id_text p) # (lit ''data-file-name'', meta_name_or p [0x6587, 0x4EF6]) # t"
    using link_attrs by blast
  show "attr (behind (lit ''<a'') (fileHTML url p)) (lit ''href'') = Some url"
    "attr (behind (lit ''<a'') (fileHTML url p)) (lit ''download'') = Some (meta_name_or p [0x6587, 0x4EF6])"
    "attr (behind (lit ''<a'') (fileHTML url p)) (lit ''data-file-id'') = Some (file_id_text p)"
    "attr (behind (lit ''<a'') (fileHTML url p)) (lit ''data-file-name'') = Some (meta_name_or p [0x6587, 0x4EF6])"
    unfolding attr_def l by (simp_all add: js_eval)
  obtain ty c t where b: "tag_attrs (behind (lit ''<button'') (copyButtonHTML si k)) =
     (lit ''type'', ty) # (lit ''class'', c) # (lit ''data-msg-idx'', html_decode (show_nat k)) # t"
    using copy_attrs by blast
  show "attr (behind (lit ''<button'') (copyButtonHTML si k)) (lit ''data-msg-idx'') = Some (show_nat k)"
    unfolding attr_def b by (simp add: js_eval)
qed

section \<open>Properties\<close>

definition nowhere :: click_path where
  "nowhere = \<lparr>cp_copy = None, cp_reply = None, cp_image = None, cp_link = None, cp_busy = False\<rparr>"

text \<open>What the browser saves for a link it follows: its address and the name to save under.\<close>

definition link_saves :: "jstr \<Rightarrow> jstr option \<times> jstr option" where
  "link_saves link = (attr link (lit ''href''), attr link (lit ''download''))"

lemma good_file: "safeFileURL (pl_fileId p) = Some url \<Longrightarrow> Some (file_id_text p) = pl_fileId p"
  by (auto simp: safeFileURL_def file_id_text_def split: option.splits)

lemma or_default_empty [simp]: "or_default s [] = s"
  by (simp add: or_default_def)

lemma meta_name_nonempty: "d \<noteq> [] \<Longrightarrow> or_default (meta_name_or p d) e = meta_name_or p d"
  by (cases "pl_meta p") (auto simp: meta_name_or_def or_default_def)

lemma download_saves:
  assumes "safeFileURL f = Some url" and "get_file a url = Blob ty" and "n \<noteq> []"
  shows "downloadFile a f n True = [SetBusy True, SaveAs url n, SetBusy False]"
  using assms by (simp add: downloadFile_def fetchFileBlob_def)

lemma body_of_kind:
  "kind p = lit ''file'' \<Longrightarrow> safeFileURL (pl_fileId p) = Some url \<Longrightarrow> bodyHTML p = fileHTML url p"
  "kind p = lit ''image'' \<Longrightarrow> safeFileURL (pl_fileId p) = Some url \<Longrightarrow> bodyHTML p = imageHTML url p"
  by (simp_all add: bodyHTML_def js_eval)

text \<open>
  C36. A click in the chat acts on the message it is made in.  The copy button of message \<open>k\<close> copies
  message \<open>k\<close>.  The card of a file saves the file with the message's id under the message's name, through the page on
  Linux and through the browser elsewhere.  An image opens in the viewer, and the viewer's button saves that
  image under its name.  All this goes through the attributes of the HTML \<open>appendMessage\<close> built, whatever characters the
  sender put into the name of the file.
\<close>

theorem chat_clicks_exact:
  assumes "safeFileURL (pl_fileId p) = Some url" and "get_file a url = Blob ty"
  shows "messages_click a origin pf mobile (nowhere\<lparr>cp_copy := Some (behind (lit ''<button'') (copyButtonHTML si k))\<rparr>) c r v
      = (Copies (copyOneMessage a origin k c), r, v)
    \<and> (kind p = lit ''file'' \<longrightarrow>
      (let link = behind (lit ''<a'') (bodyHTML p); name = meta_name_or p [0x6587, 0x4EF6] in
       messages_click a origin pf mobile (nowhere\<lparr>cp_link := Some link\<rparr>) c r v
         = (if needsBlobDownload pf then Downloads [SetBusy True, SaveAs url name, SetBusy False] else FollowsLink, r, v)
       \<and> link_saves link = (Some url, Some name)))
    \<and> (kind p = lit ''image'' \<longrightarrow>
      (\<exists>v'. messages_click a origin pf mobile (nowhere\<lparr>cp_image := Some (behind (lit ''<img'') (bodyHTML p))\<rparr>) c r v
         = (Views, r, v') \<and> vw_open v' \<and> vw_src v' = Some url
         \<and> viewer_download a v' = [SetBusy True, SaveAs url (meta_name_or p (lit ''image'')), SetBusy False]))"
proof (intro conjI)
  show "messages_click a origin pf mobile (nowhere\<lparr>cp_copy := Some (behind (lit ''<button'') (copyButtonHTML si k))\<rparr>) c r v
      = (Copies (copyOneMessage a origin k c), r, v)"
    by (simp add: messages_click_def attr_facts)
  have url: "url \<noteq> []" using assms(1) by (auto simp: safeFileURL_def split: option.splits if_splits)
  have name: "meta_name_or p d \<noteq> []" if "d \<noteq> []" for d
    using that by (cases "pl_meta p") (auto simp: meta_name_or_def or_default_def)
  note saves = download_saves [OF assms(1)[folded good_file [OF assms(1)]] assms(2)]
  show "kind p = lit ''file'' \<longrightarrow>
      (let link = behind (lit ''<a'') (bodyHTML p); name = meta_name_or p [0x6587, 0x4EF6] in
       messages_click a origin pf mobile (nowhere\<lparr>cp_link := Some link\<rparr>) c r v
         = (if needsBlobDownload pf then Downloads [SetBusy True, SaveAs url name, SetBusy False] else FollowsLink, r, v)
       \<and> link_saves link = (Some url, Some name))"
    using body_of_kind(1) [OF _ assms(1)] saves name
    by (simp add: messages_click_def nowhere_def attr_facts link_saves_def Let_def)
  show "kind p = lit ''image'' \<longrightarrow>
      (\<exists>v'. messages_click a origin pf mobile (nowhere\<lparr>cp_image := Some (behind (lit ''<img'') (bodyHTML p))\<rparr>) c r v
         = (Views, r, v') \<and> vw_open v' \<and> vw_src v' = Some url
         \<and> viewer_download a v' = [SetBusy True, SaveAs url (meta_name_or p (lit ''image'')), SetBusy False])"
    using body_of_kind(2) [OF _ assms(1)] saves name url
    by (simp add: messages_click_def nowhere_def attr_facts openImageViewer_def viewer_download_def)
qed

definition tricky_file :: msg_payload where
  "tricky_file = \<lparr>kind = lit ''file'', pl_content = None, pl_fileId = Some (replicate 32 97),
     pl_meta = Some \<lparr>meta_name = lit ''a\" href=\"//evil&amp;.txt'', meta_size = 3, meta_mime = []\<rparr>\<rparr>"

theorem chat_clicks_exact_witness:
  "link_saves (behind (lit ''<a'') (bodyHTML tricky_file))
     = (Some (lit ''/api/files/'' @ replicate 32 97), Some (lit ''a\" href=\"//evil&amp;.txt''))"
proof -
  let ?u = "lit ''/api/files/'' @ replicate 32 97"
  have "safeFileURL (pl_fileId tricky_file) = Some ?u"
    by (simp add: tricky_file_def safeFileURL_Some is_file_id_def list_all_iff is_hex_def)
  from chat_clicks_exact [OF this, of "demo_abilities\<lparr>get_file := (\<lambda>u. Blob [])\<rparr>" "[]" "[]" "lit ''windows''" False False 0
      "\<lparr>chatLog = [], dom = []\<rparr>" initial_room initial_viewer]
  show ?thesis by (simp add: tricky_file_def meta_name_or_def Let_def js_eval)
qed

end
