(* ===== verification/Sockets.thy ===== *)
theory Sockets
  imports Page_Properties
begin

text \<open>
  The life of a WebSocket as the page sees it: its \<open>readyState\<close> only advances, and a handler that was removed
  stays removed.  So what an abandoned connection still has to say is never heard.
\<close>

section \<open>The order of the states\<close>

fun rank :: "ready_state \<Rightarrow> nat" where
  "rank Connecting = 0"
| "rank Open = 1"
| "rank Closing = 2"
| "rank Closed = 3"

lemma rank_inject [simp]: "rank a = rank b \<longleftrightarrow> a = b"
  by (cases a; cases b) simp_all

instantiation ready_state :: linorder
begin

definition less_eq_ready_state :: "ready_state \<Rightarrow> ready_state \<Rightarrow> bool" where
  "less_eq_ready_state a b \<longleftrightarrow> rank a \<le> rank b"

definition less_ready_state :: "ready_state \<Rightarrow> ready_state \<Rightarrow> bool" where
  "less_ready_state a b \<longleftrightarrow> rank a < rank b"

instance
proof
  fix a b c :: ready_state
  show "a < b \<longleftrightarrow> a \<le> b \<and> \<not> b \<le> a" by (auto simp: less_eq_ready_state_def less_ready_state_def)
  show "a \<le> a" by (simp add: less_eq_ready_state_def)
  show "a \<le> b \<Longrightarrow> b \<le> c \<Longrightarrow> a \<le> c" by (simp add: less_eq_ready_state_def)
  show "a \<le> b \<Longrightarrow> b \<le> a \<Longrightarrow> a = b" using rank_inject [of a b] by (simp add: less_eq_ready_state_def)
  show "a \<le> b \<or> b \<le> a" by (auto simp: less_eq_ready_state_def)
qed

end

lemma ready_state_bounds [simp]: "Connecting \<le> a" "a \<le> Closed"
  by (cases a; simp add: less_eq_ready_state_def)+

lemma ready_state_order [simp]:
  "Open \<le> Closing" "\<not> Closing \<le> Open" "\<not> Closing \<le> Connecting" "\<not> Closed \<le> Open" "\<not> Closed \<le> Closing"
  by (simp_all add: less_eq_ready_state_def)

section \<open>Advancing\<close>

definition sock_le :: "socket \<Rightarrow> socket \<Rightarrow> bool" where
  "sock_le s s' \<longleftrightarrow> readyState s \<le> readyState s' \<and> (onclose_set s' \<longrightarrow> onclose_set s) \<and> url_name s' = url_name s"

definition advances :: "page \<Rightarrow> page \<Rightarrow> bool" where
  "advances p q \<longleftrightarrow> (\<forall>w s. sockets p w = Some s \<longrightarrow> (\<exists>s'. sockets q w = Some s' \<and> sock_le s s'))"

lemma sock_le_trans: "sock_le a b \<Longrightarrow> sock_le b c \<Longrightarrow> sock_le a c"
  unfolding sock_le_def by (elim conjE) (simp add: order.trans [of "readyState a" "readyState b" "readyState c"])

lemma advances_trans: "advances p q \<Longrightarrow> advances q r \<Longrightarrow> advances p r"
  unfolding advances_def using sock_le_trans by meson

lemma advances_same: "sockets q = sockets p \<Longrightarrow> advances p q"
  by (simp add: advances_def sock_le_def)

lemma advances_update:
  assumes "sockets q = (sockets p)(w := map_option f (sockets p w))" and "\<And>s. sockets p w = Some s \<Longrightarrow> sock_le s (f s)"
  shows "advances p q"
  unfolding advances_def
proof (intro allI impI)
  fix v s assume v: "sockets p v = Some s"
  show "\<exists>s'. sockets q v = Some s' \<and> sock_le s s'"
  proof (cases "v = w")
    case True
    with v assms show ?thesis by simp
  next
    case False
    with v assms(1) show ?thesis by (simp add: sock_le_def)
  qed
qed

lemma advances_drop: "advances p (drop_socket p)"
proof (cases "ws p")
  case (Some w)
  let ?f = "\<lambda>s. s\<lparr>onclose_set := False, readyState := (if readyState s = Closed then Closed else Closing)\<rparr>"
  show ?thesis
  proof (rule advances_update [where f = ?f and w = w])
    show "sockets (drop_socket p) = (sockets p)(w := map_option ?f (sockets p w))"
      using Some by (simp add: drop_socket_def)
    show "sock_le s (?f s)" for s
      by (cases "readyState s") (simp_all add: sock_le_def less_eq_ready_state_def)
  qed
qed (simp add: drop_socket_def advances_same)

lemma advances_ready: "(\<And>s. sockets p w = Some s \<Longrightarrow> readyState s \<le> st) \<Longrightarrow> advances p (set_ready w st p)"
  by (rule advances_update [where w = w and f = "\<lambda>s. s\<lparr>readyState := st\<rparr>"]) (simp_all add: set_ready_def sock_le_def)

lemma advances_connect:
  assumes "conn_base p"
  shows "advances p (connect name p)"
proof -
  let ?q = "drop_socket p"
  have "conn_base ?q" using assms by (rule drop_socket_base)
  then have "sockets ?q (next_socket ?q) = None"
    using socket_less [of "ws ?q" "sockets ?q" "next_socket ?q" "next_socket ?q"]
    by (cases "sockets ?q (next_socket ?q)") (auto simp: conn_base_def)
  moreover have "next_socket ?q = next_socket p" by (simp add: drop_socket_def split: option.split)
  ultimately have "advances ?q (connect name p)"
    by (auto simp: advances_def connect_def Let_def sock_le_def)
  with advances_drop show ?thesis by (rule advances_trans)
qed

lemma sockets_kept [simp]:
  "sockets (clear_timer p) = sockets p" "sockets (setConnected on p) = sockets p" "sockets (arm_timer d p) = sockets p"
  "sockets (setDevicesPanel mobile op p) = sockets p" "sockets (alert m p) = sockets p" "sockets (showPinRow x p) = sockets p"
  "sockets (timer_fires t p) = sockets p"
  by (simp_all add: clear_timer_def setConnected_def arm_timer_def setDevicesPanel_def alert_def showPinRow_def
      timer_fires_def Let_def split: option.split)

lemma advances_into: "advances p q \<Longrightarrow> sockets r = sockets q \<Longrightarrow> advances p r"
  by (simp add: advances_def)

lemma advances_from: "advances p q \<Longrightarrow> sockets r = sockets p \<Longrightarrow> advances r q"
  by (simp add: advances_def)

lemma advances_leave: "advances p (leaveChat mobile p)"
proof -
  have "advances (clear_timer p) (drop_socket (clear_timer p))" by (rule advances_drop)
  then have "advances p (drop_socket (clear_timer p))" by (rule advances_from) simp
  then show ?thesis by (rule advances_into) (simp add: leaveChat_def Let_def)
qed

lemma advances_on_open:
  assumes "sock_in p w {Connecting}"
  shows "advances p (on_open w p)"
proof -
  have "advances p (set_ready w Open p)"
    using assms by (intro advances_ready) (simp add: sock_in_def)
  then show ?thesis by (rule advances_into) (simp add: on_open_def)
qed

lemma advances_on_close: "advances p (on_close jitter w p)"
proof -
  have "advances p (set_ready w Closed p)" by (rule advances_ready) simp
  then show ?thesis by (rule advances_into) (simp add: on_close_def Let_def split: option.split)
qed

lemma advances_stale:
  assumes "conn_base p"
  shows "advances p (reconnectIfStale p)"
proof -
  let ?q = "(clear_timer p)\<lparr>reconnectAttempts := 0\<rparr>"
  have "conn_base ?q" using clear_timer_base [OF assms] by (simp add: conn_base_def)
  then have "advances ?q (connect (chatName ?q) ?q)" by (rule advances_connect)
  then have "advances p (connect (chatName ?q) ?q)" by (rule advances_from) simp
  then show ?thesis by (simp add: reconnectIfStale_def Let_def advances_same)
qed

lemma advances_enter:
  assumes "conn_base p" and "name \<noteq> []"
  shows "advances p (enterChat mobile name p)"
proof -
  let ?q = "setDevicesPanel mobile False (setConnected False
      (p\<lparr>chatName := Some name, page_storage := storageSet STORAGE_KEY name (page_storage p),
         inChat := True, page_room := renderTargetBar mobile (page_room p)\<rparr>))"
  have "conn_base ?q" using assms by (simp add: conn_base_def setDevicesPanel_def setConnected_def)
  then have "advances ?q (connect (Some name) ?q)" by (rule advances_connect)
  then have "advances p (connect (Some name) ?q)" by (rule advances_from) simp
  then show ?thesis by (simp add: enterChat_def Let_def)
qed

lemma advances_info:
  assumes "conn_base p"
  shows "advances p (info_arrives mobile info p)"
proof -
  let ?q = "p\<lparr>asking := asking p - 1\<rparr>"
  have "conn_base ?q" using assms by (simp add: conn_base_def)
  then have con: "advances p (connect (chatName ?q) ?q)"
    by (rule advances_from [OF advances_connect]) simp
  have "advances p (leaveChat mobile ?q)" by (rule advances_from [OF advances_leave]) simp
  then have "advances p (alert [0x9700, 0x8981, 0x91CD, 0x65B0, 0x8F93, 0x5165, 0x623F, 0x95F4, 0x53E3, 0x4EE4] (showPinRow True (leaveChat mobile ?q)))"
    by (rule advances_into) simp
  with con show ?thesis by (simp add: info_arrives_def Let_def)
qed

lemma advances_timer: "advances p (timer_fires t p)"
  by (rule advances_same) simp

lemma advances_refl [simp]: "advances p p"
  by (rule advances_same) simp

lemma view_sockets: "conn_view q = conn_view p \<Longrightarrow> sockets q = sockets p"
  by (simp add: conn_view_def)

lemma event_advances:
  assumes "conn_ok p" and "enabled e p"
  shows "advances p (handle_event b mobile e p)"
proof (cases "conn_view (handle_event b mobile e p) = conn_view p")
  case True
  then show ?thesis using view_sockets advances_same by blast
next
  case False
  have base: "conn_base p" using assms(1) by (simp add: conn_ok_def)
  have closing: "advances p (set_ready w Closing p)" if "sock_in p w {Connecting, Open}" for w
    using that by (intro advances_ready) (auto simp: sock_in_def)
  from False assms(2) base show ?thesis
    by (cases e)
      (simp_all add: advances_enter advances_leave advances_stale advances_on_open closing advances_on_close
        advances_info advances_timer Let_def split: if_splits)
qed

lemma steps_advance: "steps p q \<Longrightarrow> conn_ok p \<Longrightarrow> advances p q"
proof (induction rule: steps.induct)
  case (refl p)
  then show ?case by (simp add: advances_same)
next
  case (step p q e b mobile)
  from step(1,4) have "conn_ok q" by (rule connection.along)
  from step(3) [OF step(4)] event_advances [OF this step(2)] show ?case by (rule advances_trans)
qed

section \<open>Given up for good\<close>

text \<open>A socket nobody listens to the end of any more, or whose end has come.\<close>

definition given_up :: "nat \<Rightarrow> page \<Rightarrow> bool" where
  "given_up w p \<longleftrightarrow> (\<exists>s. sockets p w = Some s \<and> (readyState s = Closed \<or> Closing \<le> readyState s \<and> \<not> onclose_set s))"

lemma given_up_advances: "given_up w p \<Longrightarrow> advances p q \<Longrightarrow> given_up w q"
proof -
  assume g: "given_up w p" and a: "advances p q"
  from g obtain s where s: "sockets p w = Some s" "readyState s = Closed \<or> Closing \<le> readyState s \<and> \<not> onclose_set s"
    unfolding given_up_def by blast
  with a obtain s' where "sockets q w = Some s'" "sock_le s s'" unfolding advances_def by blast
  with s(2) show ?thesis
    unfolding given_up_def by (cases "readyState s'") (auto simp: sock_le_def less_eq_ready_state_def)
qed

lemma given_up_not_current: "given_up w p \<Longrightarrow> conn_ok p \<Longrightarrow> ws p \<noteq> Some w"
  by (auto simp: given_up_def conn_ok_def conn_base_def socket_ok_def dest!: socket_less)

lemma left_socket_given_up:
  assumes "conn_ok p" and "ws p = Some w" and "steps p q" and "ws q \<noteq> Some w"
  shows "given_up w q"
proof -
  have "sockets p w \<noteq> None" using assms(1,2) by (simp add: conn_ok_def conn_base_def sockets_ok_def)
  with steps_advance [OF assms(3,1)] obtain s where s: "sockets q w = Some s" unfolding advances_def by blast
  have "conn_base q" using connection.along [OF assms(3,1)] by (simp add: conn_ok_def)
  then have "socket_ok (ws q) w s"
    using socket_less [of "ws q" "sockets q" "next_socket q" w s] s by (simp add: conn_base_def)
  with assms(4) s show ?thesis by (auto simp: given_up_def socket_ok_def)
qed

lemma given_up_silent:
  assumes "given_up w p" and "conn_ok p"
  shows "\<not> enabled (SockMsg w m) p \<and> \<not> enabled (SockOpen w) p
    \<and> (enabled (SockClose w jitter) p \<longrightarrow> handle_event b mobile (SockClose w jitter) p = set_ready w Closed p)"
  using assms by (auto simp: given_up_def sock_in_def on_close_def Let_def less_eq_ready_state_def)

text \<open>
  C14. A connection the page has given up is never heard again.  Once a socket is no longer the current
  one, because the user left the room, entered another time, or the page reconnected, then in every later state, whatever
  happens in between, it delivers no message, does not open, does not become current again, and when it ends, that starts
  no reconnection and changes nothing the user sees: no message of the old connection gets into the new one.
\<close>

theorem abandoned_socket_silent:
  assumes "reachable p" and "ws p = Some w" and "steps p q" and "ws q \<noteq> Some w" and "steps q r"
  shows "ws r \<noteq> Some w \<and> \<not> enabled (SockMsg w m) r \<and> \<not> enabled (SockOpen w) r
    \<and> (enabled (SockClose w jitter) r \<longrightarrow> handle_event b mobile (SockClose w jitter) r = set_ready w Closed r)"
proof -
  have p: "conn_ok p" using connection.always [OF assms(1)] .
  have q: "conn_ok q" using connection.along [OF assms(3) p] .
  have r: "conn_ok r" using connection.along [OF assms(5) q] .
  have "given_up w r"
    using left_socket_given_up [OF p assms(2-4)] steps_advance [OF assms(5) q] by (rule given_up_advances)
  from given_up_not_current [OF this r] given_up_silent [OF this r, of m jitter b mobile] show ?thesis by blast
qed

text \<open>Leaving the room right after the connection opened.\<close>

theorem abandoned_socket_silent_witness:
  "\<not> enabled (SockMsg 0 (Message demo_msg)) (leaveChat False opened_page)"
proof -
  have "steps opened_page (handle_event plain_browser False Leave opened_page)"
    by (rule steps.step [OF steps.refl]) simp
  then have left: "steps opened_page (leaveChat False opened_page)" by simp
  from abandoned_socket_silent [OF reachable_opened opened_conn(3) left _ steps.refl] show ?thesis by simp
qed

text \<open>
  Its error handler is not removed, though.  When the attempt to reach the hub that was under way is given up for a
  new one and its failure is reported after the new one is open, the page shows that it is not connected and
  disables the send buttons, although it is connected.
\<close>

lemma isOpen_kept: "ws q = ws p \<Longrightarrow> sockets q = sockets p \<Longrightarrow> isOpen q = isOpen p"
  by (simp add: isOpen_def cong: option.case_cong)

lemma late_error:
  assumes "isOpen p"
  shows "isOpen (handle_event b mobile (SockError w) p) \<and> \<not> can_send (conn (handle_event b mobile (SockError w) p))"
proof -
  have "isOpen (on_error w p) = isOpen p" by (rule isOpen_kept) (simp_all add: on_error_def setConnected_def)
  with assms show ?thesis by (simp add: on_error_def setConnected_def)
qed

end
