(* ===== verification/Qr.thy ===== *)
theory Qr
  imports Join
begin

text \<open>
  The QR code of the join address: \<open>handleQRCode\<close> and \<open>preferredJoinURL\<close> of internal/server/server.go, asked by the
  side panel and the address dialog of the page.  The encoder of the image is the package go-qrcode, here the parameter \<open>encode\<close> from
  octets to the octets of a PNG, or \<open>None\<close> for its error; \<open>lan\<close> are the addresses \<open>AdvertiseIPv4Addresses\<close> found.
\<close>

datatype qr_answer = QrError nat jstr | QrPng "byte list"

definition preferredJoinURL :: "nat \<Rightarrow> jstr list \<Rightarrow> jstr" where
  "preferredJoinURL port lan =
     (case lan of [] \<Rightarrow> [] | ip # _ \<Rightarrow> lit ''http://'' @ ip @ lit '':'' @ show_nat port)"

definition handleQRCode ::
    "(byte list \<Rightarrow> byte list option) \<Rightarrow> nat \<Rightarrow> jstr list \<Rightarrow> jstr \<Rightarrow> jstr \<Rightarrow> qr_answer" where
  "handleQRCode encode port lan meth raw =
     (if meth \<noteq> lit ''GET'' then QrError 405 (lit ''method not allowed'')
      else
        let asked = octet_TrimSpace (query_get (lit ''url'') raw);
            target = (if asked = [] then preferredJoinURL port lan else asked)
        in if target = [] then QrError 400 (lit ''no join url available'')
           else (case encode target of None \<Rightarrow> QrError 500 (lit ''qrcode failed'') | Some png \<Rightarrow> QrPng png))"

section \<open>What the hub reads of the page's request\<close>

lemma show_nat_plain: "c \<in> set (show_nat n) \<Longrightarrow> 48 \<le> c \<and> c \<le> 57"
  using show_nat_digits [of c n] by (simp add: is_digit_def)

lemma qr_request_query:
  assumes "qr_request now url = Some src"
  obtains keep where "query_keep keep"
    "request_query src = (lit ''url='' @ octets_out keep False (utf8 (code_points url))) @ 38 # lit ''t='' @ show_nat now"
proof
  let ?bs = "utf8 (code_points url)" and ?keep = "\<lambda>b. uri_keep b \<and> b \<noteq> 39"
  from assms have wf: "\<forall>c \<in> set (code_points url). scalar c"
    and src: "src = lit ''/api/qrcode'' @ 63 # (lit ''url='' @ octets_out uri_keep False ?bs @ lit ''&t='' @ show_nat now)"
    by (auto simp: qr_request_def encodeURIComponent_def is_well_formed_def list_all_iff js_eval split: if_splits)
  have bytes: "\<forall>b \<in> set ?bs. b < 256" using utf8_bytes [OF wf] .
  show "query_keep ?keep" using query_keep(1) by (simp add: query_keep_def)
  let ?q = "lit ''url='' @ octets_out uri_keep False ?bs @ lit ''&t='' @ show_nat now"
  have "63 \<notin> set (lit ''/api/qrcode'')" by (simp add: js_eval)
  then have "drop 1 (dropWhile (\<lambda>c. c \<noteq> 63) src) = ?q" unfolding src by (subst dropWhile_until) simp_all
  moreover have "35 \<notin> set ?q"
    using octets_out_plain [OF query_keep(1) bytes, of 35 False] show_nat_plain [of 35 now] by (auto simp: js_eval)
  then have "takeWhile (\<lambda>c. c \<noteq> 35) ?q = ?q" by (auto simp: takeWhile_eq_all_conv)
  moreover have "replaceAll 39 (lit ''%27'') (show_nat now) = show_nat now"
    using show_nat_plain [of 39 now] by (intro replaceAll_id) auto
  ultimately show "request_query src = (lit ''url='' @ octets_out ?keep False ?bs) @ 38 # lit ''t='' @ show_nat now"
    using escape_apostrophe [OF bytes, of uri_keep False] unfolding request_query_def
    by (simp only:) (simp add: js_eval)
qed

lemma query_get_first: "ParseQuery raw = (k, v) # kvs \<Longrightarrow> query_get k raw = v"
  by (simp add: query_get_def)

lemma qr_asked:
  assumes "qr_request now url = Some src"
  shows "query_get (lit ''url'') (request_query src) = utf8 (code_points url)"
proof -
  let ?bs = "utf8 (code_points url)"
  obtain keep where k: "query_keep keep"
    and q: "request_query src = (lit ''url='' @ octets_out keep False ?bs) @ 38 # lit ''t='' @ show_nat now"
    using assms by (rule qr_request_query)
  have bytes: "\<forall>b \<in> set ?bs. b < 256"
    using assms by (intro utf8_bytes)
      (auto simp: qr_request_def encodeURIComponent_def is_well_formed_def list_all_iff split: if_splits)
  have plain: "38 \<notin> set (octets_out keep False ?bs)" "59 \<notin> set (octets_out keep False ?bs)"
    using octets_out_plain [OF k bytes] by simp_all
  have "query_pair (lit ''url='' @ octets_out keep False ?bs) = Some (lit ''url'', ?bs)"
    using plain QueryUnescape_out [OF k bytes] by (simp add: query_pair_def js_eval)
  moreover have "38 \<notin> set (lit ''url='' @ octets_out keep False ?bs)" using plain by (simp add: js_eval)
  ultimately show ?thesis unfolding q by (intro query_get_first [OF ParseQuery_Cons(1)])
qed

section \<open>The code is the address\<close>

definition no_outer_space :: "jstr \<Rightarrow> bool" where
  "no_outer_space s \<longleftrightarrow> go_TrimSpace s = s"

lemma rune_text_nonempty: "rune_text bs \<noteq> [] \<Longrightarrow> bs \<noteq> []"
  by (auto simp: rune_text_def utf16_def)

lemma qr_encodes:
  assumes "qr_request now url = Some src" and "url \<noteq> []" and "\<forall>c \<in> set url. c < 0x10000" and "no_outer_space url"
  shows "\<exists>t. rune_text t = url
    \<and> handleQRCode encode port lan (lit ''GET'') (request_query src)
      = (case encode t of None \<Rightarrow> QrError 500 (lit ''qrcode failed'') | Some png \<Rightarrow> QrPng png)"
proof -
  let ?t = "octet_TrimSpace (utf8 (code_points url))"
  have "\<forall>c \<in> set (code_points url). scalar c"
    using assms(1) by (auto simp: qr_request_def encodeURIComponent_def is_well_formed_def list_all_iff split: if_splits)
  from rune_text_trim [OF this] assms(3,4) have t: "rune_text ?t = url"
    by (simp add: utf16_code_points no_outer_space_def)
  with assms(2) have "?t \<noteq> []" using rune_text_nonempty by metis
  then show ?thesis using t by (intro exI [of _ ?t]) (simp add: handleQRCode_def qr_asked [OF assms(1)])
qed

text \<open>
  C19. The QR code next to the chat is the join link.  Whatever address and PIN the link has, the image the side panel
  asks for is the hub's encoding of exactly the link of which the panel shows the readable part, so a device that reads the code
  gets the whole link with the PIN, for every encoder whose images read back as what was encoded: nothing
  is lost or changed by the two escapings, the browser, and the trimming at the hub.
\<close>

theorem qr_shows_join_link:
  assumes "renderSidePanel now loc info = Some panel"
    and "pickJoinURL loc info \<noteq> []" and "no_outer_space (pickJoinURL loc info)" and "\<forall>c \<in> set (pickJoinURL loc info). c < 0x10000"
    and "\<forall>t png. encode t = Some png \<longrightarrow> scan png = t"
    and "handleQRCode encode port lan (lit ''GET'') (request_query (side_qr panel)) = QrPng png"
  shows "rune_text (scan png) = pickJoinURL loc info \<and> side_url panel = plainUrl (rune_text (scan png))"
proof -
  from assms(1) have src: "qr_request now (pickJoinURL loc info) = Some (side_qr panel)"
    and url: "side_url panel = plainUrl (pickJoinURL loc info)" by (auto simp: renderSidePanel_def Let_def)
  from qr_encodes [OF src assms(2,4,3), of encode port lan] obtain t where t: "rune_text t = pickJoinURL loc info"
    "QrPng png = (case encode t of None \<Rightarrow> QrError 500 (lit ''qrcode failed'') | Some png \<Rightarrow> QrPng png)"
    using assms(6) by auto
  then have "encode t = Some png" by (simp split: option.splits)
  with assms(5) t(1) url show ?thesis by simp
qed

text \<open>A link with a PIN of letters, a Chinese character and an emoji, and the encoder that leaves everything as it is.\<close>

lemma demo_link_eq: "pickJoinURL demo_loc demo_info = lit ''http://192.168.1.2:8787/#pin=A%26%E5%8F%A3%F0%9F%98%80''"
proof -
  have "isLANIPv4Host (loc_hostname demo_loc)"
    by (simp add: demo_loc_def isLANIPv4Host_def toLowerCase_def lower_char_def short_number_def is_digit_def js_eval)
  moreover have "QueryEscape [0x41, 0x26, 0x53E3, 0x1F600] = lit ''A%26%E5%8F%A3%F0%9F%98%80''"
    by (simp add: QueryEscape_def utf8_enc_def escape_octet_def octet_out_def unreserved_def is_alnum_def upper_hex_def js_eval)
  ultimately show ?thesis
    by (simp add: pickJoinURL_def demo_info_def hub_join_url_def fragment_def demo_loc_def js_eval)
qed

lemma code_points_ascii: "\<forall>c \<in> set s. c < 0x80 \<Longrightarrow> code_points s = s"
  by (induction s rule: code_points.induct) (auto simp: is_high_def)

lemma demo_link:
  "is_well_formed (pickJoinURL demo_loc demo_info)" "no_outer_space (pickJoinURL demo_loc demo_info)"
  "pickJoinURL demo_loc demo_info \<noteq> []" "list_all (\<lambda>c. c < 0x10000) (pickJoinURL demo_loc demo_info)"
proof -
  have "\<forall>c \<in> set (pickJoinURL demo_loc demo_info). c < 0x80" by (simp add: demo_link_eq js_eval)
  then show "is_well_formed (pickJoinURL demo_loc demo_info)" "list_all (\<lambda>c. c < 0x10000) (pickJoinURL demo_loc demo_info)"
    by (auto simp: is_well_formed_def code_points_ascii scalar_def list_all_iff)
  show "no_outer_space (pickJoinURL demo_loc demo_info)" "pickJoinURL demo_loc demo_info \<noteq> []"
    by (simp_all add: demo_link_eq no_outer_space_def go_TrimSpace_def go_is_space_def js_eval)
qed

theorem qr_shows_join_link_witness:
  "\<exists>panel png. renderSidePanel 5 demo_loc demo_info = Some panel
    \<and> handleQRCode Some 8787 [] (lit ''GET'') (request_query (side_qr panel)) = QrPng png
    \<and> rune_text png = pickJoinURL demo_loc demo_info"
proof -
  let ?url = "pickJoinURL demo_loc demo_info"
  have units: "\<forall>c \<in> set ?url. c < 0x10000" using demo_link(4) by (simp add: list_all_iff)
  obtain src where src: "qr_request 5 ?url = Some src"
    using demo_link(1) by (simp add: qr_request_def encodeURIComponent_def)
  then obtain panel where panel: "renderSidePanel 5 demo_loc demo_info = Some panel" "side_qr panel = src"
    by (simp add: renderSidePanel_def Let_def)
  from qr_encodes [OF src demo_link(3) units demo_link(2), of Some 8787 "[]"] obtain png where
    png: "handleQRCode Some 8787 [] (lit ''GET'') (request_query src) = QrPng png" by auto
  have "rune_text (id png) = ?url"
    using qr_shows_join_link [OF panel(1) demo_link(3,2) units, of Some id 8787 "[]" png] panel(2) png by simp
  with panel png show ?thesis by auto
qed

end
