(* ===== verification/Handshake.thy ===== *)
theory Handshake
  imports Query Identity Hub
begin

text \<open>
  How a device announces itself: the address \<open>connect\<close> (web/static/app.js) opens its WebSocket at, and what
  \<open>handleWebSocket\<close> (internal/server/server.go), \<open>ParsePlatform\<close> (internal/hub/platform.go), \<open>DeviceID\<close> and \<open>NewClient\<close>
  (internal/hub/hub.go) make of it.  SHA-256 is the parameter \<open>digest\<close>, and \<open>rnd\<close> the random id of a connection
  without a valid key.
\<close>

section \<open>The page\<close>

definition connect_params :: "jstr \<Rightarrow> jstr \<Rightarrow> jstr \<Rightarrow> (jstr \<times> jstr) list" where
  "connect_params name userAgent key =
     [(lit ''name'', name), (lit ''platform'', detectPlatform userAgent), (lit ''key'', key)]"

definition connect_url :: "bool \<Rightarrow> jstr \<Rightarrow> (jstr \<times> jstr) list \<Rightarrow> jstr" where
  "connect_url https host params =
     (if https then lit ''wss'' else lit ''ws'') @ lit ''://'' @ host @ lit ''/ws?'' @ search_params params"

section \<open>The hub\<close>

definition ParsePlatform :: "jstr \<Rightarrow> jstr \<Rightarrow> jstr" where
  "ParsePlatform explicit userAgent =
     (if explicit \<noteq> [] then toLowerCase explicit
      else
        let ua = toLowerCase userAgent in
        if contains_str ua (lit ''android'') then lit ''android''
        else if contains_str ua (lit ''iphone'') \<or> contains_str ua (lit ''ipad'') \<or> contains_str ua (lit ''ipod'')
        then lit ''ios''
        else if contains_str ua (lit ''windows'') then lit ''windows''
        else if contains_str ua (lit ''mac os'') \<or> contains_str ua (lit ''macintosh'') then lit ''macos''
        else if contains_str ua (lit ''linux'') then lit ''linux''
        else lit ''unknown'')"

text \<open>\<open>hex.DecodeString\<close>: both cases of the digits, and an even number of them.\<close>

fun hex_decode :: "byte list \<Rightarrow> byte list option" where
  "hex_decode [] = Some []"
| "hex_decode [a] = None"
| "hex_decode (a # b # s) =
     (case (pct_value a, pct_value b, hex_decode s) of
        (Some x, Some y, Some r) \<Rightarrow> Some ((16 * x + y) # r)
      | _ \<Rightarrow> None)"

definition octet_hex :: "byte \<Rightarrow> jstr" where
  "octet_hex x = [hex_digit (x div 16), hex_digit (x mod 16)]"

text \<open>\<open>UUID.String\<close>.\<close>

definition uuid_text :: "byte list \<Rightarrow> jstr" where
  "uuid_text u =
     (let h = concat (map octet_hex u) in
      slice h 0 8 @ [45] @ slice h 8 12 @ [45] @ slice h 12 16 @ [45] @ slice h 16 20 @ [45] @ slice h 20 32)"

definition key_uuid :: "(byte list \<Rightarrow> byte list) \<Rightarrow> byte list \<Rightarrow> jstr" where
  "key_uuid digest raw = uuid_text (take 16 (digest (lit ''lanroom-device:'' @ raw)))"

definition DeviceID :: "(byte list \<Rightarrow> byte list) \<Rightarrow> jstr \<Rightarrow> byte list \<Rightarrow> jstr" where
  "DeviceID digest rnd key =
     (case hex_decode key of
        None \<Rightarrow> rnd
      | Some raw \<Rightarrow> if length raw \<noteq> 32 then rnd else key_uuid digest raw)"

text \<open>\<open>None\<close> when the upgrade fails.  \<open>agent\<close> is the User-Agent header and \<open>ip\<close> the address of the client.\<close>

definition handleWebSocket ::
    "(byte list \<Rightarrow> byte list) \<Rightarrow> jstr \<Rightarrow> bool \<Rightarrow> jstr \<Rightarrow> jstr \<Rightarrow> jstr \<Rightarrow> device option" where
  "handleWebSocket digest rnd upgraded agent ip raw =
     (if \<not> upgraded then None
      else
        let name = rune_text (octet_TrimSpace (query_get (lit ''name'') raw));
            platform = ParsePlatform (rune_text (query_get (lit ''platform'') raw)) agent
        in Some (client_device (DeviceID digest rnd (query_get (lit ''key'') raw)) name platform ip))"

section \<open>The parameters arrive\<close>

lemma form_no_apostrophe: "form_keep b \<Longrightarrow> b \<noteq> 39"
  by (auto simp: form_keep_def is_alnum_def)

lemma form_encode_plain:
  "query_mark x \<Longrightarrow> x \<notin> set (form_encode s)" "39 \<notin> set (form_encode s)"
proof -
  have bytes: "\<forall>b \<in> set (utf8 (usv s)). b < 256" by (rule utf8_bytes [OF usv_scalar])
  show "query_mark x \<Longrightarrow> x \<notin> set (form_encode s)"
    unfolding form_encode_def by (rule octets_out_plain [OF query_keep(2) bytes])
  have "39 \<notin> set (octet_out form_keep True b)" if "b < 256" for b
  proof -
    have "b div 16 < 16" using that by auto
    then have "upper_hex (b div 16) \<noteq> 39" "upper_hex (b mod 16) \<noteq> 39"
      using upper_hex_bounds [of "b div 16"] upper_hex_bounds [of "b mod 16"] by auto
    then show ?thesis using form_no_apostrophe by (auto simp: octet_out_def)
  qed
  with bytes show "39 \<notin> set (form_encode s)" by (auto simp: form_encode_def octets_out_def)
qed

definition param_text :: "jstr \<times> jstr \<Rightarrow> jstr" where
  "param_text kv = form_encode (fst kv) @ [61] @ form_encode (snd kv)"

lemma search_params_text: "search_params ps = join [38] (map param_text ps)"
proof -
  have "(\<lambda>(k, v). form_encode k @ [61] @ form_encode v) = param_text" by (auto simp: param_text_def fun_eq_iff)
  then show ?thesis by (simp only: search_params_def)
qed

lemma param_text_plain: "x \<in> {35, 38, 39} \<Longrightarrow> x \<notin> set (param_text kv)"
  using form_encode_plain by (auto simp: param_text_def)

lemma join_plain: "x \<noteq> 38 \<Longrightarrow> (\<And>p. p \<in> set ps \<Longrightarrow> x \<notin> set p) \<Longrightarrow> x \<notin> set (join [38] ps)"
  by (induction "[38::nat]" ps rule: join.induct) auto

lemma param_pair: "query_pair (param_text (k, v)) = Some (utf8 (usv k), utf8 (usv v))"
  unfolding param_text_def form_encode_def
  using query_pair_out [OF query_keep(2) utf8_bytes [OF usv_scalar] utf8_bytes [OF usv_scalar]] by simp

lemma ParseQuery_params:
  "ParseQuery (join [38] (map param_text ps)) = map (\<lambda>(k, v). (utf8 (usv k), utf8 (usv v))) ps"
proof (induction ps)
  case (Cons p ps)
  obtain k v where p: "p = (k, v)" by (cases p)
  have plain: "38 \<notin> set (param_text (k, v))" by (rule param_text_plain) simp
  show ?case
    using Cons ParseQuery_Cons [OF plain param_pair] p by (cases ps) simp_all
qed simp

lemma connect_query:
  assumes "63 \<notin> set host"
  shows "ParseQuery (request_query (connect_url https host ps)) = map (\<lambda>(k, v). (utf8 (usv k), utf8 (usv v))) ps"
proof -
  let ?q = "join [38] (map param_text ps)"
  let ?front = "(if https then lit ''wss'' else lit ''ws'') @ lit ''://'' @ host @ lit ''/ws''"
  obtain front where front: "front = ?front" by blast
  have "63 \<notin> set front" using assms by (simp add: front js_eval)
  moreover have "connect_url https host ps = front @ 63 # ?q"
    by (simp add: front connect_url_def search_params_text js_eval)
  ultimately have "drop 1 (dropWhile (\<lambda>c. c \<noteq> 63) (connect_url https host ps)) = ?q"
    by (simp add: dropWhile_until)
  moreover have "35 \<notin> set ?q" "39 \<notin> set ?q"
    using param_text_plain by (intro join_plain; force)+
  moreover from this have "takeWhile (\<lambda>c. c \<noteq> 35) ?q = ?q" by (auto simp: takeWhile_eq_all_conv)
  ultimately have "request_query (connect_url https host ps) = ?q"
    unfolding request_query_def by (simp only: replaceAll_id not_False_eq_True)
  then show ?thesis by (simp add: ParseQuery_params)
qed

section \<open>The device\<close>

lemma usv_ascii: "\<forall>c \<in> set s. c < 0x80 \<Longrightarrow> usv s = s"
proof -
  assume a: "\<forall>c \<in> set s. c < 0x80"
  then have "code_points s = s" by (induction s rule: code_points.induct) (auto simp: is_high_def)
  with a show "usv s = s" by (auto simp: usv_def to_scalar_def scalar_def intro!: map_idI)
qed

lemma rune_text_ascii: "\<forall>c \<in> set s. c < 0x80 \<Longrightarrow> rune_text s = s"
  by (induction s) (auto simp: rune_text_def utf16_def utf16_enc_def)

lemma hex_decode_key: "list_all is_hex s \<Longrightarrow> even (length s) \<Longrightarrow> hex_decode s = Some (hex_pairs s)"
proof (induction s rule: hex_decode.induct)
  case (3 a b s)
  have "pct_value c = Some (hex_value c)" if "is_hex c" for c
    using that by (auto simp: is_hex_def pct_value_def hex_value_def)
  with 3 show ?case by simp
qed simp_all

lemma length_hex_pairs: "length (hex_pairs s) = length s div 2"
  by (induction s rule: hex_pairs.induct) simp_all

lemma DeviceID_key: "is_device_key key \<Longrightarrow> DeviceID digest rnd key = key_uuid digest (hex_pairs key)"
  by (simp add: is_device_key_def DeviceID_def hex_decode_key length_hex_pairs)

lemma detectPlatform_plain:
  "detectPlatform ua \<noteq> []" "\<forall>c \<in> set (detectPlatform ua). c < 0x80" "toLowerCase (detectPlatform ua) = detectPlatform ua"
proof -
  define known where "known = [lit ''android'', lit ''ios'', lit ''windows'', lit ''macos'', lit ''linux'', lit ''unknown'']"
  have "list_all (\<lambda>p. p \<noteq> [] \<and> (\<forall>c \<in> set p. c < 0x80) \<and> toLowerCase p = p) known"
    by (simp add: known_def toLowerCase_def lower_char_def js_eval)
  moreover have "detectPlatform ua \<in> set known" by (simp add: detectPlatform_def known_def Let_def)
  ultimately show "detectPlatform ua \<noteq> []" "\<forall>c \<in> set (detectPlatform ua). c < 0x80"
    "toLowerCase (detectPlatform ua) = detectPlatform ua" by (auto simp: list_all_iff)
qed

text \<open>
  C23. A device is announced as what it is.  Whatever its name contains (spaces, separators of a query, any script),
  the hub lists it under exactly that name without outer spaces, or as anonymous when nothing is left, under the
  platform its browser shows itself, whatever the User-Agent header says, and under an id that depends on its key
  alone: the same at every connection, and not the key itself.
\<close>

theorem announced_device:
  assumes "is_device_key key" and "63 \<notin> set host"
  shows "handleWebSocket digest rnd True agent ip (request_query (connect_url https host (connect_params name userAgent key)))
    = Some \<lparr>dev_id = key_uuid digest (hex_pairs key),
        dev_name = or_default (go_TrimSpace (to_well_formed name)) [0x533F, 0x540D, 0x8BBE, 0x5907],
        dev_platform = detectPlatform userAgent, dev_ip = or_default ip [0x672A, 0x77E5]\<rparr>"
proof -
  have key: "\<forall>c \<in> set key. c < 0x80" using assms(1) by (auto simp: is_device_key_def list_all_iff is_hex_def)
  have ascii: "utf8 (usv s) = s" if "\<forall>c \<in> set s. c < 0x80" for s using that by (simp add: usv_ascii utf8_ascii)
  note platform = detectPlatform_plain [of userAgent]
  have names: "\<forall>c \<in> set (lit ''name''). c < 0x80" "\<forall>c \<in> set (lit ''platform''). c < 0x80" "\<forall>c \<in> set (lit ''key''). c < 0x80"
    and different: "lit ''name'' \<noteq> lit ''platform''" "lit ''name'' \<noteq> lit ''key''" "lit ''platform'' \<noteq> lit ''key''"
    by (simp_all add: js_eval)
  let ?raw = "request_query (connect_url https host (connect_params name userAgent key))"
  have "ParseQuery ?raw = [(lit ''name'', utf8 (usv name)), (lit ''platform'', detectPlatform userAgent), (lit ''key'', key)]"
    unfolding connect_query [OF assms(2)] connect_params_def using names platform(2) key by (simp add: ascii)
  then have got: "query_get (lit ''name'') ?raw = utf8 (usv name)"
    "query_get (lit ''platform'') ?raw = detectPlatform userAgent" "query_get (lit ''key'') ?raw = key"
    using different by (simp_all add: query_get_def)
  have "rune_text (detectPlatform userAgent) = detectPlatform userAgent" using platform(2) by (rule rune_text_ascii)
  then show ?thesis
    by (simp add: handleWebSocket_def got ParsePlatform_def platform DeviceID_key [OF assms(1)]
        rune_text_trim [OF usv_scalar] to_well_formed_def client_device_def)
qed

text \<open>A name with a space, a Chinese character and an ampersand, sent by a browser on Linux.\<close>

theorem announced_device_witness:
  "\<exists>d. handleWebSocket (\<lambda>m. replicate 32 7) [] True [] []
        (request_query (connect_url False (lit ''hub:8787'')
          (connect_params [32, 0x5F20, 38, 32] (lit ''X11; Linux'') (replicate 64 97)))) = Some d
     \<and> dev_name d = [0x5F20, 38] \<and> dev_platform d = lit ''linux''"
proof -
  have key: "is_device_key (replicate 64 97)" by (simp add: is_device_key_def list_all_iff is_hex_def)
  have host: "63 \<notin> set (lit ''hub:8787'')" by (simp add: js_eval)
  have "go_TrimSpace (to_well_formed [32, 0x5F20, 38, 32]) = [0x5F20, 38]"
    by (simp add: to_well_formed_def usv_def utf16_def utf16_enc_def go_TrimSpace_def go_is_space_def is_high_def scalar_def)
  moreover have "detectPlatform (lit ''X11; Linux'') = lit ''linux''"
    by (simp add: detectPlatform_def toLowerCase_def lower_char_def startsWith_def js_eval)
  ultimately show ?thesis
    using announced_device [OF key host, of "\<lambda>m. replicate 32 7" "[]" "[]" "[]" False "[32, 0x5F20, 38, 32]" "lit ''X11; Linux''"]
    by simp
qed

end
