(* ===== verification/File_Exchange.thy ===== *)
theory File_Exchange
  imports Query Upload_EndToEnd Conversation Clicks
begin

text \<open>
  A file from the device that sends it to the devices that save it: the download handler \<open>handleDownload\<close>
  (internal/server/server.go), its answer in the page's \<open>fetch\<close>, and what can happen at the hub between the upload and the
  download: other requests of anyone, forms, the clean-up, a restart.
\<close>

section \<open>The download\<close>

record download =
  dl_status :: nat
  dl_type :: jstr
  dl_nosniff :: bool
  dl_disposition :: jstr
  dl_body :: "byte list"

text \<open>\<open>http.Error\<close>.\<close>

definition plain_error :: "nat \<Rightarrow> jstr \<Rightarrow> download" where
  "plain_error status msg =
     \<lparr>dl_status = status, dl_type = lit ''text/plain; charset=utf-8'', dl_nosniff = True, dl_disposition = [],
      dl_body = msg @ [10]\<rparr>"

text \<open>\<open>strings.Map\<close> with the mapping of the handler.\<close>

definition asciiName :: "jstr \<Rightarrow> jstr" where
  "asciiName name =
     or_default (map (\<lambda>c. if 0x20 \<le> c \<and> c \<le> 0x7E \<and> c \<noteq> 34 \<and> c \<noteq> 92 then c else 95) (usv name)) (lit ''download'')"

text \<open>\<open>url.PathEscape\<close>.\<close>

definition path_keep :: "byte \<Rightarrow> bool" where
  "path_keep b = (is_alnum b \<or> b \<in> {45, 95, 46, 126, 36, 38, 43, 58, 61, 64})"

definition PathEscape :: "jstr \<Rightarrow> jstr" where
  "PathEscape s = octets_out path_keep False (utf8 (usv s))"

definition disposition :: "jstr \<Rightarrow> jstr" where
  "disposition name =
     lit ''attachment; filename=\"'' @ asciiName name @ lit ''\"; filename*=UTF-8'' @ [39, 39] @ PathEscape name"

text \<open>\<open>strings.TrimPrefix\<close>.\<close>

definition download_id :: "jstr \<Rightarrow> jstr" where
  "download_id path = (if startsWith path (lit ''/api/files/'') then drop 11 path else path)"

definition handleDownload :: "bool \<Rightarrow> jstr \<Rightarrow> jstr \<Rightarrow> server \<Rightarrow> download" where
  "handleDownload auth meth path s =
     (if \<not> auth then plain_error 401 (lit ''pin required'')
      else if meth \<noteq> lit ''GET'' then plain_error 405 (lit ''method not allowed'')
      else
        let i = download_id path in
        if i = [] \<or> 47 \<in> set i \<or> \<not> isHexFileID i then plain_error 404 (lit ''404 page not found'')
        else case files s i of
          None \<Rightarrow> plain_error 404 (lit ''404 page not found'')
        | Some r \<Rightarrow>
            (case disk s (rec_Path r) of
               None \<Rightarrow> plain_error 404 (lit ''404 page not found'')
             | Some c \<Rightarrow>
                 \<lparr>dl_status = 200, dl_type = rec_Mime r, dl_nosniff = True, dl_disposition = disposition (rec_Name r),
                  dl_body = c\<rparr>))"

text \<open>What the page's \<open>fetch\<close> makes of it.\<close>

definition fetched_of :: "download \<Rightarrow> fetched" where
  "fetched_of d = (if ok_status (dl_status d) then Blob (dl_type d) else NotOk)"

section \<open>What happens before the download\<close>

datatype later = ByOthers env_op | ByPage io request

fun run_later :: "later \<Rightarrow> net \<Rightarrow> net" where
  "run_later (ByOthers op) n = run_env op n"
| "run_later (ByPage w r) n = snd (handle w r n)"

text \<open>Under the id there is the file, or nothing any more; no upload, and the id is not given out again.\<close>

definition file_stays :: "byte list \<Rightarrow> jstr \<Rightarrow> server \<Rightarrow> bool" where
  "file_stays c i s \<longleftrightarrow> uploads s i = None \<and> (files s i \<noteq> None \<longrightarrow> disk s (Final i) = Some c)"

lemma stays_serve:
  assumes "server_inv s" and "file_stays c i s" and "io_random w \<noteq> Some i"
  shows "file_stays c i (snd (serve w r s)) \<and> files (snd (serve w r s)) i = files s i"
proof (cases "request_target r = Some i")
  case True
  with assms(2) have "snd (serve w r s) = s"
    by (cases r) (auto simp: file_stays_def serve_def handleUploadSession_def split: option.splits)
  with assms(2) show ?thesis by simp
next
  case False
  with assms(3) have "touches w r \<noteq> Some i" by (cases "request_target r") (auto simp: touches_def)
  with assms(1,2) show ?thesis by (simp add: file_stays_def serve_frame)
qed

lemma stays_form:
  "file_stays c i s \<Longrightarrow> io_random w \<noteq> Some i \<Longrightarrow>
    file_stays c i (snd (handleUpload w meth form s)) \<and> files (snd (handleUpload w meth form s)) i = files s i"
  by (simp add: file_stays_def form_frame)

definition expired :: "nat \<Rightarrow> server \<Rightarrow> jstr \<Rightarrow> bool" where
  "expired ttl s i \<longleftrightarrow> (case files s i of Some r \<Rightarrow> rec_CreatedAt r < clock s - ttl | None \<Rightarrow> False)"

lemma purge_at:
  "uploads s i = None \<Longrightarrow> uploads (purgeExpiredFiles stuck ttl s) i = None"
  "files (purgeExpiredFiles stuck ttl s) i = (if expired ttl s i then None else files s i)"
  "disk (purgeExpiredFiles stuck ttl s) (Final i) = (if expired ttl s i \<and> Final i \<notin> set stuck then None else disk s (Final i))"
  unfolding purgeExpiredFiles_def purgeStaleUploads_def expired_def Let_def by simp_all

lemma stays_purge: "file_stays c i s \<Longrightarrow> file_stays c i (purgeExpiredFiles stuck ttl s)"
  by (auto simp: file_stays_def purge_at)

lemma stays_restart: "file_stays c i (restart stuck s)"
  by (simp add: file_stays_def restart_def)

text \<open>The same behind the network.\<close>

definition available :: "byte list \<Rightarrow> jstr \<Rightarrow> net \<Rightarrow> bool" where
  "available c i n \<longleftrightarrow> net_ready n \<and> file_stays c i (hub n) \<and> i \<notin> set (own_ids n) \<and> i \<notin> set (foreign_ids n)"

fun clears :: "later \<Rightarrow> bool" where
  "clears (ByOthers op) = (\<not> no_purge op)"
| "clears (ByPage w r) = False"

lemma undrawn: "i \<notin> set is \<Longrightarrow> fst (draw is) \<noteq> Some i" "i \<notin> set is \<Longrightarrow> i \<notin> set (snd (draw is))"
  by (cases "is"; auto)+

lemma available_later:
  assumes "available c i n"
  shows "available c i (run_later e n) \<and> (\<not> clears e \<longrightarrow> files (hub (run_later e n)) i = files (hub n) i)"
proof -
  from assms have ready: "net_ready n" and inv: "server_inv (hub n)" and st: "file_stays c i (hub n)"
    and own: "i \<notin> set (own_ids n)" and other: "i \<notin> set (foreign_ids n)"
    by (simp_all add: available_def net_ready_def)
  show ?thesis
  proof (cases e)
    case (ByPage w r)
    from stays_serve [OF inv st, of "w\<lparr>io_random := fst (draw (own_ids n))\<rparr>" r] undrawn [OF own] ByPage own other
      handle_ready [OF ready, of w r]
    show ?thesis by (simp add: available_def handle_def split_beta Let_def)
  next
    case (ByOthers op)
    then have ready': "net_ready (run_later e n)" using run_env_ready [OF ready] by simp
    show ?thesis
    proof (cases op)
      case (Elapse k)
      with ByOthers ready' st own other show ?thesis by (simp add: available_def file_stays_def)
    next
      case (Purge stuck ttl)
      with ByOthers ready' stays_purge [OF st] own other show ?thesis by (simp add: available_def)
    next
      case (Restart stuck)
      with ByOthers ready' stays_restart own other show ?thesis by (simp add: available_def)
    next
      case (Foreign w r)
      from stays_serve [OF inv st, of "w\<lparr>io_random := fst (draw (foreign_ids n))\<rparr>" r] undrawn [OF other] ByOthers Foreign ready' own
      show ?thesis by (simp add: available_def split_beta Let_def)
    next
      case (ForeignForm w form)
      from stays_form [OF st, of "w\<lparr>io_random := fst (draw (foreign_ids n))\<rparr>" "lit ''POST''" form] undrawn [OF other]
        ByOthers ForeignForm ready' own
      show ?thesis by (simp add: available_def split_beta Let_def)
    qed
  qed
qed

lemma available_run:
  assumes "available c i n"
  shows "available c i (fold run_later es n)
    \<and> ((\<forall>e \<in> set es. \<not> clears e) \<longrightarrow> files (hub (fold run_later es n)) i = files (hub n) i)"
  using assms
proof (induction es arbitrary: n)
  case (Cons e es)
  from available_later [OF Cons.prems, of e] Cons.IH [of "run_later e n"] show ?case by simp
qed simp

section \<open>The uploaded file\<close>

lemma complete_available:
  assumes "net_ready n" and "net_view n i = Complete c"
  shows "available c i n \<and> files (hub n) i \<noteq> None \<and> isHexFileID i"
proof -
  from assms(1) have inv: "server_inv (hub n)" and un: "\<forall>j \<in> set (own_ids n @ foreign_ids n). unused (hub n) j"
    by (simp_all add: net_ready_def)
  from assms(2) obtain r where r: "uploads (hub n) i = None" "files (hub n) i = Some r" "disk (hub n) (Final i) = Some c"
    by (auto simp: net_view_def slot_at_def split: option.splits)
  with server_inv_file [OF inv r(2)] un assms(1) show ?thesis
    by (auto simp: available_def file_stays_def file_ok_def unused_def)
qed

lemma hex_no_slash: "isHexFileID i \<Longrightarrow> i \<noteq> [] \<and> 47 \<notin> set i"
  by (auto simp: isHexFileID_def list_all_iff is_hex_def)

lemma download_available:
  assumes "available c i n" and "isHexFileID i"
  shows "(let d = handleDownload auth (lit ''GET'') (lit ''/api/files/'' @ i) (hub n) in
    if \<not> auth then dl_status d = 401
    else if files (hub n) i = None then dl_status d = 404 else dl_status d = 200 \<and> dl_body d = c)"
proof -
  have path: "download_id (lit ''/api/files/'' @ i) = i"
    by (simp add: download_id_def startsWith_def js_eval)
  from assms(1) have inv: "server_inv (hub n)" and st: "file_stays c i (hub n)"
    by (simp_all add: available_def net_ready_def)
  show ?thesis
  proof (cases "files (hub n) i")
    case None
    then show ?thesis by (simp add: handleDownload_def path assms(2) plain_error_def Let_def)
  next
    case (Some r)
    with server_inv_file [OF inv Some] st have "disk (hub n) (rec_Path r) = Some c" by (simp add: file_ok_def file_stays_def)
    with Some show ?thesis
      using hex_no_slash [OF assms(2)] by (simp add: handleDownload_def path assms(2) plain_error_def Let_def)
  qed
qed

section \<open>The message\<close>

lemma hex_text: "isHexFileID i \<Longrightarrow> go_text i = i"
proof -
  have "\<forall>c \<in> set s. c < 0x80 \<Longrightarrow> well_formed s" for s
    by (induction s rule: well_formed.induct) (auto simp: high_surrogate_def low_surrogate_def)
  moreover assume "isHexFileID i"
  then have "\<forall>c \<in> set i. c < 0x80" by (auto simp: isHexFileID_def list_all_iff is_hex_def)
  ultimately show ?thesis by simp
qed

lemma hex_file_url: "isHexFileID i \<Longrightarrow> safeFileURL (Some i) = Some (lit ''/api/files/'' @ i)"
  by (simp add: safeFileURL_Some is_file_id_def isHexFileID_def)

lemma accepted_payload:
  assumes "accept_message parse unix cl inc s = Some m"
  shows "msg_payload m = in_payload inc" and "msg_from m = Some (cl_device cl)"
  using assms by (auto simp: accept_message_def chat_message_def split: if_splits option.splits)

lemma file_frame:
  assumes "sent_payload fr = file_payload f" and "isHexFileID (fileId f)"
  shows "pl_fileId (in_payload (read_frame fr)) = Some (fileId f)"
    and "kind (in_payload (read_frame fr)) \<in> {lit ''file'', lit ''image''}"
proof -
  have "fileId f \<noteq> []" using hex_no_slash [OF assms(2)] by simp
  then show "pl_fileId (in_payload (read_frame fr)) = Some (fileId f)"
    using hex_text [OF assms(2)] by (simp add: read_frame_def assms(1) file_payload_def go_opt_def)
  have "go_text (lit ''file'') = lit ''file''" "go_text (lit ''image'') = lit ''image''"
    by (simp_all add: high_surrogate_def low_surrogate_def js_eval)
  then show "kind (in_payload (read_frame fr)) \<in> {lit ''file'', lit ''image''}"
    by (simp add: read_frame_def assms(1) file_payload_def)
qed

text \<open>The address behind the shown message: of the link of a file, of the picture of an image.\<close>

definition shown_address :: "msg_payload \<Rightarrow> jstr option" where
  "shown_address p =
     (if kind p = lit ''file'' then attr (behind (lit ''<a'') (bodyHTML p)) (lit ''href'')
      else attr (behind (lit ''<img'') (bodyHTML p)) (lit ''src''))"

lemma shown_file_address:
  assumes "kind p \<in> {lit ''file'', lit ''image''}" and "safeFileURL (pl_fileId p) = Some url"
  shows "shown_address p = Some url"
proof (cases "kind p = lit ''file''")
  case True
  then show ?thesis using body_of_kind(1) [OF True assms(2)] by (simp add: shown_address_def attr_facts)
next
  case False
  with assms(1) have "kind p = lit ''image''" by simp
  with False show ?thesis using body_of_kind(2) [OF _ assms(2)] by (simp add: shown_address_def attr_facts)
qed

section \<open>Properties\<close>

text \<open>
  C3. Who gets the message gets the file.  When \<open>uploadResumable\<close> has returned a file, however the network treated it, and
  the hub has accepted the message the page sends with it, the message shown to every receiver leads to an address.  A \<open>GET\<close> of it, however much later and
  whatever anyone uploads, asks for or cancels in between, is answered with 401 if the hub does not accept the receiver's session at that moment (as after a
  restart of a hub with a PIN, which keeps no sessions); otherwise with exactly the octets of the
  sender's file, or, once the clean-up or a restart has removed it, with 404: never with anything else.  Without clean-up
  and restart an accepted receiver gets the file.  The assumptions on the upload are those of exactness: ids do not repeat and nobody else uses the page's
  (\<open>net_ready\<close>), and a saved session is one of this very file (\<open>resumable\<close>).
\<close>

theorem file_arrives:
  assumes "net_ready n" and "resumable net_owned net_view file st n"
    and "uploadResumable net_ask net_nap file st n = Some out" and "result out = Inr f"
    and "sent_payload fr = file_payload f" and "accept_message parse unix cl (read_frame fr) s = Some m"
  shows "\<exists>url. shown_address (msg_payload m) = Some url \<and> safeFileURL (pl_fileId (msg_payload m)) = Some url
    \<and> (let d = handleDownload auth (lit ''GET'') url (hub (fold run_later es (final_world out))) in
        if \<not> auth then dl_status d = 401
        else (dl_status d = 200 \<and> dl_body d = f_content file \<or> dl_status d = 404 \<and> (\<exists>e \<in> set es. clears e)))"
proof -
  have ready: "net_ready (final_world out)" using page.stays_resumable [OF assms(1-3)] by simp
  have view: "net_view (final_world out) (fileId f) = Complete (f_content file)"
    using page.uploads_exactly [OF assms(1-4)] by simp
  from complete_available [OF ready view] have av: "available (f_content file) (fileId f) (final_world out)"
    and there: "files (hub (final_world out)) (fileId f) \<noteq> None" and hex: "isHexFileID (fileId f)" by simp_all
  let ?url = "lit ''/api/files/'' @ fileId f" and ?n = "fold run_later es (final_world out)"
  have safe: "safeFileURL (pl_fileId (msg_payload m)) = Some ?url"
    using file_frame(1) [OF assms(5) hex] hex_file_url [OF hex] accepted_payload(1) [OF assms(6)] by simp
  have shown: "shown_address (msg_payload m) = Some ?url"
    using file_frame(2) [OF assms(5) hex] accepted_payload(1) [OF assms(6)] safe by (intro shown_file_address) simp_all
  from available_run [OF av, of es] have av': "available (f_content file) (fileId f) ?n"
    and kept: "(\<forall>e \<in> set es. \<not> clears e) \<Longrightarrow> files (hub ?n) (fileId f) = files (hub (final_world out)) (fileId f)"
    by simp_all
  from kept there have "files (hub ?n) (fileId f) = None \<Longrightarrow> \<exists>e \<in> set es. clears e" by force
  with download_available [OF av' hex, of auth] have
    "let d = handleDownload auth (lit ''GET'') ?url (hub ?n) in
      if \<not> auth then dl_status d = 401
      else (dl_status d = 200 \<and> dl_body d = f_content file \<or> dl_status d = 404 \<and> (\<exists>e \<in> set es. clears e))"
    by (cases "files (hub ?n) (fileId f) = None"; cases auth) (auto simp: Let_def)
  with safe shown show ?thesis by blast
qed

text \<open>The demonstration upload, a message to everyone, and some time before the download.\<close>

theorem file_arrives_witness:
  "\<exists>out url. uploadResumable net_ask net_nap demo_file demo_storage demo_net = Some out
    \<and> dl_body (handleDownload True (lit ''GET'') url (hub (fold run_later [ByOthers (Elapse 5), ByPage demo_io (ReqDelete demo_id)] (final_world out))))
      = [1, 2, 3]"
proof -
  obtain out f where run: "uploadResumable net_ask net_nap demo_file demo_storage demo_net = Some out" "result out = Inr f"
    using demo_run by blast
  define fr where "fr = \<lparr>sent_on = 0, sent_payload = file_payload f, sent_to = None\<rparr>"
  have "go_text (lit ''file'') \<noteq> []" "go_text (lit ''image'') \<noteq> []" by (simp_all add: js_eval)
  then have "kind (in_payload (read_frame fr)) \<noteq> []" by (simp add: fr_def read_frame_def file_payload_def)
  then have "\<exists>m. accept_message Some 100 \<lparr>cl_device = dev_a, cl_live = True, cl_queue = [], cl_sent = []\<rparr> (read_frame fr) whisper_room = Some m"
    by (simp add: accept_message_def sanitizeRecipients_def fr_def read_frame_def)
  then obtain m where m: "accept_message Some 100 \<lparr>cl_device = dev_a, cl_live = True, cl_queue = [], cl_sent = []\<rparr> (read_frame fr) whisper_room = Some m" ..
  have "sent_payload fr = file_payload f" by (simp add: fr_def)
  from file_arrives [OF demo_ready demo_resumable run this m, of True "[ByOthers (Elapse 5), ByPage demo_io (ReqDelete demo_id)]"] run(1)
  show ?thesis by (auto simp: demo_file_def Let_def simp del: fold_simps)
qed

section \<open>Names in a header\<close>

lemma path_keep: "pct_keep path_keep" "path_keep b \<Longrightarrow> 0x20 < b \<and> b < 0x7F"
  by (auto simp: pct_keep_def path_keep_def is_alnum_def)

lemma upper_hex_visible: "d < 16 \<Longrightarrow> 0x20 < upper_hex d \<and> upper_hex d < 0x7F"
  by (auto simp: upper_hex_def)

definition visible :: "jstr \<Rightarrow> bool" where
  "visible s = list_all (\<lambda>c. 0x20 \<le> c \<and> c \<le> 0x7E) s"

lemma visible_append [simp]: "visible (s @ t) \<longleftrightarrow> visible s \<and> visible t"
  by (simp add: visible_def)

lemma visible_escaped: "visible (PathEscape name)"
proof -
  have "visible (octet_out path_keep False b)" if "b < 256" for b
  proof -
    have "b div 16 < 16" using that by auto
    from upper_hex_visible [OF this] upper_hex_visible [of "b mod 16"] path_keep(2) [of b] show ?thesis
      by (auto simp: visible_def octet_out_def)
  qed
  with utf8_bytes [OF usv_scalar, of name] show ?thesis
    unfolding PathEscape_def octets_out_def visible_def by (auto simp: list_all_iff)
qed

lemma asciiName_quotable: "visible (asciiName name) \<and> 34 \<notin> set (asciiName name) \<and> 92 \<notin> set (asciiName name)"
proof -
  define s where "s = map (\<lambda>c. if 0x20 \<le> c \<and> c \<le> 0x7E \<and> c \<noteq> 34 \<and> c \<noteq> 92 then c else 95) (usv name)"
  have "visible s \<and> 34 \<notin> set s \<and> 92 \<notin> set s" by (auto simp: s_def visible_def list_all_iff)
  moreover have "visible (lit ''download'') \<and> 34 \<notin> set (lit ''download'') \<and> 92 \<notin> set (lit ''download'')"
    by (simp add: visible_def js_eval)
  ultimately show ?thesis by (simp add: asciiName_def s_def [symmetric] or_default_def)
qed

text \<open>
  C37. The name of a file does no harm in the header of its download.  Whatever its sender called it, the header is
  visible ASCII on one line, the quotation mark that ends the quoted name is the handler's own, and a
  browser that decodes the extended parameter has the name as it was sent.
\<close>

theorem download_header_safe:
  "visible (disposition name)
    \<and> (\<exists>quoted. 34 \<notin> set quoted \<and> 92 \<notin> set quoted
        \<and> disposition name = lit ''attachment; filename='' @ 34 # quoted @ 34 # lit ''; filename*=UTF-8'' @ [39, 39] @ PathEscape name)
    \<and> decodeURIComponent (PathEscape name) = Some (to_well_formed name)"
proof (intro conjI)
  show "visible (disposition name)"
    using asciiName_quotable visible_escaped by (simp add: disposition_def) (simp add: visible_def js_eval)
  show "\<exists>quoted. 34 \<notin> set quoted \<and> 92 \<notin> set quoted
      \<and> disposition name = lit ''attachment; filename='' @ 34 # quoted @ 34 # lit ''; filename*=UTF-8'' @ [39, 39] @ PathEscape name"
    using asciiName_quotable by (intro exI [of _ "asciiName name"]) (simp add: disposition_def js_eval)
  show "decodeURIComponent (PathEscape name) = Some (to_well_formed name)"
    using decode_text [OF path_keep(1), of "usv name" False] usv_scalar
    by (simp add: PathEscape_def octets_out_def to_well_formed_def)
qed

section \<open>Forms\<close>

text \<open>
  What a form did: it registered exactly the body of a part, or nothing.  The handler ignores two errors.  When the \<open>Close\<close> of the file fails, the file may hold
  less than was registered; when the removal after an error fails, what was written stays in the directory, without an entry.
\<close>

definition form_saved :: "io \<Rightarrow> form_part \<Rightarrow> file_resp \<Rightarrow> server \<Rightarrow> server \<Rightarrow> bool" where
  "form_saved w p f s s' \<longleftrightarrow>
     io_random w = Some (fileId f) \<and> length (part_body p) \<le> maxUploadBytes s
     \<and> (\<exists>c. disk s' = (disk s)(Final (fileId f) := Some c) \<and> (\<exists>k. c = take k (part_body p))
          \<and> (io_close w = None \<longrightarrow> c = part_body p)) \<and> uploads s' = uploads s
     \<and> files s' = (files s)(fileId f := Some \<lparr>rec_Name = fr_name f, rec_Size = length (part_body p), rec_Mime = fr_mime f,
         rec_Path = Final (fileId f), rec_CreatedAt = clock s\<rparr>)
     \<and> fr_name f = sanitizeFileName (part_filename p) \<and> fr_size f = length (part_body p)"

definition form_refused :: "io \<Rightarrow> server \<Rightarrow> server \<Rightarrow> bool" where
  "form_refused w s s' \<longleftrightarrow>
     files s' = files s \<and> uploads s' = uploads s
     \<and> (disk s' = disk s \<or> (\<exists>i c. io_random w = Some i \<and> disk s' = (disk s)(Final i := c) \<and> (io_remove w \<longrightarrow> c = None)))"

definition form_outcome :: "io \<Rightarrow> form_part list \<Rightarrow> server \<Rightarrow> (nat \<times> (jstr + file_resp)) \<times> server \<Rightarrow> bool" where
  "form_outcome w ps s out \<longleftrightarrow>
     (case out of
        ((status, Inr f), s') \<Rightarrow> status = 200 \<and> (\<exists>p \<in> set ps. part_field p = lit ''file'' \<and> form_saved w p f s s')
      | ((status, Inl msg), s') \<Rightarrow> status \<in> {400, 401, 405, 413, 500} \<and> form_refused w s s')"

lemma save_part_outcome: "part_field p = lit ''file'' \<Longrightarrow> p \<in> set ps \<Longrightarrow> form_outcome w ps s (save_part w p s)"
proof (cases "io_random w")
  case (Some i)
  assume p: "part_field p = lit ''file''" "p \<in> set ps"
  let ?copied = "take (maxUploadBytes s + 1) (part_arrives p)"
  define stored where "stored = (case io_close w of None \<Rightarrow> ?copied | Some k \<Rightarrow> take k ?copied)"
  have refused: "form_refused w s (s\<lparr>disk := (disk s)(Final i := c)\<rparr>)" if "io_remove w \<longrightarrow> c = None" for c
    using Some that unfolding form_refused_def by auto
  consider "\<not> io_create w" | "io_create w" "length ?copied > maxUploadBytes s"
    | "io_create w" "length ?copied \<le> maxUploadBytes s" "part_end p \<noteq> CopyDone"
    | "io_create w" "length ?copied \<le> maxUploadBytes s" "part_end p = CopyDone" by linarith
  then show ?thesis
  proof cases
    case 4
    then have body: "part_arrives p = part_body p" "length (part_body p) \<le> maxUploadBytes s" "?copied = part_body p"
      by (auto simp: part_arrives_def min_def split: if_splits)
    then have leading: "\<exists>k. stored = take k (part_body p)" "io_close w = None \<longrightarrow> stored = part_body p"
      by (auto simp: stored_def intro: exI [of _ "length (part_body p)"] split: option.split)
    let ?f = "\<lparr>fileId = i, fr_name = sanitizeFileName (part_filename p), fr_size = length (part_body p),
      fr_mime = normalizeMime (part_type p)\<rparr>"
    let ?s = "snd (registerFile i (sanitizeFileName (part_filename p)) (normalizeMime (part_type p)) (Final i)
      (length (part_body p)) (s\<lparr>disk := (disk s)(Final i := Some stored)\<rparr>))"
    have small: "take (Suc (maxUploadBytes s)) (part_body p) = part_body p" using body(2) by simp
    have st: "stored = (case io_close w of None \<Rightarrow> part_body p | Some k \<Rightarrow> take k (part_body p))"
      by (cases "io_close w") (simp_all add: stored_def body(1) small)
    have "save_part w p s = ((200, Inr ?f), ?s)"
      using 4(1,3) Some body(2)
      by (cases "io_close w") (simp_all add: save_part_def st body(1) small registerFile_def Let_def)
    moreover have "form_saved w p ?f s ?s"
      unfolding form_saved_def using Some body(2) leading
      by (intro conjI exI [of _ stored]) (simp_all add: registerFile_def)
    ultimately show ?thesis using p by (auto simp: form_outcome_def)
  next
    case 3
    then have "length (part_arrives p) < maxUploadBytes s + 1" by (auto simp: min_def split: if_splits)
    with 3 Some refused show ?thesis
      by (auto simp: save_part_def form_outcome_def Let_def split: copy_end.split)
  next
    case 2
    with Some refused show ?thesis by (simp add: save_part_def form_outcome_def Let_def)
  qed (use Some in \<open>auto simp: save_part_def form_outcome_def form_refused_def Let_def\<close>)
qed (simp add: save_part_def form_outcome_def form_refused_def)

fun parts_of :: "form_step list \<Rightarrow> form_part list" where
  "parts_of [] = []"
| "parts_of (FormBroken # ps) = []"
| "parts_of (FormPart p # ps) = p # parts_of ps"

lemma form_outcome_more: "form_outcome w ps s out \<Longrightarrow> set ps \<subseteq> set qs \<Longrightarrow> form_outcome w qs s out"
  unfolding form_outcome_def by (auto split: prod.splits sum.splits)

lemma upload_parts_outcome: "form_outcome w (parts_of ps) s (upload_parts w ps s)"
proof (induction w ps s rule: upload_parts.induct)
  case (3 w p ps s)
  show ?case
  proof (cases "part_field p = lit ''file''")
    case True
    then show ?thesis by (simp add: save_part_outcome)
  next
    case False
    with form_outcome_more [OF 3 [OF False], of "p # parts_of ps"] show ?thesis by auto
  qed
qed (simp_all add: form_outcome_def form_refused_def)

text \<open>
  C32. The upload of a form is all or nothing, as far as the file system carries out what it is told.  If it is answered with a file, the hub has registered, under the new id and
  with its length, a part of the form named \<open>file\<close>, no larger than allowed, and stored exactly its body, or a leading piece of it if the \<open>Close\<close> of the file failed, an error
  the handler ignores.  Otherwise the answer is an error, no
  file is registered, and nothing of what was read stays in the directory, whether the body was too large, broke off, or could not be written,
  unless the removal failed, which is ignored too.
\<close>

theorem form_all_or_nothing:
  "form_outcome w (case form of None \<Rightarrow> [] | Some ps \<Rightarrow> parts_of ps) s (handleUpload w meth form s)"
  using upload_parts_outcome [of w _ s]
  by (auto simp: handleUpload_def form_outcome_def [of w "[]"] form_refused_def split: option.split)
    (simp_all add: form_outcome_def form_refused_def)

end
