(* ===== verification/Layout.thy ===== *)
theory Layout
  imports Complex_Main
begin

text \<open>
  The layout of the phone page (web/static/app.js: \<open>initMobileViewportFix\<close>): how high the input bar is and how far
  the software keyboard pushes it up, kept in two style properties.  Lengths are in CSS pixels, which need not be
  whole.
\<close>

section \<open>State\<close>

text \<open>What the browser reports: the height of the input bar, and the visual viewport if there is one.\<close>

record visual_viewport =
  vv_height :: rat
  vv_offsetTop :: rat

record screen =
  sc_inChat :: bool
  sc_composer :: "rat option"
  sc_innerHeight :: rat
  sc_visual :: "visual_viewport option"
  sc_observer :: bool

text \<open>What \<open>update\<close> is called for.\<close>

datatype trigger = WindowResize | OrientationChange | VisualResize | VisualScroll | ComposerResize

record viewport_fix =
  vf_inited :: bool
  vf_composer_offset :: "int option"
  vf_keyboard_offset :: "rat option"
  vf_listeners :: "trigger list"

definition viewport_start :: viewport_fix where
  "viewport_start = \<lparr>vf_inited = False, vf_composer_offset = None, vf_keyboard_offset = None, vf_listeners = []\<rparr>"

section \<open>Operations\<close>

text \<open>\<open>update\<close>; \<open>h\<close> is the height of the input bar.\<close>

definition viewport_update :: "rat \<Rightarrow> screen \<Rightarrow> viewport_fix \<Rightarrow> viewport_fix" where
  "viewport_update h sc v =
     (if \<not> sc_inChat sc then v
      else
        let keyboard = (case sc_visual sc of
              None \<Rightarrow> 0
            | Some vv \<Rightarrow> max 0 (sc_innerHeight sc - vv_height vv - vv_offsetTop vv))
        in v\<lparr>vf_composer_offset := Some \<lceil>h + 12\<rceil>, vf_keyboard_offset := Some keyboard\<rparr>)"

definition initMobileViewportFix :: "screen \<Rightarrow> viewport_fix \<Rightarrow> viewport_fix" where
  "initMobileViewportFix sc v =
     (if vf_inited v then v
      else case sc_composer sc of
        None \<Rightarrow> v
      | Some h \<Rightarrow>
          let v1 = viewport_update h sc (v\<lparr>vf_inited := True\<rparr>)
          in v1\<lparr>vf_listeners := vf_listeners v1 @ [WindowResize, OrientationChange]
                @ (if sc_visual sc = None then [] else [VisualResize, VisualScroll])
                @ (if sc_observer sc then [ComposerResize] else [])\<rparr>)"

text \<open>One of the events; the screen is what it is then.\<close>

definition viewport_event :: "trigger \<Rightarrow> screen \<Rightarrow> viewport_fix \<Rightarrow> viewport_fix" where
  "viewport_event t sc v =
     (case sc_composer sc of
        None \<Rightarrow> v
      | Some h \<Rightarrow> foldr (\<lambda>l. if l = t then viewport_update h sc else id) (vf_listeners v) v)"

section \<open>What the style sheet can rely on\<close>

lemma update_frame [simp]:
  "vf_inited (viewport_update h sc v) = vf_inited v" "vf_listeners (viewport_update h sc v) = vf_listeners v"
  by (simp_all add: viewport_update_def Let_def)

lemma update_idem [simp]: "viewport_update h sc (viewport_update h sc v) = viewport_update h sc v"
  by (simp add: viewport_update_def Let_def)

text \<open>Listeners are added once, however often the chat is entered.\<close>

definition fix_ok :: "viewport_fix \<Rightarrow> bool" where
  "fix_ok v \<longleftrightarrow>
     (\<not> vf_inited v \<longrightarrow> v = viewport_start) \<and> distinct (vf_listeners v)
     \<and> (\<forall>k. vf_keyboard_offset v = Some k \<longrightarrow> 0 \<le> k)
     \<and> (vf_composer_offset v = None \<longleftrightarrow> vf_keyboard_offset v = None)"

lemma fix_ok_start: "fix_ok viewport_start"
  by (simp add: fix_ok_def viewport_start_def)

lemma fix_ok_update: "fix_ok v \<Longrightarrow> vf_inited v \<Longrightarrow> fix_ok (viewport_update h sc v)"
  by (auto simp: fix_ok_def viewport_update_def Let_def split: option.splits)

lemma fix_ok_init: "fix_ok v \<Longrightarrow> fix_ok (initMobileViewportFix sc v)"
  by (auto simp: fix_ok_def initMobileViewportFix_def viewport_update_def viewport_start_def Let_def split: option.splits)

lemma event_once:
  assumes "distinct ls"
  shows "foldr (\<lambda>l. if l = t then viewport_update h sc else id) ls v = (if t \<in> set ls then viewport_update h sc v else v)"
  using assms by (induction ls) auto

lemma fix_ok_event: "fix_ok v \<Longrightarrow> fix_ok (viewport_event t sc v)"
proof (cases "sc_composer sc")
  case (Some h)
  assume ok: "fix_ok v"
  then have "viewport_event t sc v = (if t \<in> set (vf_listeners v) then viewport_update h sc v else v)"
    by (simp add: viewport_event_def Some event_once fix_ok_def)
  moreover have "vf_inited v" if "t \<in> set (vf_listeners v)"
    using ok that by (auto simp: fix_ok_def viewport_start_def)
  ultimately show ?thesis using ok fix_ok_update by auto
qed (simp add: viewport_event_def)

text \<open>
  The space reserved for the input bar always holds it with its margin, with less than a pixel to spare, and the bar is lifted by what the
  keyboard hides of the window, and never pushed down.
\<close>

lemma composer_fits:
  assumes "vf_composer_offset (viewport_update h sc v) = Some px" and "sc_inChat sc"
  shows "h + 12 \<le> rat_of_int px \<and> rat_of_int px < h + 13"
  using assms ceiling_correct [of "h + 12"] by (auto simp: viewport_update_def Let_def)

lemma keyboard_lift:
  assumes "sc_inChat sc" and "sc_visual sc = Some vv"
  shows "\<exists>k. vf_keyboard_offset (viewport_update h sc v) = Some k \<and> 0 \<le> k
    \<and> sc_innerHeight sc \<le> k + vv_height vv + vv_offsetTop vv"
  using assms by (auto simp: viewport_update_def Let_def)

lemma init_once: "initMobileViewportFix sc' (initMobileViewportFix sc v) = initMobileViewportFix sc v" if "sc_composer sc \<noteq> None"
  using that by (auto simp: initMobileViewportFix_def Let_def)

end
