(* ===== verification/Client_Address.thy ===== *)
theory Client_Address
  imports Auth
begin

text \<open>
  The address a request counts for (internal/server/netinfo.go: \<open>peerIP\<close>, \<open>fromProxy\<close>, \<open>rawClientIP\<close>, \<open>isHTTPS\<close>), behind
  reverse proxies or without, and what it means for the limit of wrong guesses.  The reading of an address
  (\<open>net.ParseIP\<close>) is the parameter \<open>parse\<close>, the networks of trusted proxies the predicate \<open>trusted\<close>: what is said here holds
  for every reading and every setting.  Theories Ip and Proxies define both.
\<close>

section \<open>Requests\<close>

text \<open>The headers are lists of their field lines, in order.\<close>

record http_request =
  rq_remote :: jstr
  rq_tls :: bool
  rq_forwarded_for :: "jstr list"
  rq_real_ip :: "jstr list"
  rq_forwarded_proto :: "jstr list"

text \<open>\<open>Header.Get\<close>: the first line, or the empty string.\<close>

definition header_get :: "jstr list \<Rightarrow> jstr" where
  "header_get lines = (case lines of [] \<Rightarrow> [] | l # _ \<Rightarrow> l)"

text \<open>\<open>net.SplitHostPort\<close>; \<open>None\<close> is its error.\<close>

definition last_colon :: "jstr \<Rightarrow> (jstr \<times> jstr) option" where
  "last_colon s =
     (if 58 \<notin> set s then None
      else Some (rev (drop 1 (dropWhile (\<lambda>c. c \<noteq> 58) (rev s))), rev (takeWhile (\<lambda>c. c \<noteq> 58) (rev s))))"

definition SplitHostPort :: "jstr \<Rightarrow> (jstr \<times> jstr) option" where
  "SplitHostPort s =
     (case last_colon s of
        None \<Rightarrow> None
      | Some (front, port) \<Rightarrow>
          if s \<noteq> [] \<and> hd s = 91
          then (if 93 \<notin> set s then None
                else
                  let inner = takeWhile (\<lambda>c. c \<noteq> 93) (tl s) in
                  if front = 91 # inner @ [93] \<and> 91 \<notin> set inner \<and> 91 \<notin> set port \<and> 93 \<notin> set port
                  then Some (inner, port) else None)
          else if 58 \<in> set front \<or> 91 \<in> set s \<or> 93 \<in> set s then None
          else Some (front, port))"

text \<open>\<open>strings.Trim(host, "[]")\<close>.\<close>

definition trim_brackets :: "jstr \<Rightarrow> jstr" where
  "trim_brackets s =
     rev (dropWhile (\<lambda>c. c = 91 \<or> c = 93) (rev (dropWhile (\<lambda>c. c = 91 \<or> c = 93) s)))"

definition peerIP :: "http_request \<Rightarrow> jstr" where
  "peerIP rq =
     (case SplitHostPort (rq_remote rq) of
        None \<Rightarrow> go_TrimSpace (rq_remote rq)
      | Some (host, port) \<Rightarrow> trim_brackets host)"

definition fromProxy :: "(jstr \<Rightarrow> 'ip option) \<Rightarrow> ('ip \<Rightarrow> bool) \<Rightarrow> http_request \<Rightarrow> bool" where
  "fromProxy parse trusted rq = (case parse (peerIP rq) of None \<Rightarrow> False | Some ip \<Rightarrow> trusted ip)"

text \<open>The loop over the hops, from the last to the first; \<open>None\<close> when it is left without a result.\<close>

fun pick_hop :: "(jstr \<Rightarrow> 'ip option) \<Rightarrow> ('ip \<Rightarrow> bool) \<Rightarrow> jstr list \<Rightarrow> jstr option" where
  "pick_hop parse trusted [] = None"
| "pick_hop parse trusted (h # hs) =
     (let hop = go_TrimSpace h in
      case parse hop of
        None \<Rightarrow> None
      | Some ip \<Rightarrow> if \<not> trusted ip \<or> hs = [] then Some hop else pick_hop parse trusted hs)"

definition rawClientIP :: "(jstr \<Rightarrow> 'ip option) \<Rightarrow> ('ip \<Rightarrow> bool) \<Rightarrow> http_request \<Rightarrow> jstr" where
  "rawClientIP parse trusted rq =
     (if \<not> fromProxy parse trusted rq then peerIP rq
      else
        let xff = header_get (rq_forwarded_for rq);
            xri = go_TrimSpace (header_get (rq_real_ip rq))
        in case (if xff = [] then None else pick_hop parse trusted (rev (splitOn 44 xff))) of
             Some hop \<Rightarrow> hop
           | None \<Rightarrow> if parse xri \<noteq> None then xri else peerIP rq)"

definition isHTTPS :: "(jstr \<Rightarrow> 'ip option) \<Rightarrow> ('ip \<Rightarrow> bool) \<Rightarrow> http_request \<Rightarrow> bool" where
  "isHTTPS parse trusted rq =
     (rq_tls rq \<or> fromProxy parse trusted rq
        \<and> toLowerCase (go_TrimSpace (header_get (rq_forwarded_proto rq))) = lit ''https'')"

section \<open>A chain of proxies\<close>

text \<open>
  Each proxy appends the address it was called from to the header.  What the client itself wrote there, if anything, is
  \<open>forged\<close>: any text, and any number of entries.
\<close>

definition plain_hop :: "jstr \<Rightarrow> bool" where
  "plain_hop h \<longleftrightarrow> 44 \<notin> set h \<and> h \<noteq> [] \<and> go_TrimSpace h = h"


definition client_hop :: "(jstr \<Rightarrow> 'ip option) \<Rightarrow> ('ip \<Rightarrow> bool) \<Rightarrow> jstr \<Rightarrow> bool" where
  "client_hop parse trusted h \<longleftrightarrow> plain_hop h \<and> (\<exists>ip. parse h = Some ip \<and> \<not> trusted ip)"








lemma trim_blank [simp]: "go_TrimSpace (32 # s) = go_TrimSpace s"
  by (simp add: go_TrimSpace_def go_is_space_def)


lemma pick_client:
  assumes "client_hop parse trusted c" and "go_TrimSpace h = c"
  shows "pick_hop parse trusted (h # hs) = Some c"
  using assms by (auto simp: client_hop_def)



section \<open>The limit of guesses\<close>









text \<open>
  That proxies append to the line the client sent is essential.  Only the first line of the header is read, so a proxy that
  adds a line of its own behind the client's lets the client choose its address.
\<close>

lemma own_line_ignored:
  assumes "fromProxy parse trusted rq" and "client_hop parse trusted claimed" and "rq_forwarded_for rq = claimed # [added]"
  shows "rawClientIP parse trusted rq = claimed"
  using assms pick_client [OF assms(2), of claimed "[]"]
  by (auto simp: rawClientIP_def header_get_def client_hop_def plain_hop_def splitOn_plain)







end
