(* ===== verification/Ip.thy ===== *)
theory Ip
  imports Uri Identity "HOL-Library.Word"
begin

text \<open>
  Internet addresses as Go's package \<open>net\<close> has them (\<open>net.IP\<close>, used by internal/netutil/lanip.go,
  internal/server/netinfo.go and internal/config/config.go): reading an address (\<open>ParseIP\<close>, \<open>ParseCIDR\<close>), writing it
  (\<open>IP.String\<close>), and networks (\<open>IPNet.Contains\<close>).  This is the standard library's behaviour the hub relies on;
  an address is a list of 4 or 16 octets, an octet is a byte of the machine.
\<close>

unbundle bit_operations_syntax

type_synonym octet = "8 word"
type_synonym ip = "octet list"

section \<open>Reading\<close>

text \<open>
  The four fields of an address of version 4: \<open>val\<close> is the number read so far of the current field, \<open>len\<close> the number of
  its digits.  No field is empty, above 255, or has a leading zero.
\<close>

fun v4_fields :: "nat \<Rightarrow> nat \<Rightarrow> octet list \<Rightarrow> jstr \<Rightarrow> ip option" where
  "v4_fields val len fs [] = (if length fs < 3 then None else Some (fs @ [of_nat val]))"
| "v4_fields val len fs (c # s) =
     (if is_digit c then
        if len = 1 \<and> val = 0 then None
        else if 10 * val + (c - 48) > 255 then None
        else v4_fields (10 * val + (c - 48)) (Suc len) fs s
      else if c = 46 then
        if len = 0 \<or> s = [] \<or> length fs = 3 then None
        else v4_fields 0 0 (fs @ [of_nat val]) s
      else None)"

definition parseIPv4 :: "jstr \<Rightarrow> ip option" where
  "parseIPv4 s = v4_fields 0 0 [] s"

definition hexit :: "jchar \<Rightarrow> bool" where
  "hexit c = (pct_value c \<noteq> None)"

text \<open>One group of an address of version 6: one to four hexadecimal digits, and what follows them.\<close>

definition v6_group :: "jstr \<Rightarrow> (nat \<times> jstr) option" where
  "v6_group s =
     (let ds = takeWhile hexit s in
      if ds = [] \<or> 4 < length ds then None
      else Some (foldl (\<lambda>n c. 16 * n + the (pct_value c)) 0 ds, dropWhile hexit s))"

text \<open>
  The loop over the groups.  \<open>ellipsis\<close> is the place of the \<open>::\<close> among the octets read.  The result is the octets, that
  place, and what is left of the text.
\<close>

function v6_loop :: "nat option \<Rightarrow> ip \<Rightarrow> jstr \<Rightarrow> (ip \<times> nat option \<times> jstr) option" where
  "v6_loop ellipsis ip s =
     (if 16 \<le> length ip then Some (ip, ellipsis, s)
      else case v6_group s of
        None \<Rightarrow> None
      | Some (n, rest) \<Rightarrow>
          if rest \<noteq> [] \<and> hd rest = 46 then
            (if ellipsis = None \<and> length ip \<noteq> 12 \<or> 12 < length ip then None
             else map_option (\<lambda>v4. (ip @ v4, ellipsis, [])) (parseIPv4 s))
          else
            let ip' = ip @ [of_nat (n div 256), of_nat n] in
            case rest of
              [] \<Rightarrow> Some (ip', ellipsis, [])
            | c # s' \<Rightarrow>
                if c \<noteq> 58 \<or> s' = [] then None
                else if hd s' = 58 then
                  if ellipsis \<noteq> None then None
                  else if tl s' = [] then Some (ip', Some (length ip'), [])
                  else v6_loop (Some (length ip')) ip' (tl s')
                else v6_loop ellipsis ip' s')"
  by pat_completeness auto
termination by (relation "measure (\<lambda>(e, ip, s). 16 - length ip)") auto

declare v6_loop.simps [simp del]

definition expand :: "ip \<times> nat option \<times> jstr \<Rightarrow> ip option" where
  "expand r =
     (case r of (ip, ellipsis, s) \<Rightarrow>
        if s \<noteq> [] then None
        else if length ip < 16 then map_option (\<lambda>k. take k ip @ replicate (16 - length ip) 0 @ drop k ip) ellipsis
        else if ellipsis \<noteq> None then None else Some ip)"

text \<open>An address with a zone (\<open>%\<close>) is refused.\<close>

definition parseIPv6 :: "jstr \<Rightarrow> ip option" where
  "parseIPv6 s =
     (if 37 \<in> set s then None
      else if startsWith s (lit ''::'') then
        if drop 2 s = [] then Some (replicate 16 0)
        else Option.bind (v6_loop (Some 0) [] (drop 2 s)) expand
      else Option.bind (v6_loop None [] s) expand)"

definition v4InV6 :: "ip \<Rightarrow> ip" where
  "v4InV6 ip = replicate 10 0 @ [0xFF, 0xFF] @ ip"

text \<open>The first of the three characters decides; the result has 16 octets.\<close>

definition ParseIP :: "jstr \<Rightarrow> ip option" where
  "ParseIP s =
     (case dropWhile (\<lambda>c. c \<notin> {46, 58, 37}) s of
        [] \<Rightarrow> None
      | c # _ \<Rightarrow> if c = 46 then map_option v4InV6 (parseIPv4 s) else if c = 58 then parseIPv6 s else None)"

section \<open>Octets\<close>

definition To4 :: "ip \<Rightarrow> ip option" where
  "To4 ip =
     (if length ip = 4 then Some ip
      else if length ip = 16 \<and> take 12 ip = replicate 10 0 @ [0xFF, 0xFF] then Some (drop 12 ip)
      else None)"

definition IP_Equal :: "ip \<Rightarrow> ip \<Rightarrow> bool" where
  "IP_Equal a b =
     (if length a = length b then a = b
      else if length a = 4 \<and> length b = 16 then b = v4InV6 a
      else if length a = 16 \<and> length b = 4 then a = v4InV6 b
      else False)"

definition IsLoopback :: "ip \<Rightarrow> bool" where
  "IsLoopback ip =
     (case To4 ip of Some v4 \<Rightarrow> hd v4 = 127 | None \<Rightarrow> IP_Equal ip (replicate 15 0 @ [1]))"

section \<open>Writing\<close>

definition show_v4 :: "ip \<Rightarrow> jstr" where
  "show_v4 ip = join [46] (map (\<lambda>x. show_nat (unat x)) ip)"

fun ip_groups :: "ip \<Rightarrow> nat list" where
  "ip_groups (a # b # ip) = (256 * unat a + unat b) # ip_groups ip"
| "ip_groups _ = []"

fun show_hex :: "nat \<Rightarrow> jstr" where
  "show_hex n = (if n < 16 then [hex_digit n] else show_hex (n div 16) @ [hex_digit (n mod 16)])"

declare show_hex.simps [simp del]

text \<open>The first of the longest runs of at least two zero groups, from its start to behind its end.\<close>

definition longest_zeros :: "nat list \<Rightarrow> (nat \<times> nat) option" where
  "longest_zeros gs =
     foldl (\<lambda>best i.
         let l = length (takeWhile (\<lambda>g. g = 0) (drop i gs)) in
         if 2 \<le> l \<and> (case best of None \<Rightarrow> True | Some (s, e) \<Rightarrow> e - s < l) then Some (i, i + l) else best)
       None [0..<8]"

definition show_v6 :: "ip \<Rightarrow> jstr" where
  "show_v6 ip =
     (let gs = ip_groups ip; hex = (\<lambda>gs. join [58] (map show_hex gs)) in
      case longest_zeros gs of
        None \<Rightarrow> hex gs
      | Some (s, e) \<Rightarrow> hex (take s gs) @ [58, 58] @ hex (drop e gs))"

text \<open>\<open>IP.String\<close> of an address.\<close>

definition IP_String :: "ip \<Rightarrow> jstr" where
  "IP_String ip = (case To4 ip of Some v4 \<Rightarrow> show_v4 v4 | None \<Rightarrow> show_v6 ip)"

section \<open>Networks\<close>

record ip_net =
  net_IP :: ip
  net_Mask :: "octet list"

fun mask_octets :: "nat \<Rightarrow> nat \<Rightarrow> octet list" where
  "mask_octets 0 n = []"
| "mask_octets (Suc l) n =
     (if 8 \<le> n then 0xFF # mask_octets l (n - 8) else NOT (drop_bit n 0xFF) # mask_octets l 0)"

definition CIDRMask :: "nat \<Rightarrow> nat \<Rightarrow> octet list" where
  "CIDRMask ones bits = mask_octets (bits div 8) ones"

definition masked :: "octet list \<Rightarrow> octet list \<Rightarrow> octet list" where
  "masked ip m = map2 (AND) ip m"

definition IP_Mask :: "ip \<Rightarrow> octet list \<Rightarrow> ip" where
  "IP_Mask ip m =
     (let m' = (if length m = 16 \<and> length ip = 4 \<and> take 12 m = replicate 12 0xFF then drop 12 m else m);
          ip' = (if length m' = 4 \<and> length ip = 16 \<and> take 12 ip = replicate 10 0 @ [0xFF, 0xFF] then drop 12 ip else ip)
      in if length ip' \<noteq> length m' then [] else masked ip' m')"

text \<open>\<open>networkNumberAndMask\<close>: \<open>None\<close> when they do not fit.\<close>

definition number_and_mask :: "ip_net \<Rightarrow> (ip \<times> octet list) option" where
  "number_and_mask n =
     (let ip = (case To4 (net_IP n) of Some v4 \<Rightarrow> v4 | None \<Rightarrow> net_IP n) in
      if length ip \<noteq> 4 \<and> length ip \<noteq> 16 then None
      else if length (net_Mask n) = length ip then Some (ip, net_Mask n)
      else if length (net_Mask n) = 16 \<and> length ip = 4 then Some (ip, drop 12 (net_Mask n))
      else None)"

definition IPNet_Contains :: "ip_net \<Rightarrow> ip \<Rightarrow> bool" where
  "IPNet_Contains n ip =
     (let x = (case To4 ip of Some v4 \<Rightarrow> v4 | None \<Rightarrow> ip) in
      case number_and_mask n of
        None \<Rightarrow> x = []
      | Some (nn, m) \<Rightarrow> length x = length nn \<and> masked nn m = masked x m)"

text \<open>The network \<open>net.ParseCIDR\<close> reads.\<close>

definition v4_text :: "jstr \<Rightarrow> bool" where
  "v4_text s = (case dropWhile (\<lambda>c. c \<notin> {46, 58, 37}) s of [] \<Rightarrow> False | c # _ \<Rightarrow> c = 46)"

definition ParseCIDR :: "jstr \<Rightarrow> ip_net option" where
  "ParseCIDR s =
     (if 47 \<notin> set s then None
      else
        let addr = takeWhile (\<lambda>c. c \<noteq> 47) s; mask = tl (dropWhile (\<lambda>c. c \<noteq> 47) s);
            bits = (if v4_text addr then 32 else 128)
        in case ParseIP addr of
             None \<Rightarrow> None
           | Some ip \<Rightarrow>
               if mask = [] \<or> \<not> list_all is_digit mask \<or> bits < read_digits mask then None
               else Some \<lparr>net_IP = IP_Mask ip (CIDRMask (read_digits mask) bits), net_Mask = CIDRMask (read_digits mask) bits\<rparr>)"

section \<open>Addresses of version 4\<close>

lemma length_parseIPv4: "v4_fields val len fs s = Some ip \<Longrightarrow> length fs \<le> 3 \<Longrightarrow> length ip = 4"
  by (induction val len fs s rule: v4_fields.induct) (auto split: if_splits)

lemma v4InV6_length [simp]: "length (v4InV6 ip) = 12 + length ip"
  by (simp add: v4InV6_def)

lemma To4_v4InV6 [simp]: "length ip = 4 \<Longrightarrow> To4 (v4InV6 ip) = Some ip"
  by (simp add: To4_def v4InV6_def)

lemma To4_length: "To4 ip = Some v4 \<Longrightarrow> length v4 = 4"
  by (auto simp: To4_def split: if_splits)

lemma To4_v4: "length ip = 4 \<Longrightarrow> To4 ip = Some ip"
  by (simp add: To4_def)

lemma To4_back: "length ip = 16 \<Longrightarrow> To4 ip = Some v4 \<Longrightarrow> ip = v4InV6 v4"
  unfolding To4_def v4InV6_def
  by (metis append.assoc append_Cons append_Nil append_take_drop_id numeral_eq_iff option.inject option.distinct(1)
      semiring_norm(85,87,88,89))

lemma read_digit_step: "read_digits (ds @ [c]) = 10 * read_digits ds + (c - 48)"
  by (simp add: read_digits_def)

declare v4_fields.simps(2) [simp del]

lemma v4_digit: "d \<le> 9 \<Longrightarrow> v4_fields n len fs ((48 + d) # s) =
    (if len = 1 \<and> n = 0 \<or> 255 < 10 * n + d then None else v4_fields (10 * n + d) (Suc len) fs s)"
  by (simp add: v4_fields.simps is_digit_def)

lemma v4_dot: "v4_fields n len fs (46 # s) =
    (if len = 0 \<or> s = [] \<or> length fs = 3 then None else v4_fields 0 0 (fs @ [of_nat n]) s)"
  by (simp add: v4_fields.simps is_digit_def)

text \<open>The scanner reads the digits of a number below 256.\<close>

lemma v4_digits:
  assumes "n < 256"
  shows "v4_fields 0 0 fs (show_nat n @ s) = v4_fields n (length (show_nat n)) fs s"
proof -
  have last: "n mod 10 \<le> 9" "n div 10 mod 10 \<le> 9" by simp_all
  consider "n < 10" | "10 \<le> n" "n < 100" | "100 \<le> n" by linarith
  then show ?thesis
  proof cases
    case 1
    then show ?thesis by (simp add: show_nat_small v4_digit)
  next
    case 2
    then have "show_nat n = [48 + n div 10, 48 + n mod 10]" "0 < n div 10" "n div 10 \<le> 9"
      by (auto simp: show_nat_big show_nat_small)
    with last assms show ?thesis by (simp add: v4_digit)
  next
    case 3
    with assms have n: "show_nat n = [48 + n div 10 div 10, 48 + n div 10 mod 10, 48 + n mod 10]" "0 < n div 10 div 10"
      "n div 10 div 10 \<le> 9" by (auto simp: show_nat_big show_nat_small)
    moreover have "10 * (10 * (n div 10 div 10) + n div 10 mod 10) + n mod 10 = n"
      "10 * (n div 10 div 10) + n div 10 mod 10 < 256" using assms by simp_all
    ultimately show ?thesis using last assms by (simp add: v4_digit)
  qed
qed

lemma octet_list: "length ip = 4 \<Longrightarrow> \<exists>a b c d. ip = [a, b, c, d]"
  by (auto simp: length_Suc_conv numeral_eq_Suc)

lemma unat_octet: "unat (x :: octet) < 256"
  using unsigned_less [of x] by simp

lemma parse_show_v4: "length ip = 4 \<Longrightarrow> parseIPv4 (show_v4 ip) = Some ip"
proof -
  assume "length ip = 4"
  then obtain a b c d where ip: "ip = [a, b, c, d]" using octet_list by blast
  have field: "v4_fields 0 0 fs (show_nat (unat x) @ 46 # s) =
      (if s = [] \<or> length fs = 3 then None else v4_fields 0 0 (fs @ [x]) s)" for x :: octet and fs s
    by (simp add: v4_digits [OF unat_octet] v4_dot)
  have final: "v4_fields 0 0 [a, b, c] (show_nat (unat d)) = Some [a, b, c, d]"
    using v4_digits [OF unat_octet, of "[a, b, c]" d "[]"] by simp
  show ?thesis by (simp add: ip parseIPv4_def show_v4_def field final)
qed

lemma join_no: "x \<notin> set sep \<Longrightarrow> (\<And>s. s \<in> set ss \<Longrightarrow> x \<notin> set s) \<Longrightarrow> x \<notin> set (join sep ss)"
  by (induction sep ss rule: join.induct) auto

lemma show_nat_no: "\<not> is_digit c \<Longrightarrow> c \<notin> set (show_nat n)"
  using show_nat_digits by blast

lemma v4_first_mark:
  "length ip = 4 \<Longrightarrow> \<exists>s. dropWhile (\<lambda>c. c \<notin> {46, 58, 37}) (show_v4 ip) = 46 # s"
proof -
  assume "length ip = 4"
  then obtain a b c d where ip: "ip = [a, b, c, d]" using octet_list by blast
  have "x \<notin> {46, 58, 37}" if "x \<in> set (show_nat (unat a))" for x
    using show_nat_digits [OF that] by (auto simp: is_digit_def)
  then show ?thesis by (simp add: ip show_v4_def dropWhile_append2)
qed

lemma ParseIP_show_v4: "length ip = 4 \<Longrightarrow> ParseIP (show_v4 ip) = Some (v4InV6 ip)"
  using v4_first_mark [of ip] by (auto simp: ParseIP_def parse_show_v4)

section \<open>Addresses of version 6\<close>

lemma pct_hex_digit [simp]: "d < 16 \<Longrightarrow> pct_value (hex_digit d) = Some d"
  by (auto simp: pct_value_def hex_digit_def)

lemma show_hex_digits: "c \<in> set (show_hex n) \<Longrightarrow> hexit c"
proof (induction n rule: show_hex.induct)
  case (1 n)
  then show ?case by (cases "n < 16") (auto simp: show_hex.simps [of n] hexit_def)
qed

lemma show_hex_nonempty [simp]: "show_hex n \<noteq> []"
  by (simp add: show_hex.simps [of n])

lemma read_show_hex: "foldl (\<lambda>n c. 16 * n + the (pct_value c)) 0 (show_hex n) = n"
proof (induction n rule: show_hex.induct)
  case (1 n)
  then show ?case by (cases "n < 16") (simp_all add: show_hex.simps [of n])
qed

lemma show_hex_length: "n < 16 ^ Suc k \<Longrightarrow> length (show_hex n) \<le> Suc k"
proof (induction k arbitrary: n)
  case 0
  then show ?case by (simp add: show_hex.simps [of n])
next
  case (Suc k)
  have "n div 16 < 16 ^ Suc k" using Suc.prems by (simp add: less_mult_imp_div_less)
  with Suc.IH show ?case by (simp add: show_hex.simps [of n])
qed

lemma v6_group_hex:
  assumes "n < 65536" and "s = [] \<or> \<not> hexit (hd s)"
  shows "v6_group (show_hex n @ s) = Some (n, s)"
proof -
  have "takeWhile hexit s = []" "dropWhile hexit s = s"
    using assms(2) by (cases s; auto)+
  then have "takeWhile hexit (show_hex n @ s) = show_hex n"
    "dropWhile hexit (show_hex n @ s) = s"
    by (simp_all add: takeWhile_append2 dropWhile_append2 show_hex_digits)
  moreover have "length (show_hex n) \<le> 4" using show_hex_length [of n 3] assms(1) by simp
  ultimately show ?thesis by (simp add: v6_group_def read_show_hex)
qed

definition group_octets :: "nat \<Rightarrow> ip" where
  "group_octets n = [of_nat (n div 256), of_nat n]"

lemma length_group_octets: "length (group_octets n) = 2"
  by (simp add: group_octets_def)

definition octets_of :: "nat list \<Rightarrow> ip" where
  "octets_of gs = concat (map group_octets gs)"

lemma length_octets_of [simp]: "length (octets_of gs) = 2 * length gs"
  by (induction gs) (simp_all add: octets_of_def group_octets_def)

lemma octets_of_Nil [simp]: "octets_of [] = []"
  by (simp add: octets_of_def)

lemma octets_of_Cons: "octets_of (g # gs) = group_octets g @ octets_of gs"
  by (simp add: octets_of_def)

lemma colon_no_hex [simp]: "\<not> hexit 58"
  by (simp add: pct_value_def hexit_def)

text \<open>The loop on one group: at the end, before a colon, and before two colons.\<close>

lemma v6_loop_group:
  assumes "length ip < 16" and "n < 65536"
  shows "v6_loop e ip (show_hex n) = Some (ip @ group_octets n, e, [])"
    and "s \<noteq> [] \<Longrightarrow> hd s \<noteq> 58 \<Longrightarrow> v6_loop e ip (show_hex n @ 58 # s) = v6_loop e (ip @ group_octets n) s"
    and "v6_loop None ip (show_hex n @ [58, 58]) = Some (ip @ group_octets n, Some (length ip + 2), [])"
    and "s \<noteq> [] \<Longrightarrow> v6_loop None ip (show_hex n @ 58 # 58 # s) = v6_loop (Some (length ip + 2)) (ip @ group_octets n) s"
  using assms v6_group_hex [of n "[]"] v6_group_hex [of n "58 # s"] v6_group_hex [of n "58 # 58 # s"] v6_group_hex [of n "[58, 58]"]
  by (simp_all add: v6_loop.simps [of e ip] v6_loop.simps [of None ip] group_octets_def)

lemma hd_show_hex: "hd (show_hex n @ s) \<noteq> 58" "hd (show_hex n) \<noteq> 58"
  using show_hex_digits [of "hd (show_hex n)" n] by auto

lemma hex_text_hd: "gs \<noteq> [] \<Longrightarrow> join [58] (map show_hex gs) \<noteq> [] \<and> hd (join [58] (map show_hex gs) @ s) \<noteq> 58"
  using hd_show_hex by (cases gs; cases "tl gs") (auto simp: hd_append)

lemma v6_loop_groups:
  assumes "gs \<noteq> []" and "length ip + 2 * length gs \<le> 16" and "\<forall>g \<in> set gs. g < 65536"
  shows "v6_loop e ip (join [58] (map show_hex gs)) = Some (ip @ octets_of gs, e, [])"
  using assms
proof (induction gs arbitrary: ip)
  case (Cons g gs)
  have ip: "length ip < 16" and g: "g < 65536" using Cons.prems by simp_all
  show ?case
  proof (cases "gs = []")
    case True
    with v6_loop_group(1) [OF ip g] show ?thesis by (simp add: octets_of_def)
  next
    case False
    have "join [58] (map show_hex (g # gs)) = show_hex g @ 58 # join [58] (map show_hex gs)"
      using False by (cases gs) simp_all
    with v6_loop_group(2) [OF ip g, of "join [58] (map show_hex gs)"] hex_text_hd [OF False, of "[]"]
      Cons.IH [OF False, of "ip @ group_octets g"] Cons.prems show ?thesis
      by (simp add: octets_of_Cons group_octets_def)
  qed
qed simp

lemma v6_loop_ellipsis:
  assumes "gs \<noteq> []" and "length ip + 2 * length gs < 16" and "\<forall>g \<in> set gs. g < 65536"
  shows "v6_loop None ip (join [58] (map show_hex gs) @ 58 # 58 # s) =
    (if s = [] then Some (ip @ octets_of gs, Some (length ip + 2 * length gs), [])
     else v6_loop (Some (length ip + 2 * length gs)) (ip @ octets_of gs) s)"
  using assms
proof (induction gs arbitrary: ip)
  case (Cons g gs)
  have ip: "length ip < 16" and g: "g < 65536" using Cons.prems by simp_all
  show ?case
  proof (cases "gs = []")
    case True
    with v6_loop_group(3,4) [OF ip g] show ?thesis by (simp add: octets_of_def)
  next
    case False
    have "join [58] (map show_hex (g # gs)) @ 58 # 58 # s = show_hex g @ 58 # (join [58] (map show_hex gs) @ 58 # 58 # s)"
      using False by (cases gs) simp_all
    moreover have "v6_loop None ip (show_hex g @ 58 # (join [58] (map show_hex gs) @ 58 # 58 # s))
        = v6_loop None (ip @ group_octets g) (join [58] (map show_hex gs) @ 58 # 58 # s)"
      using hex_text_hd [OF False, of "58 # 58 # s"] by (intro v6_loop_group(2) [OF ip g]) auto
    ultimately show ?thesis
      using Cons.IH [OF False, of "ip @ group_octets g"] Cons.prems
      by (simp add: octets_of_Cons length_group_octets)
  qed
qed simp

lemma octet_pair: "group_octets (256 * unat a + unat b) = [a, b]"
proof -
  have "(256 * unat a + unat b) div 256 = unat a" using unat_octet [of b] by simp
  moreover have "(of_nat (256 * unat a + unat b) :: octet) = b"
  proof -
    have "(of_nat 256 :: octet) = 0" by simp
    then show ?thesis by (simp del: of_nat_numeral)
  qed
  ultimately show ?thesis by (simp add: group_octets_def)
qed

lemma octets_of_groups: "even (length ip) \<Longrightarrow> octets_of (ip_groups ip) = ip"
  by (induction ip rule: ip_groups.induct) (simp_all add: octets_of_Cons octet_pair)

lemma length_ip_groups: "length (ip_groups ip) = length ip div 2"
  by (induction ip rule: ip_groups.induct) simp_all

lemma ip_groups_bound: "g \<in> set (ip_groups ip) \<Longrightarrow> g < 65536"
proof (induction ip rule: ip_groups.induct)
  case (1 a b ip)
  have "256 * unat a + unat b < 65536" using unat_octet [of a] unat_octet [of b] by linarith
  with 1 show ?case by auto
qed simp_all

definition zero_run :: "nat list \<Rightarrow> nat \<Rightarrow> nat \<Rightarrow> bool" where
  "zero_run gs s e \<longleftrightarrow> s + 2 \<le> e \<and> e \<le> length gs \<and> gs = take s gs @ replicate (e - s) 0 @ drop e gs"

lemma leading_zeros:
  fixes gs :: "nat list" and i :: nat
  defines "l \<equiv> length (takeWhile (\<lambda>g. g = 0) (drop i gs))"
  assumes "2 \<le> l" shows "zero_run gs i (i + l)"
proof -
  let ?z = "takeWhile (\<lambda>g. g = 0) (drop i gs)"
  have z: "?z = replicate l 0" unfolding l_def by (auto intro!: replicate_eqI dest: set_takeWhileD)
  have len: "l \<le> length gs - i" unfolding l_def by (metis length_drop length_takeWhile_le)
  have "drop i gs = ?z @ dropWhile (\<lambda>g. g = 0) (drop i gs)" by simp
  also have "dropWhile (\<lambda>g. g = 0) (drop i gs) = drop l (drop i gs)" by (simp add: dropWhile_eq_drop l_def)
  finally have "drop i gs = replicate l 0 @ drop (i + l) gs" unfolding z by (simp add: add.commute)
  then have "gs = take i gs @ replicate l 0 @ drop (i + l) gs" by (metis append_take_drop_id)
  with assms(2) len show ?thesis by (simp add: zero_run_def)
qed

lemma longest_zeros_run:
  assumes "longest_zeros gs = Some (s, e)" shows "zero_run gs s e"
proof -
  have "zero_run gs s e" if "foldl (\<lambda>best i.
         let l = length (takeWhile (\<lambda>g. g = 0) (drop i gs)) in
         if 2 \<le> l \<and> (case best of None \<Rightarrow> True | Some (s, e) \<Rightarrow> e - s < l) then Some (i, i + l) else best)
       b js = Some (s, e)" and "\<And>s e. b = Some (s, e) \<Longrightarrow> zero_run gs s e" for b js
    using that
  proof (induction js arbitrary: b)
    case (Cons i js)
    show ?case
      by (rule Cons.IH [OF Cons.prems(1) [unfolded foldl_Cons]])
        (auto simp: Let_def leading_zeros Cons.prems(2) split: if_splits)
  qed simp
  from this [OF assms [unfolded longest_zeros_def]] show ?thesis by simp
qed

lemma octets_of_append: "octets_of (a @ b) = octets_of a @ octets_of b"
  by (simp add: octets_of_def)

lemma octets_of_zeros: "octets_of (replicate n 0) = replicate (2 * n) 0"
  by (induction n) (simp_all add: octets_of_Cons group_octets_def)

abbreviation hex_groups :: "nat list \<Rightarrow> jstr" where
  "hex_groups gs \<equiv> join [58] (map show_hex gs)"

lemma groups_of_ip:
  assumes "length ip = 16"
  shows "length (ip_groups ip) = 8" and "octets_of (ip_groups ip) = ip"
  using assms by (simp_all add: length_ip_groups octets_of_groups)

lemma no_zone: "37 \<notin> set (hex_groups gs)"
  using show_hex_digits by (intro join_no) (auto simp: hexit_def pct_value_def dest: show_hex_digits)

lemma groups_bound: "set gs \<subseteq> set (ip_groups ip) \<Longrightarrow> \<forall>g \<in> set gs. g < 65536"
  using ip_groups_bound by blast

lemma parse_show_v6_plain:
  assumes "length ip = 16" and "longest_zeros (ip_groups ip) = None"
  shows "parseIPv6 (show_v6 ip) = Some ip"
proof -
  have ne: "ip_groups ip \<noteq> []" using groups_of_ip [OF assms(1)] by auto
  have "\<not> startsWith (hex_groups (ip_groups ip)) (lit ''::'')"
    using hex_text_hd [OF ne, of "[]"] by (cases "hex_groups (ip_groups ip)") (auto simp: startsWith_def js_eval)
  with v6_loop_groups [OF ne _ groups_bound [OF subset_refl], of "[]" None] no_zone groups_of_ip [OF assms(1)] assms show ?thesis
    by (simp add: show_v6_def parseIPv6_def expand_def)
qed

text \<open>With a run of zeros, written as \<open>::\<close>.\<close>

lemma expand_run:
  assumes "length a = 2 * s" and "length b = 16 - 2 * e" and "s + 2 \<le> e" and "e \<le> 8"
  shows "expand (a @ b, Some (2 * s), []) = Some (a @ replicate (2 * (e - s)) 0 @ b)"
proof -
  have "length (a @ b) = 16 - 2 * (e - s)" "16 - (16 - 2 * (e - s)) = 2 * (e - s)" "0 < 2 * (e - s)"
    "take (2 * s) (a @ b) = a" "drop (2 * s) (a @ b) = b"
    using assms by simp_all
  then show ?thesis using assms(3) by (simp only: expand_def prod.case list.simps option.map) simp
qed

lemma parse_hex_run:
  assumes "length a = s" and "length b = 8 - e" and "s + 2 \<le> e" and "e \<le> 8"
    and bounds: "\<forall>g \<in> set a. g < 65536" "\<forall>g \<in> set b. g < 65536"
  shows "parseIPv6 (hex_groups a @ 58 # 58 # hex_groups b)
    = Some (octets_of a @ replicate (2 * (e - s)) 0 @ octets_of b)"
proof -
  let ?text = "hex_groups a @ 58 # 58 # hex_groups b"
  have zone: "37 \<notin> set ?text" using no_zone by simp
  have b: "hex_groups b = [] \<longleftrightarrow> b = []" using hex_text_hd [of b "[]"] by (cases "b = []") auto
  have tail: "v6_loop f x (hex_groups b) = Some (x @ octets_of b, f, [])" if "b \<noteq> []" "length x \<le> 2 * s" for f x
    using that assms by (intro v6_loop_groups bounds) auto
  have ex: "expand (octets_of a @ octets_of b, Some (2 * s), []) = Some (octets_of a @ replicate (2 * (e - s)) 0 @ octets_of b)"
    using assms by (intro expand_run) simp_all
  show ?thesis
  proof (cases "s = 0")
    case True
    then have "startsWith ?text (lit ''::'')" "drop 2 ?text = hex_groups b" "a = []"
      using assms(1) by (simp_all add: startsWith_def js_eval)
    moreover have "b = [] \<Longrightarrow> e = 8" using assms(2,4) by simp
    ultimately show ?thesis
      using zone tail [of "[]" "Some 0"] b ex True by (cases "b = []") (simp_all add: parseIPv6_def del: drop_eq_Nil)
  next
    case False
    then have a: "a \<noteq> []" using assms(1) by auto
    have "hd ?text \<noteq> 58" using hex_text_hd [OF a] by blast
    then have "\<not> startsWith ?text (lit ''::'')" by (cases ?text) (auto simp: startsWith_def js_eval)
    moreover have "v6_loop None [] ?text = Some (octets_of a @ octets_of b, Some (2 * s), [])"
      using v6_loop_ellipsis [OF a, of "[]" "hex_groups b"] bounds assms b tail [of "octets_of a" "Some (2 * s)"]
      by (cases "b = []") simp_all
    ultimately show ?thesis using zone ex by (simp add: parseIPv6_def)
  qed
qed

lemma parse_show_v6:
  assumes "length ip = 16"
  shows "parseIPv6 (show_v6 ip) = Some ip"
proof (cases "longest_zeros (ip_groups ip)")
  case (Some p)
  let ?gs = "ip_groups ip"
  obtain s e where p: "p = (s, e)" by (cases p)
  with Some longest_zeros_run have run: "zero_run ?gs s e" by blast
  then have se: "s + 2 \<le> e" "e \<le> 8" using groups_of_ip [OF assms] by (simp_all add: zero_run_def)
  have "ip = octets_of (take s ?gs) @ replicate (2 * (e - s)) 0 @ octets_of (drop e ?gs)"
    using run groups_of_ip(2) [OF assms] unfolding zero_run_def by (metis octets_of_append octets_of_zeros)
  moreover have "show_v6 ip = hex_groups (take s ?gs) @ 58 # 58 # hex_groups (drop e ?gs)"
    using Some p by (simp add: show_v6_def Let_def)
  ultimately show ?thesis
    using parse_hex_run [of "take s ?gs" s "drop e ?gs" e] se groups_of_ip(1) [OF assms]
      groups_bound [OF set_take_subset] groups_bound [OF set_drop_subset] by simp
qed (rule parse_show_v6_plain [OF assms])

lemma v6_first_mark:
  assumes "length ip = 16"
  shows "\<exists>s. dropWhile (\<lambda>c. c \<notin> {46, 58, 37}) (show_v6 ip) = 58 # s"
proof -
  have not_mark: "\<not> hexit 46" "\<not> hexit 37" by (simp_all add: hexit_def pct_value_def)
  have first: "\<exists>s. dropWhile (\<lambda>c. c \<notin> {46, 58, 37}) (t @ 58 # r) = 58 # s" if "\<forall>c \<in> set t. hexit c \<or> c = 58" for t r
    using that
  proof (induction t)
    case (Cons c t)
    then have "c \<noteq> 46 \<and> c \<noteq> 37" using not_mark by auto
    with Cons show ?case by auto
  qed simp
  have hex: "hexit c \<or> c = 58" if "c \<in> set (join [58] (map show_hex gs))" for c gs
    using that by (induction gs rule: induct_list012) (auto dest: show_hex_digits)
  have len: "length (ip_groups ip) = 8" using assms by (simp add: length_ip_groups)
  show ?thesis
  proof (cases "longest_zeros (ip_groups ip)")
    case None
    obtain g h gs where "ip_groups ip = g # h # gs"
      using len by (auto simp: length_Suc_conv numeral_eq_Suc)
    with None have "show_v6 ip = show_hex g @ 58 # join [58] (map show_hex (h # gs))" by (simp add: show_v6_def)
    with first [of "show_hex g"] show ?thesis using show_hex_digits by fastforce
  next
    case (Some p)
    then have "show_v6 ip = join [58] (map show_hex (take (fst p) (ip_groups ip)))
        @ 58 # 58 # join [58] (map show_hex (drop (snd p) (ip_groups ip)))" by (simp add: show_v6_def split_beta Let_def)
    with first hex show ?thesis by simp
  qed
qed

text \<open>What \<open>IP.String\<close> writes, \<open>ParseIP\<close> reads as the same address.\<close>

lemma ParseIP_String: "length ip = 16 \<Longrightarrow> ParseIP (IP_String ip) = Some ip"
proof (cases "To4 ip")
  case None
  assume "length ip = 16"
  with None v6_first_mark [of ip] parse_show_v6 [of ip] show ?thesis by (auto simp: IP_String_def ParseIP_def)
next
  case (Some v4)
  assume len: "length ip = 16"
  with Some show ?thesis by (simp add: IP_String_def ParseIP_show_v4 To4_length To4_back [OF len Some, symmetric])
qed

lemma ParseIP_String4: "length ip = 4 \<Longrightarrow> ParseIP (IP_String ip) = Some (v4InV6 ip)"
  by (simp add: IP_String_def To4_v4 ParseIP_show_v4)

lemma length_v6_loop:
  "v6_loop e ip s = Some (r, f, t) \<Longrightarrow> length ip \<le> 16 \<Longrightarrow> even (length ip) \<Longrightarrow>
    \<forall>k \<in> set_option e. k \<le> length ip \<Longrightarrow> length r \<le> 16 \<and> (\<forall>k \<in> set_option f. k \<le> length r)"
proof (induction e ip s rule: v6_loop.induct)
  case (1 e ip s)
  show ?case
  proof (cases "16 \<le> length ip")
    case True
    with "1.prems" show ?thesis by (auto simp: v6_loop.simps [of e ip])
  next
    case False
    then obtain n u where g: "v6_group s = Some (n, u)" using "1.prems"(1) by (auto simp: v6_loop.simps [of e ip] split: option.splits)
    have small: "length ip + 2 \<le> 16" using False "1.prems"(3) by presburger
    have later: "\<forall>k \<in> set_option e. k \<le> Suc (Suc (length ip))" using "1.prems"(4) by auto
    show ?thesis
      using "1.prems" False g small later "1.IH" [OF False g _ _ HOL.refl]
      by (auto simp: v6_loop.simps [of e ip] parseIPv4_def Let_def dest!: length_parseIPv4 split: if_splits list.splits)
  qed
qed

lemma length_ParseIP: "ParseIP s = Some ip \<Longrightarrow> length ip = 16"
proof -
  assume p: "ParseIP s = Some ip"
  have expand: "length x = 16" if "expand (r, f, t) = Some x" "length r \<le> 16" "\<forall>k \<in> set_option f. k \<le> length r" for r f t x
    using that by (auto simp: expand_def split: if_splits)
  have loop: "length x = 16" if "Option.bind (v6_loop e [] u) expand = Some x" "e = None \<or> e = Some 0" for e u x
    using that length_v6_loop [of e "[]" u] expand by (fastforce simp: bind_eq_Some_conv)
  from p show ?thesis
    using loop by (auto simp: ParseIP_def parseIPv6_def parseIPv4_def dest!: length_parseIPv4 split: list.splits if_splits)
qed

section \<open>A network is a prefix\<close>

text \<open>The bits of an address, most significant first.\<close>

definition octet_bits :: "octet \<Rightarrow> bool list" where
  "octet_bits x = map (\<lambda>i. bit x (7 - i)) [0..<8]"

definition ip_bits :: "ip \<Rightarrow> bool list" where
  "ip_bits ip = concat (map octet_bits ip)"

lemma length_octet_bits [simp]: "length (octet_bits x) = 8"
  by (simp add: octet_bits_def)

lemma octet_bits_inject: "octet_bits x = octet_bits y \<longleftrightarrow> x = y"
proof
  assume eq: "octet_bits x = octet_bits y"
  have "bit x i = bit y i" if "i < 8" for i
  proof -
    have "octet_bits x ! (7 - i) = octet_bits y ! (7 - i)" using eq by simp
    moreover have "[0..<8] ! (7 - i) = 7 - i" by (subst nth_upt) simp_all
    ultimately show ?thesis using that by (simp add: octet_bits_def)
  qed
  then show "x = y" by (intro bit_word_eqI) simp
qed simp

lemma bit_ff: "bit (0xFF :: octet) i \<longleftrightarrow> i < 8"
proof -
  have ff: "(0xFF :: octet) = mask 8" by (simp add: mask_eq_exp_minus_1)
  show ?thesis unfolding ff bit_mask_iff by simp
qed

lemma octet_mask:
  assumes "n \<le> 8"
  shows "x AND NOT (drop_bit n 0xFF) = y AND NOT (drop_bit n 0xFF) \<longleftrightarrow> take n (octet_bits x) = take n (octet_bits y)"
proof -
  have "bit (z AND NOT (drop_bit n 0xFF)) i \<longleftrightarrow> i < 8 \<and> 8 - n \<le> i \<and> bit z i" for z :: octet and i
    unfolding bit_and_iff bit_not_iff bit_drop_bit_eq comp_apply bit_ff using bit_imp_le_length [of z i] by auto
  then have "x AND NOT (drop_bit n 0xFF) = y AND NOT (drop_bit n 0xFF) \<longleftrightarrow> (\<forall>i. 8 - n \<le> i \<and> i < 8 \<longrightarrow> bit x i = bit y i)"
    unfolding bit_eq_iff by auto
  also have "\<dots> \<longleftrightarrow> (\<forall>i < n. bit x (7 - i) = bit y (7 - i))"
  proof
    assume all: "\<forall>i. 8 - n \<le> i \<and> i < 8 \<longrightarrow> bit x i = bit y i"
    have "8 - n \<le> 7 - i \<and> 7 - i < 8" if "i < n" for i using that assms by linarith
    with all show "\<forall>i < n. bit x (7 - i) = bit y (7 - i)" by blast
  next
    assume all: "\<forall>i < n. bit x (7 - i) = bit y (7 - i)"
    have "7 - i < n \<and> 7 - (7 - i) = i" if "8 - n \<le> i \<and> i < 8" for i using that by auto
    with all show "\<forall>i. 8 - n \<le> i \<and> i < 8 \<longrightarrow> bit x i = bit y i" by metis
  qed
  also have "\<dots> \<longleftrightarrow> take n (octet_bits x) = take n (octet_bits y)"
    using assms by (auto simp: octet_bits_def list_eq_iff_nth_eq)
  finally show ?thesis .
qed

lemma full_mask: "(x :: octet) AND 0xFF = x"
proof -
  have "(0xFF :: octet) = - 1" by simp
  then show ?thesis by (simp only: bit.conj_one_right)
qed

lemma masked_prefix:
  "length a = length b \<Longrightarrow>
    masked a (mask_octets (length a) n) = masked b (mask_octets (length a) n) \<longleftrightarrow> take n (ip_bits a) = take n (ip_bits b)"
proof (induction a b arbitrary: n rule: list_induct2)
  case (Cons x a y b)
  show ?case
  proof (cases "8 \<le> n")
    case True
    with Cons.IH [of "n - 8"] show ?thesis
      by (simp add: masked_def ip_bits_def full_mask take_append octet_bits_inject)
  next
    case False
    with Cons.IH [of 0] octet_mask [of n x y] show ?thesis
      by (simp add: masked_def ip_bits_def take_append)
  qed
qed (simp add: masked_def ip_bits_def)

end
