(* ===== verification/Lan.thy ===== *)
theory Lan
  imports Ip Qr Client_Address
begin

text \<open>
  The addresses the hub hands out (internal/netutil/lanip.go: \<open>EnvAdvertiseIPs\<close>, \<open>CollectLANIPv4\<close>, \<open>FilterLANIPv4\<close>,
  \<open>IsVirtualInterface\<close>, \<open>IsLANIPv4\<close>; internal/server/netinfo.go: \<open>AdvertiseIPv4Addresses\<close>, \<open>pickAdvertiseIPs\<close>,
  \<open>ipsFromHTTPHost\<close>, \<open>ClientIP\<close>, \<open>normalizeClientIP\<close>, \<open>isLocalInterfaceIP\<close>; internal/server/server.go: \<open>joinURLs\<close>, \<open>handleInfo\<close>), and what the page makes
  of them.  The network interfaces of the machine and the environment variable are an argument, the record \<open>machine\<close>.
\<close>

section \<open>The machine\<close>

text \<open>
  An interface with its entries, \<open>None\<close> for an entry without an address; \<open>if_addrs\<close> and \<open>m_ifaces\<close> are \<open>None\<close> when the
  system gives an error.
\<close>

record iface =
  if_name :: jstr
  if_up :: bool
  if_loopback :: bool
  if_addrs :: "ip option list option"

record machine =
  m_advertise :: jstr
  m_ifaces :: "iface list option"

section \<open>Addresses of the local network\<close>

text \<open>\<open>strings.FieldsFunc\<close>: the maximal pieces without a separator.\<close>

function FieldsFunc :: "(jchar \<Rightarrow> bool) \<Rightarrow> jstr \<Rightarrow> jstr list" where
  "FieldsFunc sep s =
     (if list_all sep s then []
      else
        let t = dropWhile sep s
        in takeWhile (\<lambda>c. \<not> sep c) t # FieldsFunc sep (dropWhile (\<lambda>c. \<not> sep c) t))"
  by pat_completeness auto
termination
proof (relation "measure (\<lambda>(sep, s). length s)", simp)
  fix sep :: "jchar \<Rightarrow> bool" and s t :: jstr
  assume "\<not> list_all sep s" and t: "t = dropWhile sep s"
  then have "t \<noteq> []" by (auto simp: list_all_iff dropWhile_eq_Nil_conv)
  then have "\<not> sep (hd t)" unfolding t by (rule hd_dropWhile)
  with \<open>t \<noteq> []\<close> have "length (dropWhile (\<lambda>c. \<not> sep c) t) < length t"
    by (cases t) (auto intro: le_imp_less_Suc length_dropWhile_le)
  also have "\<dots> \<le> length s" unfolding t by (rule length_dropWhile_le)
  finally show "((sep, dropWhile (\<lambda>c. \<not> sep c) t), sep, s) \<in> measure (\<lambda>(sep, s). length s)" by simp
qed

declare FieldsFunc.simps [simp del]

definition list_separator :: "jchar \<Rightarrow> bool" where
  "list_separator c = (c = 44 \<or> c = 32 \<or> c = 59)"

definition EnvAdvertiseIPs :: "machine \<Rightarrow> jstr list" where
  "EnvAdvertiseIPs m =
     (let raw = go_TrimSpace (m_advertise m) in if raw = [] then [] else FieldsFunc list_separator raw)"

text \<open>The ranges 192.168.0.0/16 and 10.0.0.0/8; 172.16.0.0/12 is left out, it is mostly Docker.\<close>

definition IsLANIPv4 :: "ip \<Rightarrow> bool" where
  "IsLANIPv4 ip =
     (case To4 ip of
        None \<Rightarrow> False
      | Some v4 \<Rightarrow>
          if v4 ! 0 = 192 \<and> v4 ! 1 = 168 then True
          else if v4 ! 0 = 10 then True
          else if v4 ! 0 = 172 \<and> 16 \<le> v4 ! 1 \<and> v4 ! 1 \<le> 31 then False
          else False)"

definition virtualPrefixes :: "jstr list" where
  "virtualPrefixes = map lit
     [''docker'', ''br-'', ''veth'', ''tun'', ''tap'', ''wg'', ''utun'', ''virbr'', ''vmnet'', ''vboxnet'', ''lo'', ''cni'',
      ''flannel'', ''meta'']"

definition IsVirtualInterface :: "jstr \<Rightarrow> bool" where
  "IsVirtualInterface name = list_ex (startsWith (toLowerCase name)) virtualPrefixes"

text \<open>One entry of an interface: the address as text, if it is one of the local network.\<close>

definition lan_entry :: "ip option \<Rightarrow> jstr option" where
  "lan_entry entry =
     (case entry of
        None \<Rightarrow> None
      | Some ip \<Rightarrow>
          if IsLoopback ip then None
          else (case To4 ip of None \<Rightarrow> None | Some v4 \<Rightarrow> if IsLANIPv4 v4 then Some (IP_String v4) else None))"

definition lan_iface :: "iface \<Rightarrow> jstr list" where
  "lan_iface i =
     (if \<not> if_up i \<or> if_loopback i \<or> IsVirtualInterface (if_name i) then []
      else (case if_addrs i of None \<Rightarrow> [] | Some entries \<Rightarrow> List.map_filter lan_entry entries))"

definition CollectLANIPv4 :: "machine \<Rightarrow> jstr list" where
  "CollectLANIPv4 m = (case m_ifaces m of None \<Rightarrow> [] | Some is \<Rightarrow> concat (map lan_iface is))"

text \<open>The canonical text of an address of the local network; the loop keeps each once.\<close>

definition lan_text :: "jstr \<Rightarrow> jstr option" where
  "lan_text s =
     (case ParseIP (go_TrimSpace s) of
        None \<Rightarrow> None
      | Some ip \<Rightarrow>
          (case To4 ip of None \<Rightarrow> None | Some v4 \<Rightarrow> if IsLANIPv4 v4 then Some (IP_String v4) else None))"

fun filter_lan :: "jstr list \<Rightarrow> jstr list \<Rightarrow> jstr list" where
  "filter_lan seen [] = []"
| "filter_lan seen (s # raw) =
     (case lan_text s of
        None \<Rightarrow> filter_lan seen raw
      | Some n \<Rightarrow> if n \<in> set seen then filter_lan seen raw else n # filter_lan (n # seen) raw)"

definition FilterLANIPv4 :: "jstr list \<Rightarrow> jstr list" where
  "FilterLANIPv4 raw = filter_lan [] raw"

section \<open>What the hub hands out\<close>

fun pickAdvertiseIPs :: "jstr list list \<Rightarrow> jstr list" where
  "pickAdvertiseIPs [] = []"
| "pickAdvertiseIPs (src # sources) =
     (let ips = FilterLANIPv4 src in if ips \<noteq> [] then ips else pickAdvertiseIPs sources)"

definition ipsFromHTTPHost :: "jstr \<Rightarrow> jstr list" where
  "ipsFromHTTPHost hst =
     (let host = go_TrimSpace hst in
      if host = [] then []
      else
        let h = trim_brackets (case SplitHostPort host of None \<Rightarrow> host | Some (h, port) \<Rightarrow> h)
        in if ParseIP h \<noteq> None then [h] else [])"

definition AdvertiseIPv4Addresses :: "machine \<Rightarrow> jstr \<Rightarrow> jstr list" where
  "AdvertiseIPv4Addresses m host = pickAdvertiseIPs [EnvAdvertiseIPs m, CollectLANIPv4 m, ipsFromHTTPHost host]"

definition joinURLs :: "nat \<Rightarrow> jstr list \<Rightarrow> jstr list" where
  "joinURLs port lan = map (\<lambda>ip. lit ''http://'' @ ip @ lit '':'' @ show_nat port) lan"

text \<open>The answer of \<open>/api/info\<close>: what the page reads, and the fields it does not read.  Times are in nanoseconds.\<close>

record info_response = conn_info +
  ir_serviceId :: jstr
  ir_discoveryVersion :: nat
  ir_publicUrl :: jstr
  ir_port :: nat
  ir_localIps :: "jstr list"
  ir_maxUploadMb :: nat

record hub_config =
  cfg_ServiceID :: jstr
  cfg_Port :: nat
  cfg_MaxUploadBytes :: nat
  cfg_Retention :: nat
  cfg_PublicURL :: jstr

text \<open>
  \<open>a\<close> has the PIN and the sessions of the hub, \<open>cookie\<close> the session of the request, \<open>host\<close> its Host header
  and \<open>count\<close> the number of devices.
\<close>

definition handleInfo ::
    "hub_config \<Rightarrow> machine \<Rightarrow> auth \<Rightarrow> jstr \<Rightarrow> jstr option \<Rightarrow> nat \<Rightarrow> nat \<Rightarrow> info_response" where
  "handleInfo cfg m a host cookie moment count =
     (let public = cfg_PublicURL cfg;
          ips = (if public \<noteq> [] then [] else AdvertiseIPv4Addresses m host);
          urls = (if public \<noteq> [] then [public] else joinURLs (cfg_Port cfg) ips);
          base = (if public \<noteq> [] then public else preferredJoinURL (cfg_Port cfg) ips);
          ok = auth_allows a cookie moment
      in \<lparr>joinUrl = hub_join_url base (code_points (auth_pin a)) ok, info_urls = urls,
          pinRequired = auth_enabled a, authorized = ok, clientCount = count,
          retentionSec = cfg_Retention cfg div 10 ^ 9,
          ir_serviceId = cfg_ServiceID cfg, ir_discoveryVersion = 1, ir_publicUrl = public, ir_port = cfg_Port cfg,
          ir_localIps = ips, ir_maxUploadMb = cfg_MaxUploadBytes cfg div 2 ^ 20\<rparr>)"

section \<open>The address shown for a device\<close>

definition isLocalInterfaceIP :: "machine \<Rightarrow> ip \<Rightarrow> bool" where
  "isLocalInterfaceIP m ip =
     (case m_ifaces m of
        None \<Rightarrow> False
      | Some is \<Rightarrow>
          list_ex (\<lambda>i. case if_addrs i of None \<Rightarrow> False
            | Some entries \<Rightarrow> list_ex (\<lambda>e. case e of None \<Rightarrow> False | Some a \<Rightarrow> IP_Equal a ip) entries) is)"

definition normalizeClientIP :: "machine \<Rightarrow> jstr \<Rightarrow> jstr" where
  "normalizeClientIP m text =
     (let raw = go_TrimSpace (trim_brackets text) in
      if raw = [] then [0x672A, 0x77E5]
      else (case ParseIP raw of
        None \<Rightarrow> raw
      | Some ip \<Rightarrow>
          (case To4 ip of
            Some v4 \<Rightarrow> IP_String v4
          | None \<Rightarrow>
              if (IsLoopback ip \<or> isLocalInterfaceIP m ip) \<and> CollectLANIPv4 m \<noteq> [] then hd (CollectLANIPv4 m)
              else if IsLoopback ip then lit ''127.0.0.1''
              else IP_String ip)))"

definition ClientIP :: "machine \<Rightarrow> (ip \<Rightarrow> bool) \<Rightarrow> http_request \<Rightarrow> jstr" where
  "ClientIP m trusted rq = normalizeClientIP m (rawClientIP ParseIP trusted rq)"

text \<open>
  What is shown for a device that is not on the hub's own machine is its address, in canonical form.
\<close>

lemma shown_address:
  assumes "ParseIP (go_TrimSpace (trim_brackets text)) = Some ip" and "\<not> IsLoopback ip" and "\<not> isLocalInterfaceIP m ip"
  shows "ParseIP (normalizeClientIP m text) = Some ip"
proof -
  have len: "length ip = 16" using assms(1) by (rule length_ParseIP)
  have "go_TrimSpace (trim_brackets text) \<noteq> []" using assms(1) by (auto simp: ParseIP_def)
  moreover have "ParseIP (IP_String v4) = Some ip" if "To4 ip = Some v4" for v4
    using ParseIP_String4 [OF To4_length [OF that]] To4_back [OF len that] by simp
  ultimately show ?thesis
    using assms len by (auto simp: normalizeClientIP_def Let_def ParseIP_String split: option.split)
qed

section \<open>The page and the hub agree\<close>

lemma lower_plain: "c < 65 \<Longrightarrow> lower_char c = c"
  by (simp add: lower_char_def)

lemma toLowerCase_digits: "toLowerCase (show_nat n) = show_nat n"
  unfolding toLowerCase_def by (intro map_idI lower_plain) (auto simp: is_digit_def dest: show_nat_digits)

lemma show_nat_length: "n < 10 ^ Suc k \<Longrightarrow> length (show_nat n) \<le> Suc k"
proof (induction k arbitrary: n)
  case 0
  then show ?case by (simp add: show_nat_small)
next
  case (Suc k)
  have "n div 10 < 10 ^ Suc k" using Suc.prems by (simp add: less_mult_imp_div_less)
  with Suc.IH show ?case by (cases "n < 10") (simp_all add: show_nat_small show_nat_big)
qed

lemma short_show_nat: "n < 1000 \<Longrightarrow> short_number (show_nat n)"
proof -
  assume "n < 1000"
  then have "length (show_nat n) \<le> 3" using show_nat_length [of n 2] by simp
  then show ?thesis
    by (auto simp: short_number_def list_all_iff Suc_le_eq dest: show_nat_digits)
qed

lemma split_show_v4:
  "splitOn 46 (toLowerCase (show_v4 [a, b, c, d])) =
     [show_nat (unat a), show_nat (unat b), show_nat (unat c), show_nat (unat d)]"
proof -
  have dot: "46 \<notin> set (show_nat n)" for n by (rule show_nat_no) (simp add: is_digit_def)
  have "toLowerCase (show_v4 [a, b, c, d]) = show_v4 [a, b, c, d]"
    unfolding show_v4_def using toLowerCase_digits by (simp add: toLowerCase_def lower_plain)
  then show ?thesis by (simp add: show_v4_def splitOn_append splitOn_plain dot)
qed

lemma octet_text: "n < 256 \<Longrightarrow> show_nat (unat (x :: octet)) = show_nat n \<longleftrightarrow> x = of_nat n"
proof -
  assume "n < 256"
  then have "unat (of_nat n :: octet) = n" by (simp add: unat_of_nat take_bit_eq_mod)
  then show ?thesis by (metis show_nat_inject word_unat_eq_iff)
qed

lemma lit_numbers: "lit ''192'' = show_nat 192" "lit ''168'' = show_nat 168" "lit ''10'' = show_nat 10"
  by (simp_all add: show_nat_big show_nat_small js_eval)

lemma lan_hosts_agree: "length v4 = 4 \<Longrightarrow> isLANIPv4Host (show_v4 v4) = IsLANIPv4 v4"
proof -
  assume "length v4 = 4"
  then obtain a b c d where v4: "v4 = [a, b, c, d]" using octet_list by blast
  have short: "short_number (show_nat (unat x))" for x :: octet
    using unat_octet [of x] by (intro short_show_nat) simp
  show ?thesis
    using octet_text [of 192 a] octet_text [of 168 b] octet_text [of 10 a]
    by (simp add: v4 isLANIPv4Host_def split_show_v4 lit_numbers short IsLANIPv4_def To4_def)
qed

section \<open>What is handed out is usable\<close>

text \<open>The text of an address of the local network.\<close>

definition lan_address :: "jstr \<Rightarrow> bool" where
  "lan_address s \<longleftrightarrow> (\<exists>v4. length v4 = 4 \<and> IsLANIPv4 v4 \<and> s = show_v4 v4)"

lemma lan_text_address: "lan_text s = Some n \<Longrightarrow> lan_address n"
  unfolding lan_text_def lan_address_def
  by (auto simp: IP_String_def To4_v4 To4_length split: option.splits if_splits intro!: exI)

lemma filter_lan_spec:
  "distinct (filter_lan seen raw) \<and> set (filter_lan seen raw) = set (List.map_filter lan_text raw) - set seen"
proof (induction seen raw rule: filter_lan.induct)
  case (2 seen s raw)
  then show ?case by (auto simp: map_filter_simps split: option.splits)
qed (simp add: map_filter_simps)

lemma FilterLANIPv4_spec: "distinct (FilterLANIPv4 raw)" "set (FilterLANIPv4 raw) = set (List.map_filter lan_text raw)"
  using filter_lan_spec [of "[]" raw] by (simp_all add: FilterLANIPv4_def)

text \<open>The first source that has an address of the local network at all.\<close>

lemma pickAdvertiseIPs_find:
  "pickAdvertiseIPs sources =
     (case List.find (\<lambda>src. FilterLANIPv4 src \<noteq> []) sources of None \<Rightarrow> [] | Some src \<Rightarrow> FilterLANIPv4 src)"
  by (induction sources rule: pickAdvertiseIPs.induct) (simp_all add: Let_def)

lemma advertised:
  "distinct (AdvertiseIPv4Addresses m host)" "s \<in> set (AdvertiseIPv4Addresses m host) \<Longrightarrow> lan_address s"
  using FilterLANIPv4_spec lan_text_address
  by (auto simp: AdvertiseIPv4Addresses_def pickAdvertiseIPs_find map_filter_def split: option.splits)

text \<open>The address of a page opened at a host and port; the browser leaves out the default port.\<close>

definition page_at :: "jstr \<Rightarrow> nat \<Rightarrow> page_location" where
  "page_at host port =
     (let h = host @ (if port = 80 then [] else lit '':'' @ show_nat port) in
      \<lparr>loc_origin = lit ''http://'' @ h, loc_hostname = host, loc_host = h, loc_href = lit ''http://'' @ h @ [47],
       loc_hash = [], loc_search = []\<rparr>)"

lemma lan_address_plain: "lan_address s \<Longrightarrow> c \<in> set s \<Longrightarrow> is_digit c \<or> c = 46"
proof -
  assume "lan_address s" "c \<in> set s"
  then obtain v4 where "length v4 = 4" "c \<in> set (show_v4 v4)" by (auto simp: lan_address_def)
  then obtain a b d e where "c \<in> set (show_v4 [a, b, d, e])" using octet_list by blast
  then show ?thesis by (auto simp: show_v4_def dest: show_nat_digits)
qed

definition pin_fragment :: "auth \<Rightarrow> bool \<Rightarrow> jstr" where
  "pin_fragment a ok = (if auth_enabled a \<and> ok then lit ''#pin='' @ QueryEscape (code_points (auth_pin a)) else [])"

lemma code_points_Nil_iff: "code_points s = [] \<longleftrightarrow> s = []"
  by (cases s rule: code_points.cases) auto

lemma hub_join_url_fragment:
  assumes "base \<noteq> []" and "35 \<notin> set base"
  shows "fragment (hub_join_url base (code_points (auth_pin a)) ok) = pin_fragment a ok"
proof -
  have "hub_join_url base (code_points (auth_pin a)) ok =
      (if auth_enabled a \<and> ok then (base @ [47]) @ 35 # lit ''pin='' @ QueryEscape (code_points (auth_pin a)) else base)"
    using assms(1) by (simp add: hub_join_url_def auth_enabled_def code_points_Nil_iff js_eval)
  with fragment_append(1) [of "base @ [47]"] fragment_append(2) [of base] assms(2) show ?thesis
    by (simp add: pin_fragment_def js_eval)
qed

lemma join_base:
  assumes "AdvertiseIPv4Addresses m host \<noteq> []"
  shows "preferredJoinURL port (AdvertiseIPv4Addresses m host) = hd (joinURLs port (AdvertiseIPv4Addresses m host))"
    and "35 \<notin> set (preferredJoinURL port (AdvertiseIPv4Addresses m host))"
    and "preferredJoinURL port (AdvertiseIPv4Addresses m host) \<noteq> []"
proof -
  obtain ip ips where ips: "AdvertiseIPv4Addresses m host = ip # ips" using assms by (cases "AdvertiseIPv4Addresses m host") auto
  have "lan_address ip" using advertised(2) [of ip m host] ips by simp
  then have "35 \<notin> set ip" using lan_address_plain [of ip 35] by (auto simp: is_digit_def)
  moreover have "35 \<notin> set (show_nat port)" by (rule show_nat_no) (simp add: is_digit_def)
  ultimately show "preferredJoinURL port (AdvertiseIPv4Addresses m host) = hd (joinURLs port (AdvertiseIPv4Addresses m host))"
    "35 \<notin> set (preferredJoinURL port (AdvertiseIPv4Addresses m host))"
    "preferredJoinURL port (AdvertiseIPv4Addresses m host) \<noteq> []"
    by (simp_all add: ips preferredJoinURL_def joinURLs_def js_eval)
qed

text \<open>
  C18. Every address the hub advertises is one to join by.  Whatever the machine's interfaces, the
  configured addresses and the Host header of the request are: the addresses in the answer of \<open>/api/info\<close> are distinct, and the first of them is the join link,
  with the PIN if the device is let in.  With a public URL it is the only one.  Without (the mode of the local network) they are
  addresses of the local network, and a page opened at any of them
  recognises its own address as one of the local network and shows exactly that address, with the PIN if the device is let in.
\<close>

theorem advertised_joinable:
  assumes "answer = handleInfo cfg m a host cookie moment count" and "url \<in> set (info_urls answer)"
  shows "distinct (info_urls answer)
    \<and> joinUrl answer = hub_join_url (hd (info_urls answer)) (code_points (auth_pin a)) (auth_allows a cookie moment)
    \<and> (if cfg_PublicURL cfg \<noteq> [] then info_urls answer = [cfg_PublicURL cfg]
       else \<exists>v4. length v4 = 4 \<and> IsLANIPv4 v4 \<and> url = lit ''http://'' @ show_v4 v4 @ lit '':'' @ show_nat (cfg_Port cfg)
         \<and> (let loc = page_at (show_v4 v4) (cfg_Port cfg) in
            isLANIPv4Host (loc_hostname loc)
            \<and> pickJoinURL loc (conn_info.truncate answer) = loc_origin loc @ [47] @ pin_fragment a (auth_allows a cookie moment)))"
proof (cases "cfg_PublicURL cfg = []")
  case False
  then show ?thesis using assms(1) by (simp add: handleInfo_def Let_def)
next
  case True
  let ?ips = "AdvertiseIPv4Addresses m host"
  have urls: "info_urls answer = joinURLs (cfg_Port cfg) ?ips" using assms(1) True by (simp add: handleInfo_def Let_def)
  then have ne: "?ips \<noteq> []" using assms(2) by (auto simp: joinURLs_def)
  have join: "joinUrl answer = hub_join_url (preferredJoinURL (cfg_Port cfg) ?ips) (code_points (auth_pin a)) (auth_allows a cookie moment)"
    using assms(1) True by (simp add: handleInfo_def Let_def)
  have "distinct (info_urls answer)"
    unfolding urls joinURLs_def using advertised(1) by (auto simp: distinct_map inj_on_def)
  moreover obtain ip where ip: "ip \<in> set ?ips" "url = lit ''http://'' @ ip @ lit '':'' @ show_nat (cfg_Port cfg)"
    using assms(2) unfolding urls by (auto simp: joinURLs_def)
  obtain v4 where v4: "length v4 = 4" "IsLANIPv4 v4" "ip = show_v4 v4" using advertised(2) [OF ip(1)] by (auto simp: lan_address_def)
  moreover have "isLANIPv4Host (loc_hostname (page_at ip (cfg_Port cfg)))"
    using v4 lan_hosts_agree by (simp add: page_at_def Let_def)
  moreover have "fragment (joinUrl answer) = pin_fragment a (auth_allows a cookie moment)"
    unfolding join using hub_join_url_fragment [OF join_base(3,2) [OF ne]] by simp
  ultimately show ?thesis
    using ip(2) join join_base(1) [OF ne] urls True
    by (auto simp: Let_def pickJoinURL_def conn_info.truncate_def intro!: exI [of _ v4])
qed

definition demo_machine :: machine where
  "demo_machine = \<lparr>m_advertise = [],
     m_ifaces = Some [\<lparr>if_name = lit ''lo'', if_up = True, if_loopback = True, if_addrs = Some [Some [127, 0, 0, 1]]\<rparr>,
       \<lparr>if_name = lit ''docker0'', if_up = True, if_loopback = False, if_addrs = Some [Some [10, 0, 3, 1]]\<rparr>,
       \<lparr>if_name = lit ''eth0'', if_up = True, if_loopback = False, if_addrs = Some [Some (v4InV6 [192, 168, 1, 7]), None]\<rparr>]\<rparr>"

definition demo_config :: hub_config where
  "demo_config = \<lparr>cfg_ServiceID = [], cfg_Port = 8787, cfg_MaxUploadBytes = 500 * 2 ^ 20, cfg_Retention = 3600 * 10 ^ 9, cfg_PublicURL = []\<rparr>"

lemma demo_collect: "CollectLANIPv4 demo_machine = [show_v4 [192, 168, 1, 7]]"
  by (simp add: CollectLANIPv4_def demo_machine_def lan_iface_def lan_entry_def IsVirtualInterface_def virtualPrefixes_def
      startsWith_def toLowerCase_def lower_char_def IsLoopback_def To4_v4InV6 To4_v4 IsLANIPv4_def IP_String_def
      map_filter_simps js_eval)

lemma demo_advertised: "AdvertiseIPv4Addresses demo_machine (lit ''hub.local:8787'') = [show_v4 [192, 168, 1, 7]]"
proof -
  have "EnvAdvertiseIPs demo_machine = []" by (simp add: EnvAdvertiseIPs_def demo_machine_def go_TrimSpace_def)
  moreover have "lan_text (show_v4 [192, 168, 1, 7]) = Some (show_v4 [192, 168, 1, 7])"
  proof -
    have "go_TrimSpace (show_v4 [192, 168, 1, 7]) = show_v4 [192, 168, 1, 7]"
      by (simp add: show_v4_def show_nat_big show_nat_small go_TrimSpace_def go_is_space_def)
    then show ?thesis by (simp add: lan_text_def ParseIP_show_v4 IsLANIPv4_def To4_v4 IP_String_def)
  qed
  ultimately show ?thesis by (simp add: AdvertiseIPv4Addresses_def demo_collect FilterLANIPv4_def)
qed

theorem advertised_joinable_witness:
  "pickJoinURL (page_at (lit ''192.168.1.7'') 8787)
      (conn_info.truncate (handleInfo demo_config demo_machine (newAuthState (lit ''42'')) (lit ''hub.local:8787'') None 0 1))
    = lit ''http://192.168.1.7:8787/''"
proof -
  let ?info = "handleInfo demo_config demo_machine (newAuthState (lit ''42'')) (lit ''hub.local:8787'') None 0 1"
  have ip: "show_v4 [192, 168, 1, 7] = lit ''192.168.1.7''" by (simp add: show_v4_def show_nat_big show_nat_small js_eval)
  have url: "info_urls ?info = [lit ''http://'' @ lit ''192.168.1.7'' @ lit '':'' @ show_nat 8787]"
    by (simp add: handleInfo_def Let_def demo_config_def demo_advertised joinURLs_def ip)
  have local: "cfg_PublicURL demo_config = []" and port: "cfg_Port demo_config = 8787" by (simp_all add: demo_config_def)
  from advertised_joinable [OF HOL.refl, of "lit ''http://'' @ lit ''192.168.1.7'' @ lit '':'' @ show_nat 8787" demo_config demo_machine
      "newAuthState (lit ''42'')" "lit ''hub.local:8787''" None 0 1]
  obtain v4 where v4: "lit ''http://'' @ lit ''192.168.1.7'' @ lit '':'' @ show_nat 8787 = lit ''http://'' @ show_v4 v4 @ lit '':'' @ show_nat 8787"
    "pickJoinURL (page_at (show_v4 v4) 8787) (conn_info.truncate ?info)
       = loc_origin (page_at (show_v4 v4) 8787) @ [47] @ pin_fragment (newAuthState (lit ''42'')) False"
    unfolding url port by (auto simp: local Let_def auth_allows_def auth_enabled_def newAuthState_def)
  then have "show_v4 v4 = lit ''192.168.1.7''" by simp
  with v4(2) show ?thesis
    by (simp add: page_at_def Let_def pin_fragment_def show_nat_big show_nat_small js_eval)
qed

end
