(* ===== verification/Proxies.thy ===== *)
theory Proxies
  imports Lan
begin

text \<open>
  The trusted reverse proxies (internal/config/config.go: \<open>ParseTrustedProxies\<close>; internal/server/netinfo.go:
  \<open>proxyTrust.contains\<close>): which addresses the setting \<open>LANROOM_TRUSTED_PROXIES\<close> really trusts.
\<close>

section \<open>Reading the setting\<close>

datatype proxy_error = InvalidIP jstr | InvalidCIDR jstr

definition proxy_net :: "jstr \<Rightarrow> proxy_error + ip_net" where
  "proxy_net f =
     (if 47 \<notin> set f then
        (case ParseIP f of
           None \<Rightarrow> Inl (InvalidIP f)
         | Some ip \<Rightarrow>
             (case To4 ip of
                Some v4 \<Rightarrow> Inr \<lparr>net_IP = v4, net_Mask = CIDRMask 32 32\<rparr>
              | None \<Rightarrow> Inr \<lparr>net_IP = ip, net_Mask = CIDRMask 128 128\<rparr>))
      else (case ParseCIDR f of None \<Rightarrow> Inl (InvalidCIDR f) | Some n \<Rightarrow> Inr n))"

text \<open>The loop stops at the first field that is neither an address nor a network.\<close>

fun proxy_nets :: "jstr list \<Rightarrow> proxy_error + ip_net list" where
  "proxy_nets [] = Inr []"
| "proxy_nets (f # fs) =
     (case proxy_net f of
        Inl e \<Rightarrow> Inl e
      | Inr n \<Rightarrow> (case proxy_nets fs of Inl e \<Rightarrow> Inl e | Inr ns \<Rightarrow> Inr (n # ns)))"

definition ParseTrustedProxies :: "jstr \<Rightarrow> proxy_error + ip_net list" where
  "ParseTrustedProxies raw = proxy_nets (FieldsFunc list_separator raw)"

definition proxy_contains :: "ip_net list \<Rightarrow> ip \<Rightarrow> bool" where
  "proxy_contains nets ip = list_ex (\<lambda>n. IPNet_Contains n ip) nets"

section \<open>What a field means\<close>

text \<open>
  The number of leading bits of the 16 octets an address must share with a field: all of them for a single address; the given ones
  for a network, behind the 96 bits that mark an address of version 4 when the network is written as one.
\<close>

definition field_address :: "jstr \<Rightarrow> jstr" where
  "field_address f = takeWhile (\<lambda>c. c \<noteq> 47) f"

definition field_bits :: "jstr \<Rightarrow> nat" where
  "field_bits f =
     (if 47 \<notin> set f then 128
      else read_digits (tl (dropWhile (\<lambda>c. c \<noteq> 47) f)) + (if v4_text (field_address f) then 96 else 0))"

definition is_v4 :: "ip \<Rightarrow> bool" where
  "is_v4 ip \<longleftrightarrow> To4 ip \<noteq> None"

text \<open>A network with fewer bits than the 96 is one of version 6 only.\<close>

definition covers :: "jstr \<Rightarrow> ip \<Rightarrow> bool" where
  "covers f ip \<longleftrightarrow>
     (\<exists>a. ParseIP (field_address f) = Some a \<and> take (field_bits f) (ip_bits a) = take (field_bits f) (ip_bits ip)
        \<and> (field_bits f < 96 \<longrightarrow> \<not> is_v4 ip))"

section \<open>Bits\<close>

lemma length_ip_bits: "length (ip_bits ip) = 8 * length ip"
  by (induction ip) (simp_all add: ip_bits_def)

lemma ip_bits_append: "ip_bits (a @ b) = ip_bits a @ ip_bits b"
  by (simp add: ip_bits_def)

lemma ip_bits_inject: "length a = length b \<Longrightarrow> ip_bits a = ip_bits b \<longleftrightarrow> a = b"
proof (induction a b rule: list_induct2)
  case (Cons x a y b)
  then show ?case by (simp add: ip_bits_def octet_bits_inject)
qed simp

lemma length_mask [simp]: "length (mask_octets l n) = l"
  by (induction l n rule: mask_octets.induct) simp_all

lemma length_masked [simp]: "length (masked a m) = min (length a) (length m)"
  by (simp add: masked_def)

lemma masked_masked [simp]: "masked (masked a m) m = masked a m"
  unfolding masked_def by (induction a m rule: list_induct2') (simp_all add: and.assoc)

lemma masked_append: "length a = length m \<Longrightarrow> masked (a @ b) (m @ k) = masked a m @ masked b k"
  by (simp add: masked_def)

lemma masked_full: "length a = l \<Longrightarrow> masked a (replicate l 0xFF) = a"
  unfolding masked_def
proof (induction a arbitrary: l)
  case (Cons x a)
  then show ?case by (cases l) (simp_all add: full_mask)
qed simp

lemma mask_octets_add: "mask_octets (k + l) (8 * k + n) = replicate k 0xFF @ mask_octets l n"
  by (induction k) simp_all

definition v4_prefix :: ip where
  "v4_prefix = replicate 10 0 @ [0xFF, 0xFF]"

lemma length_v4_prefix [simp]: "length v4_prefix = 12"
  by (simp add: v4_prefix_def)

lemma To4_prefix: "length ip = 16 \<Longrightarrow> To4 ip = (if take 12 ip = v4_prefix then Some (drop 12 ip) else None)"
  by (simp add: To4_def v4_prefix_def)

lemma prefix_bits:
  assumes "length a = 16" and "length b = 16"
  shows "take (96 + n) (ip_bits a) = take (96 + n) (ip_bits b) \<longleftrightarrow>
    take 12 a = take 12 b \<and> take n (ip_bits (drop 12 a)) = take n (ip_bits (drop 12 b))"
proof -
  have split: "take (96 + n) (ip_bits x) = ip_bits (take 12 x) @ take n (ip_bits (drop 12 x))" if "length x = 16" for x
  proof -
    have "ip_bits x = ip_bits (take 12 x) @ ip_bits (drop 12 x)" by (metis append_take_drop_id ip_bits_append)
    with that show ?thesis by (simp add: length_ip_bits)
  qed
  show ?thesis unfolding split [OF assms(1)] split [OF assms(2)]
    using assms by (simp add: append_eq_append_conv length_ip_bits ip_bits_inject)
qed

section \<open>Networks written as version 4 and as version 6\<close>

lemma IP_Mask16: "length a = 16 \<Longrightarrow> length m = 16 \<Longrightarrow> IP_Mask a m = masked a m"
  by (simp add: IP_Mask_def Let_def)

lemma IP_Mask4: "length v4 = 4 \<Longrightarrow> length m = 4 \<Longrightarrow> IP_Mask (v4InV6 v4) m = masked v4 m"
  by (simp add: IP_Mask_def Let_def v4InV6_def)

lemma contains_v4:
  assumes "length v4 = 4" and "length ip = 16"
  shows "IPNet_Contains \<lparr>net_IP = masked v4 (mask_octets 4 n), net_Mask = mask_octets 4 n\<rparr> ip \<longleftrightarrow>
    take (96 + n) (ip_bits (v4InV6 v4)) = take (96 + n) (ip_bits ip)"
proof -
  have "take 12 (v4InV6 v4) = v4_prefix" "drop 12 (v4InV6 v4) = v4" by (simp_all add: v4InV6_def v4_prefix_def)
  then have right: "take (96 + n) (ip_bits (v4InV6 v4)) = take (96 + n) (ip_bits ip) \<longleftrightarrow>
      take 12 ip = v4_prefix \<and> take n (ip_bits v4) = take n (ip_bits (drop 12 ip))"
    using prefix_bits [of "v4InV6 v4" ip n] assms by auto
  have "masked v4 (mask_octets 4 n) = masked (drop 12 ip) (mask_octets 4 n) \<longleftrightarrow> take n (ip_bits v4) = take n (ip_bits (drop 12 ip))"
    using masked_prefix [of v4 "drop 12 ip" n] assms by simp
  with assms show ?thesis unfolding right
    by (simp add: IPNet_Contains_def number_and_mask_def Let_def To4_v4 To4_prefix)
qed

lemma mask_octets_16: "n \<le> 128 \<Longrightarrow> 96 \<le> n \<Longrightarrow> mask_octets 16 n = replicate 12 0xFF @ mask_octets 4 (n - 96)"
  using mask_octets_add [of 12 4 "n - 96"] by simp

lemma mask_octets_nth: "i < l \<Longrightarrow> n < 8 * Suc i \<Longrightarrow> \<not> bit (mask_octets l n ! i) 0"
proof (induction l n arbitrary: i rule: mask_octets.induct)
  case (2 l n)
  have zero: "\<not> bit (NOT (drop_bit n (0xFF :: octet))) 0" if "n < 8"
    unfolding bit_not_iff bit_drop_bit_eq comp_apply bit_ff using that by simp
  show ?case
  proof (cases i)
    case 0
    with 2 zero show ?thesis by auto
  next
    case (Suc j)
    with 2 show ?thesis by (cases "8 \<le> n") auto
  qed
qed simp

lemma contains_v6:
  assumes "length a = 16" and "length ip = 16" and "n \<le> 128"
  shows "IPNet_Contains \<lparr>net_IP = masked a (mask_octets 16 n), net_Mask = mask_octets 16 n\<rparr> ip \<longleftrightarrow>
    take n (ip_bits a) = take n (ip_bits ip) \<and> (n < 96 \<longrightarrow> \<not> is_v4 ip)"
proof (cases "96 \<le> n")
  case True
  have m: "mask_octets 16 n = replicate 12 0xFF @ mask_octets 4 (n - 96)" using mask_octets_16 assms(3) True by blast
  have "masked (take 12 a @ drop 12 a) (mask_octets 16 n) = take 12 a @ masked (drop 12 a) (mask_octets 4 (n - 96))"
    unfolding m using assms(1) by (simp add: masked_append masked_full del: append_take_drop_id)
  then have ma: "masked a (mask_octets 16 n) = take 12 a @ masked (drop 12 a) (mask_octets 4 (n - 96))" by simp
  have mask: "masked a (mask_octets 16 n) = masked ip (mask_octets 16 n) \<longleftrightarrow> take n (ip_bits a) = take n (ip_bits ip)"
    using masked_prefix [of a ip n] assms by simp
  have tail: "masked (drop 12 a) (mask_octets 4 (n - 96)) = masked (drop 12 ip) (mask_octets 4 (n - 96)) \<longleftrightarrow>
      take (n - 96) (ip_bits (drop 12 a)) = take (n - 96) (ip_bits (drop 12 ip))"
    using masked_prefix [of "drop 12 a" "drop 12 ip" "n - 96"] assms by simp
  have both: "take n (ip_bits a) = take n (ip_bits ip) \<longleftrightarrow>
      take 12 a = take 12 ip \<and> take (n - 96) (ip_bits (drop 12 a)) = take (n - 96) (ip_bits (drop 12 ip))"
    using prefix_bits [OF assms(1,2), of "n - 96"] True by simp
  have "To4 (masked a (mask_octets 16 n)) = (if take 12 a = v4_prefix then Some (masked (drop 12 a) (mask_octets 4 (n - 96))) else None)"
    unfolding ma using assms(1) by (subst To4_prefix) simp_all
  moreover have "drop 12 (mask_octets 16 n) = mask_octets 4 (n - 96)" unfolding m by simp
  ultimately show ?thesis
    using assms True mask tail both
    by (auto simp: IPNet_Contains_def number_and_mask_def Let_def To4_prefix)
next
  case False
  have "\<not> bit (masked a (mask_octets 16 n) ! 11) 0"
    using mask_octets_nth [of 11 16 n] False assms(1) by (simp add: masked_def bit_and_iff)
  moreover have "bit (v4_prefix ! 11) 0" by (simp add: v4_prefix_def nth_append bit_0)
  moreover have "take 12 x ! 11 = x ! 11" for x :: ip by simp
  ultimately have "take 12 (masked a (mask_octets 16 n)) \<noteq> v4_prefix" by metis
  then have "To4 (masked a (mask_octets 16 n)) = None" using assms(1) by (subst To4_prefix) simp_all
  moreover have "masked a (mask_octets 16 n) = masked ip (mask_octets 16 n) \<longleftrightarrow> take n (ip_bits a) = take n (ip_bits ip)"
    using masked_prefix [of a ip n] assms by simp
  ultimately show ?thesis using assms False
    by (auto simp: IPNet_Contains_def number_and_mask_def Let_def To4_prefix is_v4_def)
qed

section \<open>Exactly what was written\<close>

lemma field_address_plain: "47 \<notin> set f \<Longrightarrow> field_address f = f"
  by (auto simp: field_address_def takeWhile_eq_all_conv)

lemma v4_text_parse: "ParseIP s = Some ip \<Longrightarrow> v4_text s \<Longrightarrow> \<exists>v4. length v4 = 4 \<and> ip = v4InV6 v4"
  by (auto simp: ParseIP_def v4_text_def parseIPv4_def dest!: length_parseIPv4 split: list.splits if_splits)

lemma proxy_net_covers:
  assumes "proxy_net f = Inr n" and "length ip = 16"
  shows "IPNet_Contains n ip \<longleftrightarrow> covers f ip"
proof (cases "47 \<in> set f")
  case False
  then obtain a where a: "ParseIP f = Some a"
    and n: "n = (case To4 a of Some v4 \<Rightarrow> \<lparr>net_IP = v4, net_Mask = CIDRMask 32 32\<rparr> | None \<Rightarrow> \<lparr>net_IP = a, net_Mask = CIDRMask 128 128\<rparr>)"
    using assms(1) by (auto simp: proxy_net_def split: option.splits)
  have len: "length a = 16" using a by (rule length_ParseIP)
  have all: "take 128 (ip_bits x) = ip_bits x" if "length x = 16" for x using that by (simp add: length_ip_bits)
  have covers: "covers f ip \<longleftrightarrow> take 128 (ip_bits a) = take 128 (ip_bits ip)"
    using False a by (simp add: covers_def field_address_plain field_bits_def)
  show ?thesis
  proof (cases "To4 a")
    case (Some v4)
    then have v4: "length v4 = 4" "a = v4InV6 v4" using To4_length To4_back len by blast+
    have "masked v4 (mask_octets 4 32) = v4"
      using masked_full [OF v4(1)] mask_octets_add [of 4 0 0] by (simp add: numeral_eq_Suc)
    with contains_v4 [OF v4(1) assms(2), of 32] Some n v4(2) covers show ?thesis by (simp add: CIDRMask_def)
  next
    case None
    have "masked a (mask_octets 16 128) = a"
      using masked_full [OF len] mask_octets_16 [of 128] mask_octets_add [of 4 0 0] by (simp add: numeral_eq_Suc)
    with contains_v6 [OF len assms(2), of 128] None n covers show ?thesis by (simp add: CIDRMask_def)
  qed
next
  case True
  let ?mask = "tl (dropWhile (\<lambda>c. c \<noteq> 47) f)" and ?bits = "if v4_text (field_address f) then 32 else 128"
  obtain a where a: "ParseIP (field_address f) = Some a" and k: "read_digits ?mask \<le> ?bits"
    and n: "n = \<lparr>net_IP = IP_Mask a (CIDRMask (read_digits ?mask) ?bits), net_Mask = CIDRMask (read_digits ?mask) ?bits\<rparr>"
    using assms(1) True by (auto simp: proxy_net_def ParseCIDR_def field_address_def Let_def split: option.splits if_splits)
  have len: "length a = 16" using a by (rule length_ParseIP)
  show ?thesis
  proof (cases "v4_text (field_address f)")
    case v4: True
    with v4_text_parse [OF a] obtain v where v: "length v = 4" "a = v4InV6 v" by blast
    from contains_v4 [OF v(1) assms(2), of "read_digits ?mask"] True v4 a n v show ?thesis
      by (simp add: CIDRMask_def IP_Mask4 covers_def field_bits_def add.commute)
  next
    case v6: False
    with k contains_v6 [OF len assms(2), of "read_digits ?mask"] True a n len show ?thesis
      by (simp add: CIDRMask_def IP_Mask16 covers_def field_bits_def)
  qed
qed

lemma proxy_nets_covers:
  "proxy_nets fs = Inr nets \<Longrightarrow> length ip = 16 \<Longrightarrow> proxy_contains nets ip \<longleftrightarrow> (\<exists>f \<in> set fs. covers f ip)"
  by (induction fs arbitrary: nets) (auto simp: proxy_contains_def proxy_net_covers split: sum.splits)

text \<open>
  C29. A proxy is trusted exactly when the setting lists it.  If the setting is accepted, the forwarding headers of a
  request are read if and only if the address of its sender is one of the addresses written in the setting, or agrees with one of
  the networks in as many leading bits as written there; an address of version 4 and its form inside version 6 count as
  the same, and a network of version 6 with fewer than 96 bits holds no address of version 4.
\<close>

theorem trusted_exactly:
  assumes "ParseTrustedProxies raw = Inr nets"
  shows "fromProxy ParseIP (proxy_contains nets) rq \<longleftrightarrow>
    (\<exists>ip. ParseIP (peerIP rq) = Some ip \<and> (\<exists>f \<in> set (FieldsFunc list_separator raw). covers f ip))"
  using proxy_nets_covers [OF assms [unfolded ParseTrustedProxies_def]] length_ParseIP
  by (auto simp: fromProxy_def split: option.splits)

text \<open>A single address and a network, as in the test of the repository, and a request through 10.1.2.3.\<close>

definition demo_setting :: jstr where
  "demo_setting = lit ''127.0.0.1, 10.0.0.0/8''"

definition through_proxy :: http_request where
  "through_proxy = \<lparr>rq_remote = lit ''10.1.2.3:80'', rq_tls = False, rq_forwarded_for = [], rq_real_ip = [], rq_forwarded_proto = []\<rparr>"

lemma demo_fields: "FieldsFunc list_separator demo_setting = [lit ''127.0.0.1'', lit ''10.0.0.0/8'']"
  by (simp add: FieldsFunc.simps list_separator_def demo_setting_def js_eval)

lemma demo_texts:
  "lit ''127.0.0.1'' = show_v4 [127, 0, 0, 1]" "lit ''10.0.0.0'' = show_v4 [10, 0, 0, 0]" "lit ''10.1.2.3'' = show_v4 [10, 1, 2, 3]"
  by (simp_all add: show_v4_def show_nat_big show_nat_small js_eval)

lemma demo_network:
  "field_address (lit ''10.0.0.0/8'') = lit ''10.0.0.0''" "field_bits (lit ''10.0.0.0/8'') = 104" "47 \<in> set (lit ''10.0.0.0/8'')"
  "tl (dropWhile (\<lambda>c. c \<noteq> 47) (lit ''10.0.0.0/8'')) = lit ''8''"
  by (simp_all add: field_address_def field_bits_def v4_text_def read_digits_def js_eval)

theorem trusted_exactly_witness:
  "\<exists>nets. ParseTrustedProxies demo_setting = Inr nets \<and> fromProxy ParseIP (proxy_contains nets) through_proxy"
proof -
  have "47 \<notin> set (lit ''127.0.0.1'')" by (simp add: js_eval)
  then have "proxy_net (lit ''127.0.0.1'') = Inr \<lparr>net_IP = [127, 0, 0, 1], net_Mask = CIDRMask 32 32\<rparr>"
    by (simp add: proxy_net_def demo_texts(1) ParseIP_show_v4)
  moreover have eight: "lit ''8'' = [56]" by (simp add: js_eval)
  moreover have "ParseCIDR (lit ''10.0.0.0/8'') \<noteq> None"
    unfolding ParseCIDR_def field_address_def [symmetric] demo_network(1,4) eight demo_texts(2)
    using demo_network(3) by (simp add: ParseIP_show_v4 Let_def read_digits_def is_digit_def)
  ultimately obtain nets where nets: "ParseTrustedProxies demo_setting = Inr nets"
    using demo_network(3) by (auto simp: ParseTrustedProxies_def demo_fields proxy_net_def)
  have peer: "peerIP through_proxy = show_v4 [10, 1, 2, 3]"
    unfolding demo_texts(3) [symmetric]
    by (simp add: peerIP_def through_proxy_def SplitHostPort_def last_colon_def trim_brackets_def js_eval)
  have "covers (lit ''10.0.0.0/8'') (v4InV6 [10, 1, 2, 3])"
    unfolding covers_def demo_network demo_texts(2)
    by (simp add: ParseIP_show_v4 v4InV6_def ip_bits_def octet_bits_inject length_concat sum_list_replicate)
  with trusted_exactly [OF nets, of through_proxy] peer have "fromProxy ParseIP (proxy_contains nets) through_proxy"
    by (auto simp: ParseIP_show_v4 demo_fields)
  with nets show ?thesis by blast
qed

end
