(* ===== verification/Config.thy ===== *)
theory Config
  imports Proxies Handshake
begin

text \<open>
  The settings of the hub (internal/config/config.go) and the check of the origin before a WebSocket is accepted
  (internal/server/server.go: \<open>sameOrigin\<close>).  The environment variables are arguments; \<open>url.Parse\<close> and
  \<open>time.ParseDuration\<close> are the parameters \<open>parse_url\<close> and \<open>parse_duration\<close> (nanoseconds), \<open>None\<close> being their errors.
\<close>

section \<open>Settings\<close>

text \<open>\<open>strconv.Atoi\<close> on a 64-bit machine.\<close>

definition Atoi :: "jstr \<Rightarrow> int option" where
  "Atoi s =
     (let neg = (s \<noteq> [] \<and> hd s = 45); ds = (if s \<noteq> [] \<and> (hd s = 45 \<or> hd s = 43) then tl s else s);
          v = (if neg then - int (read_digits ds) else int (read_digits ds))
      in if ds = [] \<or> \<not> list_all is_digit ds \<or> v < - (2 ^ 63) \<or> 2 ^ 63 \<le> v then None else Some v)"

definition DefaultMaxUploadMB :: int where
  "DefaultMaxUploadMB = 500"

definition MaxUploadCapMB :: int where
  "MaxUploadCapMB = 4096"

text \<open>\<open>int64(mb) << 20\<close> on the machine's 64-bit word.\<close>

definition MaxUploadBytes :: "jstr \<Rightarrow> 64 word" where
  "MaxUploadBytes setting =
     (let raw = go_TrimSpace setting;
          mb = (if raw = [] then DefaultMaxUploadMB
                else case Atoi raw of None \<Rightarrow> DefaultMaxUploadMB | Some n \<Rightarrow> if 0 < n then n else DefaultMaxUploadMB);
          mb = (if MaxUploadCapMB < mb then MaxUploadCapMB else mb)
      in push_bit 20 (word_of_int mb))"

definition MaxUploadMB :: "jstr \<Rightarrow> 64 word" where
  "MaxUploadMB setting = signed_drop_bit 20 (MaxUploadBytes setting)"

definition DefaultRetention :: int where
  "DefaultRetention = 3600 * 10 ^ 9"

definition minRetention :: int where
  "minRetention = 60 * 10 ^ 9"

definition Retention :: "(jstr \<Rightarrow> int option) \<Rightarrow> jstr \<Rightarrow> int" where
  "Retention parse_duration setting =
     (let raw = go_TrimSpace setting in
      if raw = [] then DefaultRetention
      else (case parse_duration raw of
        None \<Rightarrow> DefaultRetention
      | Some d \<Rightarrow> if d \<le> 0 then DefaultRetention else if d < minRetention then minRetention else d))"

definition ListenAddr :: "jstr \<Rightarrow> nat \<Rightarrow> jstr" where
  "ListenAddr setting port = or_default (go_TrimSpace setting) (58 # show_nat port)"

record url_parts =
  url_scheme :: jstr
  url_host :: jstr
  url_path :: jstr
  url_query :: jstr
  url_fragment :: jstr

datatype url_error = CannotParse | WrongScheme jstr | NoHost jstr | HasPath jstr

definition trim_slashes :: "jstr \<Rightarrow> jstr" where
  "trim_slashes s = rev (dropWhile (\<lambda>c. c = 47) (rev s))"

definition ParsePublicURL :: "(jstr \<Rightarrow> url_parts option) \<Rightarrow> jstr \<Rightarrow> url_error + jstr" where
  "ParsePublicURL parse_url setting =
     (let raw = trim_slashes (go_TrimSpace setting) in
      if raw = [] then Inr []
      else (case parse_url raw of
        None \<Rightarrow> Inl CannotParse
      | Some u \<Rightarrow>
          if url_scheme u \<noteq> lit ''http'' \<and> url_scheme u \<noteq> lit ''https'' then Inl (WrongScheme raw)
          else if url_host u = [] then Inl (NoHost raw)
          else if url_path u \<noteq> [] \<or> url_query u \<noteq> [] \<or> url_fragment u \<noteq> [] then Inl (HasPath raw)
          else Inr (url_scheme u @ lit ''://'' @ url_host u)))"

section \<open>The origin of a WebSocket\<close>

text \<open>\<open>strings.EqualFold\<close> on host names, which are ASCII.\<close>

definition EqualFold :: "jstr \<Rightarrow> jstr \<Rightarrow> bool" where
  "EqualFold a b \<longleftrightarrow> toLowerCase a = toLowerCase b"

text \<open>\<open>sender\<close> is the Origin header, empty when there is none, and \<open>host\<close> the host the request names.\<close>

definition sameOrigin :: "(jstr \<Rightarrow> url_parts option) \<Rightarrow> jstr \<Rightarrow> jstr \<Rightarrow> jstr \<Rightarrow> bool" where
  "sameOrigin parse_url public sender host =
     (if sender = [] then True
      else (case parse_url sender of
        None \<Rightarrow> False
      | Some u \<Rightarrow>
          if EqualFold (url_host u) host then True
          else if public \<noteq> [] then
            (case parse_url public of None \<Rightarrow> False | Some pub \<Rightarrow> EqualFold (url_host u) (url_host pub))
          else False))"

section \<open>Bounds\<close>

text \<open>
  Whatever the variable is set to, the limit is at least one MiB and at most 4 GiB: the shift does not overflow, and the MiB shown
  to the page are exactly the bytes enforced.
\<close>

lemma limit_word:
  assumes "1 \<le> mb" and "mb \<le> 4096"
  shows "sint (push_bit 20 (word_of_int mb :: 64 word)) = mb * 2 ^ 20"
    and "sint (signed_drop_bit 20 (push_bit 20 (word_of_int mb :: 64 word))) = mb"
proof -
  have "push_bit 20 (word_of_int mb :: 64 word) = word_of_int (mb * 2 ^ 20)"
    by (simp add: push_bit_eq_mult)
  moreover have "sint (word_of_int (mb * 2 ^ 20) :: 64 word) = mb * 2 ^ 20"
  proof -
    have "signed_take_bit 63 (mb * 2 ^ 20) = mb * 2 ^ 20" using assms by (intro signed_take_bit_int_eq_self) simp_all
    then show ?thesis unfolding signed_of_int by simp
  qed
  ultimately show s: "sint (push_bit 20 (word_of_int mb :: 64 word)) = mb * 2 ^ 20" by simp
  show "sint (signed_drop_bit 20 (push_bit 20 (word_of_int mb :: 64 word))) = mb"
    by (simp only: sint_signed_drop_bit_eq s drop_bit_eq_div) simp
qed

lemma upload_limit:
  "\<exists>mb. 1 \<le> mb \<and> mb \<le> 4096 \<and> sint (MaxUploadBytes setting) = mb * 2 ^ 20 \<and> sint (MaxUploadMB setting) = mb"
proof -
  define mb where "mb = (let raw = go_TrimSpace setting;
      mb = (if raw = [] then DefaultMaxUploadMB
            else case Atoi raw of None \<Rightarrow> DefaultMaxUploadMB | Some n \<Rightarrow> if 0 < n then n else DefaultMaxUploadMB)
    in if MaxUploadCapMB < mb then MaxUploadCapMB else mb)"
  have "1 \<le> mb" "mb \<le> 4096"
    by (auto simp: mb_def Let_def DefaultMaxUploadMB_def MaxUploadCapMB_def split: option.split)
  moreover have "MaxUploadBytes setting = push_bit 20 (word_of_int mb)"
    by (simp add: MaxUploadBytes_def mb_def Let_def)
  ultimately show ?thesis using limit_word [of mb] by (intro exI [of _ mb]) (simp add: MaxUploadMB_def)
qed

lemma retention_at_least: "minRetention \<le> Retention parse_duration setting"
  by (auto simp: Retention_def Let_def minRetention_def DefaultRetention_def split: option.split)

section \<open>Other sites are refused\<close>

text \<open>What a browser sends as the origin of a page at a host; \<open>plain_url\<close> says how \<open>url.Parse\<close> reads such an address.\<close>

definition page_origin :: "jstr \<Rightarrow> jstr \<Rightarrow> jstr" where
  "page_origin scheme host = scheme @ lit ''://'' @ host"

definition plain_url :: "(jstr \<Rightarrow> url_parts option) \<Rightarrow> jstr \<Rightarrow> jstr \<Rightarrow> bool" where
  "plain_url parse_url scheme host \<longleftrightarrow>
     (\<exists>u. parse_url (page_origin scheme host) = Some u \<and> url_host u = host)"

lemma origin_checked:
  assumes "plain_url parse_url scheme site" and "public = [] \<or> plain_url parse_url pscheme phost \<and> public = page_origin pscheme phost"
  shows "sameOrigin parse_url public (page_origin scheme site) host \<longleftrightarrow>
    EqualFold site host \<or> public \<noteq> [] \<and> EqualFold site phost"
  using assms by (auto simp: sameOrigin_def plain_url_def page_origin_def js_eval)

text \<open>
  The WebSocket of the page itself is accepted, also when a proxy in front of a public hub replaces the Host header; one that
  a page of another site opens is not.
\<close>

lemma other_site_refused:
  assumes "plain_url parse_url scheme site" and "plain_url parse_url pscheme phost"
    and "\<not> EqualFold site host" and "\<not> EqualFold site phost"
  shows "handleWebSocket digest rnd (sameOrigin parse_url (page_origin pscheme phost) (page_origin scheme site) host) agent ip raw = None"
  using origin_checked [OF assms(1), of "page_origin pscheme phost" pscheme phost host] assms by (simp add: handleWebSocket_def)

lemma own_page_accepted:
  assumes "plain_url parse_url scheme site" and "plain_url parse_url pscheme phost" and "EqualFold site host \<or> EqualFold site phost"
  shows "sameOrigin parse_url (page_origin pscheme phost) (page_origin scheme site) host"
  using origin_checked [OF assms(1), of "page_origin pscheme phost" pscheme phost host] assms by (auto simp: page_origin_def js_eval)

end
