(* ===== verification/Heartbeat.thy ===== *)
theory Heartbeat
  imports Hub
begin

text \<open>
  The two goroutines of a connection (internal/hub/hub.go: \<open>ReadPump\<close>, \<open>WritePump\<close>) with their deadlines: the pings, the pongs
  that move the read deadline, the write deadline of each frame.  Times are in milliseconds.

  A ticker gives at most one tick in advance: a tick that finds the last one still waiting is dropped.  \<open>select\<close> takes any
  case that is ready.  A write takes time, and the read side goes on meanwhile.
\<close>

section \<open>State\<close>

definition writeWait :: nat where
  "writeWait = 10 * 1000"

definition pongWait :: nat where
  "pongWait = 60 * 1000"

definition pingPeriod :: nat where
  "pingPeriod = pongWait * 9 div 10"

datatype job = SendFrame server_msg | SendPing | SendClose

record link =
  lk_deadline :: nat
  lk_next_tick :: nat
  lk_tick :: bool
  lk_queue :: "server_msg list"
  lk_closed :: bool
  lk_busy :: "(job \<times> nat) option"
  lk_wire :: "job list"
  lk_writer :: bool
  lk_open :: bool
  lk_registered :: bool

text \<open>At the start of the two goroutines: \<open>SetReadDeadline\<close> and \<open>NewTicker\<close>.\<close>

definition start_link :: "nat \<Rightarrow> link" where
  "start_link t0 = \<lparr>lk_deadline = t0 + pongWait, lk_next_tick = t0 + pingPeriod, lk_tick = False, lk_queue = [], lk_closed = False,
     lk_busy = None, lk_wire = [], lk_writer = True, lk_open = True, lk_registered = True\<rparr>"

section \<open>Steps\<close>

datatype link_event =
    Enqueue server_msg
  | Tick
  | TakeFrame
  | TakeTick
  | TakeClose
  | WriteDone
  | WriteFails
  | PongArrives
  | DataArrives
  | ReadTimesOut
  | ReadFails

text \<open>The deferred calls: \<open>Unregister\<close>, which closes the channel, and \<open>Close\<close>; \<open>WritePump\<close> only closes the connection.\<close>

definition end_reader :: "link \<Rightarrow> link" where
  "end_reader l = l\<lparr>lk_registered := False, lk_closed := True, lk_open := False\<rparr>"

definition end_writer :: "link \<Rightarrow> link" where
  "end_writer l = l\<lparr>lk_writer := False, lk_busy := None, lk_open := False\<rparr>"

fun link_step :: "nat \<Rightarrow> link_event \<Rightarrow> link \<Rightarrow> link" where
  "link_step t (Enqueue m) l = l\<lparr>lk_queue := lk_queue l @ [m]\<rparr>"
| "link_step t Tick l = l\<lparr>lk_tick := True, lk_next_tick := lk_next_tick l + pingPeriod\<rparr>"
| "link_step t TakeFrame l = l\<lparr>lk_queue := tl (lk_queue l), lk_busy := Some (SendFrame (hd (lk_queue l)), t + writeWait)\<rparr>"
| "link_step t TakeTick l = l\<lparr>lk_tick := False, lk_busy := Some (SendPing, t + writeWait)\<rparr>"
| "link_step t TakeClose l = l\<lparr>lk_busy := Some (SendClose, t + writeWait)\<rparr>"
| "link_step t WriteDone l =
     (case lk_busy l of
        None \<Rightarrow> l
      | Some (j, d) \<Rightarrow>
          let l' = l\<lparr>lk_busy := None, lk_wire := lk_wire l @ [j]\<rparr>
          in if j = SendClose then end_writer l' else l')"
| "link_step t WriteFails l = end_writer l"
| "link_step t PongArrives l = l\<lparr>lk_deadline := t + pongWait\<rparr>"
| "link_step t DataArrives l = l"
| "link_step t ReadTimesOut l = end_reader l"
| "link_step t ReadFails l = end_reader l"

text \<open>
  When each can occur.  The ticker fires on time while \<open>WritePump\<close> runs, a read ends at the deadline, and a write that is not
  done by its own deadline fails.  Nothing is read or written on a closed connection; a connection closed by one side ends the
  other, \<open>ReadFails\<close> and \<open>WriteFails\<close>.
\<close>

definition on_time :: "nat \<Rightarrow> link \<Rightarrow> bool" where
  "on_time t l \<longleftrightarrow> (lk_writer l \<longrightarrow> t \<le> lk_next_tick l) \<and> (case lk_busy l of None \<Rightarrow> True | Some (j, d) \<Rightarrow> t \<le> d)"

fun link_enabled :: "nat \<Rightarrow> link_event \<Rightarrow> link \<Rightarrow> bool" where
  "link_enabled t (Enqueue m) l = (lk_registered l \<and> length (lk_queue l) < sendBuffer)"
| "link_enabled t Tick l = (lk_writer l \<and> t = lk_next_tick l)"
| "link_enabled t TakeFrame l = (lk_writer l \<and> lk_busy l = None \<and> lk_queue l \<noteq> [])"
| "link_enabled t TakeTick l = (lk_writer l \<and> lk_busy l = None \<and> lk_tick l)"
| "link_enabled t TakeClose l = (lk_writer l \<and> lk_busy l = None \<and> lk_queue l = [] \<and> lk_closed l)"
| "link_enabled t WriteDone l = (lk_writer l \<and> lk_open l \<and> lk_busy l \<noteq> None)"
| "link_enabled t WriteFails l = (lk_writer l \<and> lk_busy l \<noteq> None)"
| "link_enabled t PongArrives l = (lk_open l \<and> lk_registered l \<and> t \<le> lk_deadline l)"
| "link_enabled t DataArrives l = (lk_open l \<and> lk_registered l \<and> t \<le> lk_deadline l)"
| "link_enabled t ReadTimesOut l = (lk_open l \<and> lk_registered l \<and> lk_deadline l < t)"
| "link_enabled t ReadFails l = lk_registered l"

text \<open>A run from time \<open>t0\<close>: the events with their times, the time reached, and the state.\<close>

inductive link_runs :: "nat \<Rightarrow> (nat \<times> link_event) list \<Rightarrow> nat \<Rightarrow> link \<Rightarrow> bool"
  for t0 where
  start: "link_runs t0 [] t0 (start_link t0)"
| step: "link_runs t0 es t l \<Longrightarrow> t \<le> t' \<Longrightarrow> on_time t' l \<Longrightarrow> link_enabled t' e l \<Longrightarrow>
    link_runs t0 (es @ [(t', e)]) t' (link_step t' e l)"

inductive_cases link_runs_snoc: "link_runs t0 (es @ [x]) t l"

section \<open>A device that answers is kept\<close>

text \<open>
  The time a device has for its answer, from the tick that asks for the ping: \<open>pongWait - pingPeriod\<close>.  A tick is open until the next
  pong; \<open>answers\<close> says that nothing happens later than that while a tick is open.
\<close>

definition answer_time :: nat where
  "answer_time = pongWait - pingPeriod"

fun open_tick :: "(nat \<times> link_event) list \<Rightarrow> nat option" where
  "open_tick [] = None"
| "open_tick ((t, e) # rest) =
     (if e = PongArrives then None else if e = Tick then Some (case open_tick rest of None \<Rightarrow> t | Some u \<Rightarrow> u) else open_tick rest)"

text \<open>The events, latest first.\<close>

fun answers :: "(nat \<times> link_event) list \<Rightarrow> bool" where
  "answers [] = True"
| "answers ((t, e) # rest) \<longleftrightarrow>
     answers rest \<and> (case open_tick rest of None \<Rightarrow> True | Some u \<Rightarrow> t \<le> u + answer_time)"

lemma times: "pingPeriod = 54000" "pongWait = 60000" "answer_time = 6000" "writeWait = 10000"
  by (simp_all add: pingPeriod_def pongWait_def answer_time_def writeWait_def)

text \<open>
  While the connection is open on both sides, the next tick is not overdue, and the read deadline lies \<open>answer_time\<close> after
  the oldest tick that has no answer, or after the next one if all have.
\<close>

definition kept_open :: "(nat \<times> link_event) list \<Rightarrow> nat \<Rightarrow> link \<Rightarrow> bool" where
  "kept_open es t l \<longleftrightarrow>
     lk_next_tick l \<le> t + pingPeriod
     \<and> (case open_tick (rev es) of
          None \<Rightarrow> lk_next_tick l + answer_time \<le> lk_deadline l
        | Some u \<Rightarrow> u \<le> t \<and> lk_next_tick l = u + pingPeriod \<and> u + answer_time \<le> lk_deadline l)"

lemma writer_step: "(lk_open l \<Longrightarrow> lk_writer l) \<Longrightarrow> lk_open (link_step t e l) \<Longrightarrow> lk_writer (link_step t e l)"
  by (cases e) (auto simp: end_reader_def end_writer_def Let_def split: option.splits if_splits)

lemma writer_open: "link_runs t0 es t l \<Longrightarrow> lk_open l \<Longrightarrow> lk_writer l"
  by (induction rule: link_runs.induct) (auto simp: start_link_def intro: writer_step)

lemma open_before: "lk_open (link_step t e l) \<Longrightarrow> lk_open l"
  by (cases e) (auto simp: end_reader_def end_writer_def Let_def split: option.splits if_splits)

text \<open>A step that is neither a tick nor a pong leaves the clocks alone.\<close>

lemma clocks_same:
  "e \<noteq> Tick \<Longrightarrow> lk_next_tick (link_step t e l) = lk_next_tick l"
  "e \<noteq> PongArrives \<Longrightarrow> lk_deadline (link_step t e l) = lk_deadline l"
  by (cases e; auto simp: end_reader_def end_writer_def Let_def split: option.splits if_splits)+

lemma alive_step:
  assumes "kept_open es t l" and "lk_writer l" and "t \<le> t'" and "on_time t' l" and "link_enabled t' e l"
    and "answers ((t', e) # rev es)"
  shows "kept_open (es @ [(t', e)]) t' (link_step t' e l)" and "e \<noteq> ReadTimesOut"
proof -
  have due: "t' \<le> lk_next_tick l" using assms(2,4) by (simp add: on_time_def)
  show "e \<noteq> ReadTimesOut"
    using assms(1,5,6) due by (auto simp: kept_open_def times split: option.splits)
  show "kept_open (es @ [(t', e)]) t' (link_step t' e l)"
  proof (cases "e = Tick \<or> e = PongArrives")
    case True
    with assms(1,3,5,6) due show ?thesis
      by (auto simp: kept_open_def times split: option.splits)
  next
    case False
    with assms(1,3) show ?thesis by (auto simp: kept_open_def clocks_same split: option.splits)
  qed
qed

lemma alive_always:
  assumes "link_runs t0 es t l" and "answers (rev es)"
  shows "(lk_open l \<longrightarrow> kept_open es t l) \<and> ReadTimesOut \<notin> snd ` set es"
  using assms
proof (induction rule: link_runs.induct)
  case start
  then show ?case by (simp add: start_link_def kept_open_def times)
next
  case (step es t l t' e)
  then have IH: "lk_open l \<longrightarrow> kept_open es t l" "ReadTimesOut \<notin> snd ` set es" and ans: "answers ((t', e) # rev es)" by simp_all
  have open_l: "lk_open (link_step t' e l) \<Longrightarrow> lk_open l" by (rule open_before)
  have "e = ReadTimesOut \<Longrightarrow> lk_open l" using step.hyps(4) by simp
  with IH open_l alive_step [OF _ writer_open [OF step.hyps(1)] step.hyps(2-4) ans] show ?case by auto
qed

text \<open>
  C20. A device that answers is not dropped.  In whatever order the two goroutines of its connection take frames,
  pings and pongs, and however the frames queue up: as long as every tick of the ping timer is followed by a pong
  within six seconds, no read of the connection times out.
\<close>

theorem answering_device_kept:
  assumes "link_runs t0 es t l" and "answers (rev es)"
  shows "(t', ReadTimesOut) \<notin> set es"
  using alive_always [OF assms] by force

text \<open>A ping that is answered at once, and the next one.\<close>

definition calm_events :: "(nat \<times> link_event) list" where
  "calm_events = [(54000, Tick), (54000, TakeTick), (54010, WriteDone), (54050, PongArrives), (108000, Tick), (108000, TakeTick),
     (108010, WriteDone), (110000, PongArrives)]"

lemma link_runs_step:
  "link_runs t0 es t l \<Longrightarrow> t \<le> t' \<Longrightarrow> on_time t' l \<Longrightarrow> link_enabled t' e l \<Longrightarrow> es' = es @ [(t', e)] \<Longrightarrow> l' = link_step t' e l \<Longrightarrow>
    link_runs t0 es' t' l'"
  using link_runs.step by blast

text \<open>Runs can be computed.\<close>

fun run_link :: "(nat \<times> link_event) list \<Rightarrow> nat \<Rightarrow> link \<Rightarrow> (nat \<times> link) option" where
  "run_link [] t l = Some (t, l)"
| "run_link ((t', e) # es) t l =
     (if t \<le> t' \<and> on_time t' l \<and> link_enabled t' e l then run_link es t' (link_step t' e l) else None)"

lemma run_link_runs: "run_link es t l = Some (t', l') \<Longrightarrow> link_runs t0 before t l \<Longrightarrow> link_runs t0 (before @ es) t' l'"
proof (induction es t l arbitrary: before rule: run_link.induct)
  case (2 s e es t l)
  then have ok: "t \<le> s" "on_time s l" "link_enabled s e l" "run_link es s (link_step s e l) = Some (t', l')"
    by (auto split: if_splits)
  from 2(1) [OF _ ok(4) link_runs.step [OF 2(3) ok(1-3)]] ok show ?case by simp
qed simp

theorem answering_device_kept_witness:
  "\<exists>t l. run_link calm_events 0 (start_link 0) = Some (t, l) \<and> (61000, ReadTimesOut) \<notin> set calm_events"
proof -
  obtain t l where r: "run_link calm_events 0 (start_link 0) = Some (t, l)"
    by (simp add: calm_events_def start_link_def times on_time_def)
  have "answers (rev calm_events)" by (simp add: calm_events_def times)
  from answering_device_kept [OF run_link_runs [OF r link_runs.start, simplified] this] r show ?thesis by blast
qed

section \<open>A device that is only slow is not\<close>

text \<open>
  A write may take ten seconds, the answer only six.  A frame that the network holds up shortly before the timer ticks delays the
  ping behind it past the read deadline: the connection ends although the write would have been in time, and the device was
  never asked.
\<close>

lemma slow_write_drops:
  "\<exists>l. run_link [(53000, Enqueue m), (53000, TakeFrame), (54000, Tick), (60001, ReadTimesOut)] 0 (start_link 0) = Some (60001, l)
     \<and> lk_busy l = Some (SendFrame m, 63000) \<and> SendPing \<notin> set (lk_wire l) \<and> \<not> lk_registered l"
  by (simp add: start_link_def times on_time_def end_reader_def sendBuffer_def)

end
