(* ===== verification/Discovery.thy ===== *)
theory Discovery
  imports Config Json
begin

text \<open>
  How the hub is found (internal/discovery/discovery.go: \<open>Reply\<close>, \<open>LocalAddress\<close>, the loop of \<open>Start\<close>) and how it is started
  (main.go).  A datagram comes with what the system says of it: the interface it came in by, its sender, and
  the addresses of that interface at that moment.  Times are in milliseconds.
\<close>

section \<open>Packets\<close>

record packet =
  pk_type :: jstr
  pk_version :: int
  pk_request :: jstr
  pk_service :: jstr
  pk_port :: int

definition no_packet :: packet where
  "no_packet = \<lparr>pk_type = [], pk_version = 0, pk_request = [], pk_service = [], pk_port = 0\<rparr>"

definition packet_member :: "jstr \<Rightarrow> json \<Rightarrow> packet \<Rightarrow> packet option" where
  "packet_member k v p =
     (if is_field ''type'' k then map_option (\<lambda>s. p\<lparr>pk_type := s\<rparr>) (into_string v (pk_type p))
      else if is_field ''version'' k then map_option (\<lambda>i. p\<lparr>pk_version := i\<rparr>) (into_int64 v (pk_version p))
      else if is_field ''requestId'' k then map_option (\<lambda>s. p\<lparr>pk_request := s\<rparr>) (into_string v (pk_request p))
      else if is_field ''serviceId'' k then map_option (\<lambda>s. p\<lparr>pk_service := s\<rparr>) (into_string v (pk_service p))
      else if is_field ''port'' k then map_option (\<lambda>i. p\<lparr>pk_port := i\<rparr>) (into_int64 v (pk_port p))
      else Some p)"

definition read_packet :: "byte list \<Rightarrow> packet option" where
  "read_packet data = Option.bind (json_parse data) (\<lambda>v. into_struct packet_member v no_packet)"

text \<open>
  \<open>json.Marshal\<close>: the id and the port are left out when they are empty.  The texts of a packet are plain, see \<open>id_char\<close>, so
  none of the escapes differ from those of the page.
\<close>

definition packet_json :: "packet \<Rightarrow> json" where
  "packet_json p =
     JObject ([(lit ''type'', JString (pk_type p)), (lit ''version'', JNumber (pk_version p)), (lit ''requestId'', JString (pk_request p))]
       @ (if pk_service p = [] then [] else [(lit ''serviceId'', JString (pk_service p))])
       @ (if pk_port p = 0 then [] else [(lit ''port'', JNumber (pk_port p))]))"

definition packet_octets :: "packet \<Rightarrow> byte list" where
  "packet_octets p = utf8 (json_text (packet_json p))"

definition id_char :: "jchar \<Rightarrow> bool" where
  "id_char c = (97 \<le> c \<and> c \<le> 122 \<or> 65 \<le> c \<and> c \<le> 90 \<or> is_digit c \<or> c = 45)"

definition offer_packet :: "jstr \<Rightarrow> jstr \<Rightarrow> int \<Rightarrow> packet" where
  "offer_packet request service port =
     \<lparr>pk_type = lit ''lanroom.offer'', pk_version = 1, pk_request = request, pk_service = service, pk_port = port\<rparr>"

definition Reply :: "byte list \<Rightarrow> jstr \<Rightarrow> int \<Rightarrow> byte list option" where
  "Reply data service port =
     (if 1024 < length data then None
      else case read_packet data of
        None \<Rightarrow> None
      | Some req \<Rightarrow>
          if pk_type req \<noteq> lit ''lanroom.discover'' \<or> pk_version req \<noteq> 1
            \<or> utf8_length (pk_request req) < 16 \<or> 64 < utf8_length (pk_request req) then None
          else if \<not> list_all id_char (pk_request req) then None
          else Some (packet_octets (offer_packet (pk_request req) service port)))"

section \<open>Who is answered\<close>

text \<open>\<open>net.Interface\<close> with its flags; \<open>ni_nets\<close> is \<open>Addrs\<close>, \<open>None\<close> for an error, and an entry is \<open>None\<close> when it is no \<open>*net.IPNet\<close>.\<close>

record net_iface =
  ni_name :: jstr
  ni_up :: bool
  ni_loopback :: bool
  ni_broadcast :: bool
  ni_nets :: "ip_net option list option"

text \<open>\<open>net.IP.IsPrivate\<close>.\<close>

definition IsPrivate :: "ip \<Rightarrow> bool" where
  "IsPrivate ip =
     (case To4 ip of
        Some v4 \<Rightarrow> v4 ! 0 = 10 \<or> v4 ! 0 = 172 \<and> v4 ! 1 AND 0xF0 = 16 \<or> v4 ! 0 = 192 \<and> v4 ! 1 = 168
      | None \<Rightarrow> length ip = 16 \<and> ip ! 0 AND 0xFE = 0xFC)"

fun attached :: "ip \<Rightarrow> ip_net option list \<Rightarrow> ip option" where
  "attached peer [] = None"
| "attached peer (e # es) =
     (case e of
        None \<Rightarrow> attached peer es
      | Some n \<Rightarrow>
          if To4 (net_IP n) \<noteq> None \<and> IsPrivate (net_IP n) \<and> IPNet_Contains n peer then To4 (net_IP n)
          else attached peer es)"

definition LocalAddress :: "net_iface \<Rightarrow> ip \<Rightarrow> ip_net option list \<Rightarrow> ip option" where
  "LocalAddress ni peer addrs =
     (if \<not> ni_up ni \<or> ni_loopback ni \<or> \<not> ni_broadcast ni \<or> IsVirtualInterface (ni_name ni) then None
      else attached peer addrs)"

section \<open>The loop\<close>

text \<open>
  A datagram: when it is read, its octets, the index of its interface if the control message is there, its sender if that is a
  UDP address, and the interfaces at that moment.
\<close>

record datagram =
  dg_time :: nat
  dg_data :: "byte list"
  dg_index :: "nat option"
  dg_peer :: "ip option"
  dg_ifaces :: "nat \<Rightarrow> net_iface option"

record discovery_offer =
  of_time :: nat
  of_peer :: ip
  of_src :: ip
  of_data :: "byte list"

text \<open>What is done with a datagram within the limit; the buffer takes 1025 octets.\<close>

definition answer_datagram :: "jstr \<Rightarrow> int \<Rightarrow> datagram \<Rightarrow> discovery_offer option" where
  "answer_datagram service port dg =
     (case dg_index dg of
        None \<Rightarrow> None
      | Some ix \<Rightarrow>
          if ix = 0 then None
          else (case dg_peer dg of
            None \<Rightarrow> None
          | Some peer \<Rightarrow>
              (case dg_ifaces dg ix of
                None \<Rightarrow> None
              | Some ni \<Rightarrow>
                  (case ni_nets ni of
                    None \<Rightarrow> None
                  | Some addrs \<Rightarrow>
                      (case LocalAddress ni peer addrs of
                        None \<Rightarrow> None
                      | Some ip \<Rightarrow>
                          map_option (\<lambda>data. \<lparr>of_time = dg_time dg, of_peer = peer, of_src = ip, of_data = data\<rparr>)
                            (Reply (take 1025 (dg_data dg)) service port))))))"

definition reply_limit :: nat where
  "reply_limit = 40"

text \<open>\<open>window\<close> and \<open>count\<close>.\<close>

definition count_datagram :: "nat \<Rightarrow> nat \<times> nat \<Rightarrow> nat \<times> nat" where
  "count_datagram t st =
     (let (window, count) = (if 1000 < t - fst st then (t, 0) else st) in (window, Suc count))"

fun discovery_loop :: "jstr \<Rightarrow> int \<Rightarrow> nat \<times> nat \<Rightarrow> datagram list \<Rightarrow> discovery_offer list" where
  "discovery_loop service port st [] = []"
| "discovery_loop service port st (dg # ds) =
     (let st' = count_datagram (dg_time dg) st in
      if reply_limit < snd st' then discovery_loop service port st' ds
      else
        (case answer_datagram service port dg of
           None \<Rightarrow> discovery_loop service port st' ds
         | Some r \<Rightarrow> r # discovery_loop service port st' ds))"

text \<open>\<open>Start\<close> at time \<open>t0\<close>, \<open>None\<close> for an error; \<open>listens\<close> says whether the socket could be set up.\<close>

definition discovery_start ::
    "(jstr \<Rightarrow> jstr option) \<Rightarrow> bool \<Rightarrow> int \<Rightarrow> jstr \<Rightarrow> nat \<Rightarrow> datagram list \<Rightarrow> discovery_offer list option" where
  "discovery_start parse listens port service t0 ds =
     (if port < 1 \<or> 65535 < port then None
      else if parse service = None then None
      else if \<not> listens then None
      else Some (discovery_loop service port (t0, 0) ds))"

section \<open>The start of the hub\<close>

text \<open>The flags and the environment of the process.\<close>

record start_args =
  sa_port :: nat
  sa_addr :: jstr
  sa_listen :: jstr
  sa_public :: jstr
  sa_trusted :: jstr
  sa_pin :: jstr
  sa_discovery :: jstr
  sa_discovery_port :: jstr

text \<open>What \<open>server.New\<close> is given, and where discovery listens, if it does.\<close>

record hub_settings =
  rn_listen :: jstr
  rn_port :: int
  rn_pin :: jstr
  rn_public :: jstr
  rn_trusted :: "ip_net list"
  rn_service :: jstr
  rn_discovery :: "int option"

datatype start_error = BadPublicURL url_error | BadProxies proxy_error | PINRequired

definition hub_port :: "nat \<Rightarrow> jstr \<Rightarrow> int" where
  "hub_port port listen =
     (case SplitHostPort listen of
        None \<Rightarrow> int port
      | Some (h, p) \<Rightarrow> (case Atoi p of None \<Rightarrow> int port | Some n \<Rightarrow> n))"

definition discovery_port :: "jstr \<Rightarrow> int" where
  "discovery_port setting =
     (if setting = [] then 8788
      else case Atoi setting of None \<Rightarrow> - 1 | Some n \<Rightarrow> if n < 1 \<or> 65535 < n then - 1 else n)"

text \<open>\<open>identity\<close> is the result of \<open>Identity\<close>; the static files are part of the program.\<close>

definition hub_start ::
    "(jstr \<Rightarrow> url_parts option) \<Rightarrow> 'e + jstr \<Rightarrow> start_args \<Rightarrow> start_error + hub_settings" where
  "hub_start parse_url identity args =
     (let listen = (if sa_addr args \<noteq> [] then sa_addr args else ListenAddr (sa_listen args) (sa_port args));
          port = hub_port (sa_port args) listen
      in case ParsePublicURL parse_url (sa_public args) of
           Inl e \<Rightarrow> Inl (BadPublicURL e)
         | Inr public \<Rightarrow>
             (case ParseTrustedProxies (sa_trusted args) of
                Inl e \<Rightarrow> Inl (BadProxies e)
              | Inr trusted \<Rightarrow>
                  let pin = go_TrimSpace (sa_pin args);
                      service = (case identity of Inl e \<Rightarrow> [] | Inr u \<Rightarrow> u);
                      dport = discovery_port (sa_discovery_port args)
                  in if public \<noteq> [] \<and> pin = [] then Inl PINRequired
                     else Inr \<lparr>rn_listen = listen, rn_port = port, rn_pin = pin, rn_public = public, rn_trusted = trusted,
                       rn_service = service,
                       rn_discovery =
                         (if public = [] \<and> service \<noteq> [] \<and> sa_discovery args \<noteq> lit ''false'' \<and> 0 \<le> dport
                          then Some dport else None)\<rparr>))"

text \<open>A hub with a public address has a PIN, and is not announced on the local network.\<close>

lemma public_hub_guarded:
  assumes "hub_start parse_url identity args = Inr r" and "rn_public r \<noteq> []"
  shows "rn_pin r \<noteq> [] \<and> rn_discovery r = None \<and> auth_enabled (newAuthState (rn_pin r))"
  using assms
  by (auto simp: hub_start_def Let_def auth_enabled_def newAuthState_def split: sum.splits if_splits)


section \<open>Packets arrive\<close>

lemma id_char_ascii: "id_char c \<Longrightarrow> c < 0x80"
  by (auto simp: id_char_def is_digit_def)

lemma plain_points: "list_all id_char s \<Longrightarrow> code_points s = s"
proof (induction s rule: code_points.induct)
  case (3 a b s)
  then have "\<not> is_high a" using id_char_ascii [of a] by (auto simp: is_high_def)
  with 3 show ?case by simp
qed simp_all

lemma plain_quote: "list_all id_char s \<Longrightarrow> utf8 (json_quote s) = 34 # s @ [34]"
proof -
  assume s: "list_all id_char s"
  have "json_point c = [c]" if "id_char c" for c
    using that by (auto simp: json_point_def short_escapes_def surrogate_def id_char_def is_digit_def)
  then have "concat (map json_point s) = s" using s by (induction s) simp_all
  moreover have "utf8 s = s" using s id_char_ascii by (intro utf8_ascii) (auto simp: list_all_iff)
  ultimately show ?thesis by (simp add: json_quote_def plain_points [OF s] utf8_append utf8_enc_def)
qed

lemma name_quotes:
  "length (utf8 (json_quote (lit ''type''))) = 6" "length (utf8 (json_quote (lit ''version''))) = 9"
  "length (utf8 (json_quote (lit ''requestId''))) = 11" "length (utf8 (json_quote (lit ''serviceId''))) = 11"
  "length (utf8 (json_quote (lit ''port''))) = 6"
  by (subst plain_quote, simp add: id_char_def is_digit_def js_eval, simp add: js_eval)+

lemma offer_quote: "length (utf8 (json_quote (lit ''lanroom.offer''))) = 15"
  by (simp add: json_quote_def json_point_def short_escapes_def surrogate_def is_high_def utf8_enc_def js_eval)

lemma offer_length:
  assumes "list_all id_char request" and "length request \<le> 64" and "list_all id_char service" and "length service \<le> 36"
    and "1 \<le> port" and "port \<le> 65535"
  shows "length (packet_octets (offer_packet request service port)) \<le> 180"
proof -
  have "nat port < 10 ^ Suc 4" using assms(6) by simp
  then have "length (show_nat (nat port)) \<le> 5" using show_nat_length [of "nat port" 4] by simp
  moreover have "length (utf8_enc c) = 1" if "c < 0x80" for c using that by (simp add: utf8_enc_def)
  ultimately show ?thesis
    using assms(1-5) name_quotes offer_quote plain_quote [OF assms(1)] plain_quote [OF assms(3)]
    by (simp add: packet_octets_def packet_json_def offer_packet_def utf8_append json_number_def show_nat_octets show_nat_small)
qed


text \<open>A packet of plain texts is read back.\<close>

definition packet_ok :: "packet \<Rightarrow> bool" where
  "packet_ok p \<longleftrightarrow> units (pk_type p) \<and> units (pk_request p) \<and> units (pk_service p)
     \<and> is_well_formed (pk_type p) \<and> is_well_formed (pk_request p) \<and> is_well_formed (pk_service p)
     \<and> - (2 ^ 63) \<le> pk_version p \<and> pk_version p < 2 ^ 63 \<and> - (2 ^ 63) \<le> pk_port p \<and> pk_port p < 2 ^ 63"

lemma plain_well_formed: "list_all id_char s \<Longrightarrow> is_well_formed s \<and> units s"
proof -
  assume s: "list_all id_char s"
  then have "\<forall>c \<in> set s. c < 0x80" using id_char_ascii by (auto simp: list_all_iff)
  then show ?thesis by (fastforce simp: is_well_formed_def plain_points [OF s] list_all_iff scalar_def units_def)
qed

definition packet_fields :: "string list" where
  "packet_fields = [''type'', ''version'', ''requestId'', ''serviceId'', ''port'']"

lemma packet_names: "distinct (map (\<lambda>s. map fold_char (lit s)) packet_fields)"
  by (simp add: packet_fields_def fold_char_def lower_char_def js_eval)

lemma is_packet_field: "a \<in> set packet_fields \<Longrightarrow> b \<in> set packet_fields \<Longrightarrow> is_field a (lit b) \<longleftrightarrow> a = b"
  using packet_names unfolding distinct_map inj_on_def is_field_def by metis

lemma sent_id: "is_well_formed s \<Longrightarrow> units s \<Longrightarrow> to_well_formed s = s"
  by (simp add: to_well_formed_id units_def)

lemma packet_read_back: "packet_ok p \<Longrightarrow> read_packet (packet_octets p) = Some p"
proof -
  assume p: "packet_ok p"
  then have "json_units (packet_json p)" by (simp add: packet_json_def packet_ok_def units_lit)
  then have "json_parse (packet_octets p) = Some (json_sent (packet_json p))"
    unfolding packet_octets_def by (rule json_roundtrip)
  with p show ?thesis
    by (cases p) (simp add: read_packet_def packet_json_def packet_ok_def into_struct_def packet_member_def is_packet_field
        packet_fields_def lit_sent sent_id into_string_def into_int64_def no_packet_def)
qed

text \<open>The request of the documentation is answered with its own id, the id of the hub and the port.\<close>

definition request_packet :: "jstr \<Rightarrow> packet" where
  "request_packet request =
     \<lparr>pk_type = lit ''lanroom.discover'', pk_version = 1, pk_request = request, pk_service = [], pk_port = 0\<rparr>"

lemma plain_utf8_length: "list_all id_char s \<Longrightarrow> utf8_length s = length s"
proof (induction s rule: utf8_length.induct)
  case (3 a b s)
  then have "\<not> is_high a" "a < 0x80" using id_char_ascii [of a] by (auto simp: is_high_def)
  with 3 show ?case by (simp add: utf8_width_def)
qed (auto simp: utf8_width_def dest: id_char_ascii)


lemma discover_quote: "length (utf8 (json_quote (lit ''lanroom.discover''))) = 18"
  by (simp add: json_quote_def json_point_def short_escapes_def surrogate_def is_high_def utf8_enc_def js_eval)

lemma request_length: "list_all id_char request \<Longrightarrow> length (packet_octets (request_packet request)) = 54 + length request"
proof -
  assume r: "list_all id_char request"
  have "length (utf8_enc c) = 1" if "c < 0x80" for c using that by (simp add: utf8_enc_def)
  then show ?thesis
    using name_quotes discover_quote plain_quote [OF r]
    by (simp add: packet_octets_def packet_json_def request_packet_def utf8_append json_number_def show_nat_octets show_nat_small)
qed

lemma request_answered:
  assumes "list_all id_char request" and "16 \<le> length request" and "length request \<le> 64"
  shows "Reply (packet_octets (request_packet request)) service port = Some (packet_octets (offer_packet request service port))"
proof -
  have "is_well_formed []" by (simp add: is_well_formed_def)
  then have "packet_ok (request_packet request)"
    using assms(1) plain_well_formed by (simp add: packet_ok_def request_packet_def units_lit lit_well_formed)
  from packet_read_back [OF this] assms request_length [OF assms(1)] plain_utf8_length [OF assms(1)] show ?thesis
    by (simp add: Reply_def request_packet_def)
qed

lemma offer_read:
  assumes "list_all id_char request" and "list_all id_char service" and "0 \<le> port" and "port \<le> 65535"
  shows "read_packet (packet_octets (offer_packet request service port)) = Some (offer_packet request service port)"
  using assms plain_well_formed by (intro packet_read_back) (simp add: packet_ok_def offer_packet_def units_lit lit_well_formed)

section \<open>No reflector\<close>

text \<open>An address of a real interface of the hub's machine in whose network the peer is.\<close>

definition neighbour :: "net_iface \<Rightarrow> ip \<Rightarrow> ip \<Rightarrow> bool" where
  "neighbour ni peer src \<longleftrightarrow>
     ni_up ni \<and> \<not> ni_loopback ni \<and> ni_broadcast ni \<and> \<not> IsVirtualInterface (ni_name ni)
     \<and> (\<exists>addrs n. ni_nets ni = Some addrs \<and> Some n \<in> set addrs \<and> To4 (net_IP n) = Some src \<and> IsPrivate (net_IP n)
          \<and> IPNet_Contains n peer)"

lemma attached_some:
  "attached peer addrs = Some src \<Longrightarrow>
     \<exists>n. Some n \<in> set addrs \<and> To4 (net_IP n) = Some src \<and> IsPrivate (net_IP n) \<and> IPNet_Contains n peer"
  by (induction addrs) (auto split: option.splits if_splits)

definition offers :: "datagram \<Rightarrow> jstr \<Rightarrow> int \<Rightarrow> byte list \<Rightarrow> bool" where
  "offers dg service port data \<longleftrightarrow>
     (\<exists>req. read_packet (dg_data dg) = Some req \<and> pk_type req = lit ''lanroom.discover'' \<and> list_all id_char (pk_request req)
        \<and> length (pk_request req) \<le> 64 \<and> data = packet_octets (offer_packet (pk_request req) service port))"

lemma Reply_offers:
  assumes "Reply (take 1025 (dg_data dg)) service port = Some data" shows "offers dg service port data"
proof -
  have "take 1025 (dg_data dg) = dg_data dg" using assms by (auto simp: Reply_def split: if_splits)
  with assms plain_utf8_length show ?thesis by (fastforce simp: Reply_def offers_def split: option.splits if_splits)
qed

lemma answered_from:
  assumes "answer_datagram service port dg = Some r"
  shows "of_time r = dg_time dg \<and> dg_peer dg = Some (of_peer r) \<and> offers dg service port (of_data r)
    \<and> (\<exists>ix ni. dg_index dg = Some ix \<and> dg_ifaces dg ix = Some ni \<and> neighbour ni (of_peer r) (of_src r))"
  using assms unfolding answer_datagram_def LocalAddress_def neighbour_def
  by (fastforce dest: attached_some Reply_offers split: option.splits if_splits)

lemma loop_step:
  "set (discovery_loop service port st (dg # ds)) \<subseteq>
     set_option (answer_datagram service port dg) \<union> set (discovery_loop service port (count_datagram (dg_time dg) st) ds)"
  by (simp add: Let_def split: option.split)

lemma loop_answers: "r \<in> set (discovery_loop service port st ds) \<Longrightarrow> \<exists>dg \<in> set ds. answer_datagram service port dg = Some r"
proof (induction ds arbitrary: st)
  case (Cons dg ds)
  from Cons.IH subsetD [OF loop_step Cons.prems] show ?case by fastforce
qed simp

text \<open>
  How many answers up to a time: at most what the window has left while no new one begins, and at most a whole window more
  within a second.
\<close>

definition answered_by :: "nat \<Rightarrow> discovery_offer list \<Rightarrow> nat" where
  "answered_by b rs = length (filter (\<lambda>r. of_time r \<le> b) rs)"

lemma answered_step:
  "answered_by b (discovery_loop service port st (dg # ds)) \<le>
     (if snd (count_datagram (dg_time dg) st) \<le> reply_limit then 1 else 0)
     + answered_by b (discovery_loop service port (count_datagram (dg_time dg) st) ds)"
  by (simp add: Let_def answered_by_def split: option.split)

lemma answered_later: "\<forall>dg \<in> set ds. b < dg_time dg \<Longrightarrow> answered_by b (discovery_loop service port st ds) = 0"
  unfolding answered_by_def using answered_from by (fastforce simp: filter_empty_conv dest!: loop_answers)

lemma same_window: "t \<le> fst st + 1000 \<Longrightarrow> count_datagram t st = (fst st, Suc (snd st))"
  by (cases st) (auto simp: count_datagram_def)

lemma answered_window:
  assumes "sorted (map dg_time ds)" and "b \<le> fst st + 1000"
  shows "answered_by b (discovery_loop service port st ds) \<le> reply_limit - snd st"
  using assms
proof (induction ds arbitrary: st)
  case (Cons dg ds)
  show ?case
  proof (cases "dg_time dg \<le> b")
    case True
    then have st: "count_datagram (dg_time dg) st = (fst st, Suc (snd st))"
      using Cons.prems(2) by (intro same_window) simp
    from Cons.IH [of "(fst st, Suc (snd st))"] Cons.prems answered_step [of b service port st dg ds] show ?thesis
      by (auto simp: st split: if_splits)
  next
    case False
    with Cons.prems(1) have "\<forall>x \<in> set (dg # ds). b < dg_time x" by fastforce
    from answered_later [OF this] show ?thesis by simp
  qed
qed (simp add: answered_by_def)

lemma answered_second:
  assumes "sorted (map dg_time ds)" and "\<forall>dg \<in> set ds. a \<le> dg_time dg" and "b \<le> a + 1000"
  shows "answered_by b (discovery_loop service port st ds) \<le> (reply_limit - snd st) + reply_limit"
  using assms(1,2)
proof (induction ds arbitrary: st)
  case (Cons dg ds)
  then have ds: "sorted (map dg_time ds)" "a \<le> dg_time dg" by simp_all
  show ?case
  proof (cases "dg_time dg \<le> fst st + 1000")
    case True
    from Cons.IH [of "(fst st, Suc (snd st))"] Cons.prems answered_step [of b service port st dg ds] show ?thesis
      by (auto simp: same_window [OF True] split: if_splits)
  next
    case False
    then have st: "count_datagram (dg_time dg) st = (dg_time dg, 1)" by (auto simp: count_datagram_def)
    have "answered_by b (discovery_loop service port (dg_time dg, 1) ds) \<le> reply_limit - 1"
      using answered_window [OF ds(1), of b "(dg_time dg, 1)"] ds(2) assms(3) by simp
    then show ?thesis using answered_step [of b service port st dg ds] by (simp add: st reply_limit_def)
  qed
qed (simp add: answered_by_def)

text \<open>Answers within a second, wherever it begins.\<close>

definition answers_within :: "nat \<Rightarrow> nat \<Rightarrow> discovery_offer list \<Rightarrow> nat" where
  "answers_within a b rs = length (filter (\<lambda>r. a \<le> of_time r \<and> of_time r \<le> b) rs)"

lemma answers_any_second:
  assumes "sorted (map dg_time ds)"
  shows "answers_within a (a + 1000) (discovery_loop service port st ds) \<le> 2 * reply_limit"
  using assms
proof (induction ds arbitrary: st)
  case (Cons dg ds)
  show ?case
  proof (cases "a \<le> dg_time dg")
    case True
    with Cons.prems have "\<forall>x \<in> set (dg # ds). a \<le> dg_time x" by fastforce
    from answered_second [OF Cons.prems this, of "a + 1000" service port st]
    have "answered_by (a + 1000) (discovery_loop service port st (dg # ds)) \<le> 2 * reply_limit" by simp
    moreover have "answers_within a b rs \<le> answered_by b rs" for b rs
      unfolding answers_within_def answered_by_def by (induction rs) simp_all
    ultimately show ?thesis by (rule order_trans [rotated])
  next
    case False
    have "answers_within a (a + 1000) (discovery_loop service port st (dg # ds))
        = answers_within a (a + 1000) (discovery_loop service port (count_datagram (dg_time dg) st) ds)"
      using False answered_from [of service port dg] by (simp add: Let_def answers_within_def split: option.split)
    with Cons.IH Cons.prems show ?thesis by simp
  qed
qed (simp add: answers_within_def)

text \<open>
  C30. The discovery is no reflector.  Whatever datagrams come in, from whatever senders they claim: the hub answers a
  datagram only to its sender and only if the sender lies in the network of a private address of a real broadcast interface that the
  datagram came in by, from that address; an answer is one offer of at most 180 octets, with the id of the request, of the hub
  and its port; and in no second are there more than 80 answers.
\<close>

theorem discovery_contained:
  assumes "discovery_start parse listens port service t0 ds = Some rs" and "sorted (map dg_time ds)"
    and "list_all id_char service" and "length service \<le> 36"
  shows "answers_within a (a + 1000) rs \<le> 80
    \<and> (\<forall>r \<in> set rs. length (of_data r) \<le> 180
         \<and> (\<exists>dg ix ni req. dg \<in> set ds \<and> dg_peer dg = Some (of_peer r) \<and> dg_index dg = Some ix \<and> dg_ifaces dg ix = Some ni
              \<and> neighbour ni (of_peer r) (of_src r) \<and> read_packet (dg_data dg) = Some req \<and> pk_type req = lit ''lanroom.discover''
              \<and> read_packet (of_data r) = Some (offer_packet (pk_request req) service port)))"
proof -
  have port: "1 \<le> port" "port \<le> 65535" and rs: "rs = discovery_loop service port (t0, 0) ds"
    using assms(1) by (auto simp: discovery_start_def split: if_splits)
  have "answers_within a (a + 1000) rs \<le> 80"
    using answers_any_second [OF assms(2)] by (simp add: rs reply_limit_def)
  moreover have "length (of_data r) \<le> 180 \<and> (\<exists>req. read_packet (dg_data dg) = Some req \<and> pk_type req = lit ''lanroom.discover''
      \<and> read_packet (of_data r) = Some (offer_packet (pk_request req) service port))" if "offers dg service port (of_data r)" for dg r
    using that offer_length [OF _ _ assms(3,4) port] offer_read [OF _ assms(3), of _ port] port by (auto simp: offers_def)
  ultimately show ?thesis unfolding rs using loop_answers answered_from by meson
qed

text \<open>A device of the network asks twice; a third question comes from outside.\<close>

definition demo_iface :: net_iface where
  "demo_iface = \<lparr>ni_name = lit ''eth0'', ni_up = True, ni_loopback = False, ni_broadcast = True,
     ni_nets = Some [None, Some \<lparr>net_IP = [192, 168, 1, 2], net_Mask = [255, 255, 255, 0]\<rparr>]\<rparr>"

definition question :: "nat \<Rightarrow> ip \<Rightarrow> datagram" where
  "question t peer = \<lparr>dg_time = t, dg_data = packet_octets (request_packet (replicate 16 48)), dg_index = Some 2, dg_peer = Some peer,
     dg_ifaces = (\<lambda>_. Some demo_iface)\<rparr>"

lemma demo_question:
  "answer_datagram service port (question t [192, 168, 1, d]) =
     Some \<lparr>of_time = t, of_peer = [192, 168, 1, d], of_src = [192, 168, 1, 2],
       of_data = packet_octets (offer_packet (replicate 16 48) service port)\<rparr>"
  "answer_datagram service port (question t [8, 8, 8, 8]) = None"
proof -
  have virtual: "\<not> IsVirtualInterface (lit ''eth0'')"
    by (simp add: IsVirtualInterface_def virtualPrefixes_def startsWith_def toLowerCase_def lower_char_def js_eval)
  have net: "IPNet_Contains \<lparr>net_IP = [192, 168, 1, 2], net_Mask = [255, 255, 255, 0]\<rparr> [192, 168, 1, d]"
    "\<not> IPNet_Contains \<lparr>net_IP = [192, 168, 1, 2], net_Mask = [255, 255, 255, 0]\<rparr> [8, 8, 8, 8]"
    by (simp_all add: IPNet_Contains_def number_and_mask_def To4_v4 masked_def)
  have "list_all id_char (replicate 16 48)" by (simp add: list_all_iff id_char_def is_digit_def)
  then have "Reply (packet_octets (request_packet (replicate 16 48))) service port
      = Some (packet_octets (offer_packet (replicate 16 48) service port))"
    "length (packet_octets (request_packet (replicate 16 48))) = 70"
    by (simp_all add: request_answered request_length)
  then show "answer_datagram service port (question t [192, 168, 1, d]) =
     Some \<lparr>of_time = t, of_peer = [192, 168, 1, d], of_src = [192, 168, 1, 2],
       of_data = packet_octets (offer_packet (replicate 16 48) service port)\<rparr>"
    "answer_datagram service port (question t [8, 8, 8, 8]) = None"
    using virtual net
    by (simp_all add: answer_datagram_def question_def demo_iface_def LocalAddress_def To4_v4 IsPrivate_def)
qed

theorem discovery_contained_witness:
  "\<exists>rs. discovery_start Some True 8787 (replicate 36 48) 0 [question 5 [192, 168, 1, 7], question 6 [8, 8, 8, 8]] = Some rs
    \<and> length rs = 1 \<and> (\<forall>r \<in> set rs. length (of_data r) \<le> 180)"
proof -
  let ?ds = "[question 5 [192, 168, 1, 7], question 6 [8, 8, 8, 8]]"
  obtain rs where rs: "discovery_start Some True 8787 (replicate 36 48) 0 ?ds = Some rs" by (simp add: discovery_start_def)
  have times: "dg_time (question t p) = t" for t p by (simp add: question_def)
  then have "length rs = 1"
    using rs by (auto simp: discovery_start_def demo_question count_datagram_def reply_limit_def)
  moreover have "sorted (map dg_time ?ds)" "list_all id_char (replicate 36 48)"
    by (simp_all add: times list_all_iff id_char_def is_digit_def)
  with discovery_contained [OF rs] have "\<forall>r \<in> set rs. length (of_data r) \<le> 180" by simp
  ultimately show ?thesis using rs by blast
qed

end
