(* ===== verification/Service_Id.thy ===== *)
theory Service_Id
  imports Prelude
begin

text \<open>
  The id of the hub that its clients recognise it by (internal/discovery/discovery.go: \<open>Identity\<close>).  It is kept in a file, and hubs
  started at the same time share it: whoever creates the file writes an id, the others read it.  The file system goes from
  call to call, so that the calls of different processes interleave; \<open>uuid.Parse\<close> is the parameter \<open>parse\<close>.
\<close>

section \<open>Processes and the file\<close>

text \<open>
  Where a process is in \<open>Identity\<close>: before \<open>MkdirAll\<close>, before \<open>ReadFile\<close> or \<open>OpenFile\<close> of an attempt, in \<open>WriteString\<close>
  with what is written and what is left, before \<open>Close\<close>, or behind its \<open>return\<close>.  A process can be killed anywhere.
\<close>

datatype identity_error = NoDirectory | CannotRead | CannotCreate | CannotWrite | CannotClose | InvalidIdentity

datatype proc =
    Begin
  | Attempt nat
  | Create nat
  | Write jstr jstr
  | Close jstr
  | Returned "identity_error + jstr"
  | Killed

record id_dir =
  id_file :: "jstr option"
  id_procs :: "nat \<Rightarrow> proc"

definition identity_start :: "jstr option \<Rightarrow> id_dir" where
  "identity_start content = \<lparr>id_file = content, id_procs = (\<lambda>_. Begin)\<rparr>"

text \<open>The flag of an event is false when the system gives an error, other than that the file is missing or there already.\<close>

datatype id_event =
    MakesDir nat bool
  | Reads nat bool
  | Creates nat jstr bool
  | Writes nat nat
  | WriteFails nat
  | Closes nat bool
  | Dies nat

definition now_at :: "nat \<Rightarrow> proc \<Rightarrow> id_dir \<Rightarrow> id_dir" where
  "now_at a c st = st\<lparr>id_procs := (id_procs st)(a := c)\<rparr>"

text \<open>The next attempt, if there is one: \<open>for i := 0; i < 20; i++\<close>.\<close>

definition id_attempt :: "nat \<Rightarrow> proc" where
  "id_attempt i = (if i < 20 then Attempt i else Returned (Inl InvalidIdentity))"

text \<open>A write through a file handle, at its own offset.\<close>

definition put_at :: "nat \<Rightarrow> jstr \<Rightarrow> jstr \<Rightarrow> jstr" where
  "put_at off bs c = take off c @ bs @ drop (off + length bs) c"

fun identity_step :: "(jstr \<Rightarrow> jstr option) \<Rightarrow> id_event \<Rightarrow> id_dir \<Rightarrow> id_dir" where
  "identity_step parse (MakesDir a ok) st =
     (if id_procs st a \<noteq> Begin then st
      else now_at a (if ok then id_attempt 0 else Returned (Inl NoDirectory)) st)"
| "identity_step parse (Reads a ok) st =
     (case id_procs st a of
        Attempt i \<Rightarrow>
          (if \<not> ok then now_at a (Returned (Inl CannotRead)) st
           else case id_file st of
             None \<Rightarrow> now_at a (Create i) st
           | Some c \<Rightarrow>
               (case parse c of
                  Some u \<Rightarrow> now_at a (Returned (Inr u)) st
                | None \<Rightarrow> now_at a (id_attempt (Suc i)) st))
      | _ \<Rightarrow> st)"
| "identity_step parse (Creates a u ok) st =
     (case id_procs st a of
        Create i \<Rightarrow>
          (if id_file st \<noteq> None then now_at a (id_attempt (Suc i)) st
           else if \<not> ok then now_at a (Returned (Inl CannotCreate)) st
           else now_at a (Write [] u) (st\<lparr>id_file := Some []\<rparr>))
      | _ \<Rightarrow> st)"
| "identity_step parse (Writes a k) st =
     (case id_procs st a of
        Write w rest \<Rightarrow>
          now_at a (if drop k rest = [] then Close (w @ rest) else Write (w @ take k rest) (drop k rest))
            (st\<lparr>id_file := map_option (put_at (length w) (take k rest)) (id_file st)\<rparr>)
      | _ \<Rightarrow> st)"
| "identity_step parse (WriteFails a) st =
     (case id_procs st a of Write w rest \<Rightarrow> now_at a (Returned (Inl CannotWrite)) st | _ \<Rightarrow> st)"
| "identity_step parse (Closes a ok) st =
     (case id_procs st a of
        Close u \<Rightarrow> now_at a (Returned (if ok then Inr u else Inl CannotClose)) st
      | _ \<Rightarrow> st)"
| "identity_step parse (Dies a) st = now_at a Killed st"

definition identity_run :: "(jstr \<Rightarrow> jstr option) \<Rightarrow> id_event list \<Rightarrow> id_dir \<Rightarrow> id_dir" where
  "identity_run parse es st = foldl (\<lambda>st e. identity_step parse e st) st es"

lemma identity_run_simps [simp]:
  "identity_run parse [] st = st"
  "identity_run parse (e # es) st = identity_run parse es (identity_step parse e st)"
  "identity_run parse (es @ [e]) st = identity_step parse e (identity_run parse es st)"
  by (simp_all add: identity_run_def)

lemma now_at_simps [simp]:
  "id_file (now_at a c st) = id_file st" "id_procs (now_at a c st) = (id_procs st)(a := c)"
  by (simp_all add: now_at_def)

section \<open>Who writes\<close>

text \<open>An id as \<open>uuid.NewString\<close> gives it: it is read as itself, and what is only a beginning of it is none.\<close>

definition proper_id :: "(jstr \<Rightarrow> jstr option) \<Rightarrow> jstr \<Rightarrow> bool" where
  "proper_id parse u \<longleftrightarrow> parse u = Some u \<and> (\<forall>k < length u. parse (take k u) = None)"

definition proper_event :: "(jstr \<Rightarrow> jstr option) \<Rightarrow> id_event \<Rightarrow> bool" where
  "proper_event parse e = (case e of Creates a u ok \<Rightarrow> proper_id parse u | _ \<Rightarrow> True)"

text \<open>What a process knows of the file.\<close>

fun knows :: "(jstr \<Rightarrow> jstr option) \<Rightarrow> jstr option \<Rightarrow> proc \<Rightarrow> bool" where
  "knows parse f (Write w rest) \<longleftrightarrow> f = Some w \<and> rest \<noteq> [] \<and> proper_id parse (w @ rest)"
| "knows parse f (Close u) \<longleftrightarrow> f = Some u \<and> parse u = Some u"
| "knows parse f (Returned (Inr u)) \<longleftrightarrow> (\<exists>c. f = Some c \<and> parse c = Some u)"
| "knows parse f _ \<longleftrightarrow> True"

definition writing :: "proc \<Rightarrow> bool" where
  "writing c \<longleftrightarrow> (\<exists>w rest. c = Write w rest)"

definition identity_ok :: "(jstr \<Rightarrow> jstr option) \<Rightarrow> id_dir \<Rightarrow> bool" where
  "identity_ok parse st \<longleftrightarrow>
     (\<forall>a. knows parse (id_file st) (id_procs st a))
     \<and> (\<forall>a b. writing (id_procs st a) \<and> writing (id_procs st b) \<longrightarrow> a = b)"

text \<open>While the file holds only the beginning of an id, nobody has read one.\<close>

lemma knows_grows:
  assumes "knows parse f c" and "f = None \<or> (\<exists>w. f = Some w \<and> parse w = None)" and "\<not> writing c"
  shows "knows parse f' c"
  using assms by (cases "(parse, f, c)" rule: knows.cases) (auto simp: writing_def)

lemma proper_part: "proper_id parse (w @ rest) \<Longrightarrow> rest \<noteq> [] \<Longrightarrow> parse w = None"
  unfolding proper_id_def by (metis append_eq_conv_conj length_append length_greater_0_conv less_add_same_cancel1)

lemma proper_nonempty: "proper_id parse u \<Longrightarrow> parse [] = None \<Longrightarrow> u \<noteq> []"
  by (auto simp: proper_id_def)

lemma put_at_end: "put_at (length w) bs w = w @ bs"
  by (simp add: put_at_def)

lemma identity_ok_now:
  assumes "identity_ok parse st" and "knows parse (id_file st) c" and "\<not> writing c"
  shows "identity_ok parse (now_at a c st)"
  using assms by (auto simp: identity_ok_def)

lemma identity_ok_file:
  assumes "identity_ok parse st" and "id_file st = None \<or> (\<exists>w. id_file st = Some w \<and> parse w = None)"
    and "\<forall>b. b \<noteq> a \<longrightarrow> \<not> writing (id_procs st b)" and "knows parse f c"
  shows "identity_ok parse (now_at a c (st\<lparr>id_file := f\<rparr>))"
proof -
  have "knows parse f (id_procs st b)" if "b \<noteq> a" for b
    using knows_grows [OF _ assms(2)] assms(1,3) that by (simp add: identity_ok_def)
  with assms(3,4) show ?thesis by (auto simp: identity_ok_def)
qed

lemma knows_attempt [simp]: "knows parse f (id_attempt i)" "\<not> writing (id_attempt i)"
  by (simp_all add: id_attempt_def writing_def)

lemma not_writing [simp]:
  "\<not> writing Begin" "\<not> writing (Attempt i)" "\<not> writing (Create i)" "\<not> writing (Close u)" "\<not> writing (Returned r)" "\<not> writing Killed"
  "writing (Write w rest)"
  by (simp_all add: writing_def)

lemma identity_step_ok:
  assumes ok: "identity_ok parse st" and "proper_event parse e" and "parse [] = None"
  shows "identity_ok parse (identity_step parse e st)"
proof (cases e)
  case (Creates a u b)
  have "proper_id parse u" using assms(2) by (simp add: Creates proper_event_def)
  moreover have "\<not> writing (id_procs st b)" if "id_file st = None" for b
    using ok that unfolding identity_ok_def writing_def by (metis knows.simps(1) option.distinct(1))
  moreover from calculation(1) have "u \<noteq> []" using assms(3) proper_nonempty by blast
  ultimately have "identity_ok parse (now_at a (Write [] u) (st\<lparr>id_file := Some []\<rparr>))" if "id_file st = None"
    using that by (intro identity_ok_file [OF ok]) simp_all
  with ok show ?thesis by (auto simp: Creates intro!: identity_ok_now split: proc.split)
next
  case (Writes a k)
  show ?thesis
  proof (cases "id_procs st a")
    case (Write w rest)
    with ok have w: "id_file st = Some w" "rest \<noteq> []" "proper_id parse (w @ rest)"
      unfolding identity_ok_def by (metis knows.simps(1))+
    have "w @ take k rest @ drop k rest = w @ rest" by simp
    with w(3) have "knows parse (Some (w @ take k rest)) (if drop k rest = [] then Close (w @ rest) else Write (w @ take k rest) (drop k rest))"
      by (auto simp: proper_id_def)
    moreover have "\<forall>b. b \<noteq> a \<longrightarrow> \<not> writing (id_procs st b)" using ok Write unfolding identity_ok_def by (metis not_writing(7))
    moreover have "parse w = None" using proper_part [OF w(3,2)] .
    ultimately show ?thesis
      using ok w(1) Write by (simp add: Writes put_at_end identity_ok_file del: knows.simps)
  qed (use ok in \<open>simp_all add: Writes\<close>)
next
  case (Closes a b)
  have "knows parse (id_file st) (Returned (Inr u))" if "id_procs st a = Close u" for u
    using ok that unfolding identity_ok_def by (metis knows.simps(2,3))
  with ok show ?thesis by (auto simp: Closes intro!: identity_ok_now split: proc.split simp del: knows.simps(3))
next
  case (Reads a b)
  with ok show ?thesis by (auto intro!: identity_ok_now split: proc.split option.split)
qed (use ok in \<open>auto intro!: identity_ok_now split: proc.split\<close>)

lemma identity_ok_start: "identity_ok parse (identity_start content)"
  by (simp add: identity_ok_def identity_start_def)

lemma identity_ok_run:
  "identity_ok parse st \<Longrightarrow> list_all (proper_event parse) es \<Longrightarrow> parse [] = None \<Longrightarrow> identity_ok parse (identity_run parse es st)"
  by (induction es arbitrary: st) (simp_all add: identity_step_ok)

section \<open>One id for all\<close>

lemma returned_file:
  "identity_ok parse st \<Longrightarrow> id_procs st a = Returned (Inr u) \<Longrightarrow> \<exists>c. id_file st = Some c \<and> parse c = Some u"
  unfolding identity_ok_def by (metis knows.simps(3))

text \<open>
  C31. All hubs over one directory have one id.  Whatever the file holds at first, however many hubs are started, at
  once or one after the other, however their calls interleave, which of them the system fails and which are killed
  half-way: all that return an id return the same, and it is the one the file holds.
\<close>

theorem identity_shared:
  assumes "st = identity_run parse es (identity_start content)" and "list_all (proper_event parse) es" and "parse [] = None"
    and "id_procs st a = Returned (Inr u)" and "id_procs st b = Returned (Inr v)"
  shows "u = v \<and> (\<exists>c. id_file st = Some c \<and> parse c = Some u)"
proof -
  have "identity_ok parse st" unfolding assms(1) using assms(2,3) by (intro identity_ok_run identity_ok_start)
  from returned_file [OF this assms(4)] returned_file [OF this assms(5)] show ?thesis by auto
qed

text \<open>Two hubs that find no file: the second is late with its id, reads half of the first's, and tries again.\<close>

definition id_length :: "jstr \<Rightarrow> jstr option" where
  "id_length c = (if length c = 36 then Some c else None)"

definition racing_hubs :: "id_event list" where
  "racing_hubs = [MakesDir 0 True, MakesDir 1 True, Reads 0 True, Reads 1 True, Creates 0 (replicate 36 48) True,
     Creates 1 (replicate 36 49) True, Writes 0 20, Reads 1 True, Writes 0 16, Reads 1 True, Closes 0 True]"

lemma racing_hubs_run:
  "id_procs (identity_run id_length racing_hubs (identity_start None)) = (\<lambda>_. Begin)(0 := Returned (Inr (replicate 36 48)), 1 := Returned (Inr (replicate 36 48)))"
  by (simp add: racing_hubs_def identity_start_def id_attempt_def put_at_def id_length_def fun_eq_iff flip: replicate_add)

theorem identity_shared_witness:
  "id_procs (identity_run id_length racing_hubs (identity_start None)) 1 = Returned (Inr (replicate 36 48))
    \<and> (\<exists>c. id_file (identity_run id_length racing_hubs (identity_start None)) = Some c \<and> id_length c = Some (replicate 36 48))"
proof -
  have "list_all (proper_event id_length) racing_hubs"
    by (simp add: racing_hubs_def proper_event_def proper_id_def id_length_def)
  moreover have "id_length [] = None" by (simp add: id_length_def)
  ultimately show ?thesis
    using identity_shared [OF HOL.refl, of id_length racing_hubs None 0 "replicate 36 48" 1 "replicate 36 48"] racing_hubs_run by simp
qed

section \<open>A file without an id\<close>

text \<open>
  \<open>OpenFile\<close> and \<open>WriteString\<close> are two calls.  A hub that is killed between them, or cannot write because the disk is full, leaves a
  file that holds no id, and nothing ever replaces it: from then on no hub over the directory gets one, which
  turns the discovery off for good.
\<close>

fun no_id :: "proc \<Rightarrow> bool" where
  "no_id (Write w rest) = False"
| "no_id (Close u) = False"
| "no_id (Returned (Inr u)) = False"
| "no_id _ = True"

definition idle :: "id_dir \<Rightarrow> bool" where
  "idle st \<longleftrightarrow> (\<forall>a. no_id (id_procs st a))"

lemma no_id_attempt [simp]: "no_id (id_attempt i)"
  by (simp add: id_attempt_def)

lemma idle_now: "idle st \<Longrightarrow> no_id c \<Longrightarrow> idle (now_at a c st)"
  by (simp add: idle_def)

lemma broken_step:
  assumes "idle st" and "id_file st = Some c" and "parse c = None"
  shows "idle (identity_step parse e st) \<and> id_file (identity_step parse e st) = Some c"
proof -
  have "no_id (id_procs st a)" for a using assms(1) by (simp add: idle_def)
  then have "id_procs st a \<noteq> Write w rest" "id_procs st a \<noteq> Close u" for a w rest u by (metis no_id.simps(1), metis no_id.simps(2))
  with assms show ?thesis by (cases e) (auto intro!: idle_now split: proc.split)
qed

lemma broken_identity:
  assumes "idle st" and "id_file st = Some c" and "parse c = None"
  shows "id_procs (identity_run parse es st) a \<noteq> Returned (Inr u)"
proof -
  have "idle (identity_run parse es st)"
    using assms by (induction es arbitrary: st) (simp_all add: broken_step)
  then show ?thesis unfolding idle_def by (metis no_id.simps(3))
qed

text \<open>Killed after \<open>OpenFile\<close>: every later hub makes its twenty attempts in vain.\<close>

lemma killed_while_creating:
  assumes "parse [] = None"
  shows "id_procs (identity_run parse ([MakesDir 0 True, Reads 0 True, Creates 0 x True, Dies 0] @ es) (identity_start None)) a \<noteq> Returned (Inr u)"
proof -
  let ?st = "identity_run parse [MakesDir 0 True, Reads 0 True, Creates 0 x True, Dies 0] (identity_start None)"
  have "idle ?st" "id_file ?st = Some []"
    by (simp_all add: idle_def identity_start_def id_attempt_def)
  with broken_identity [of ?st "[]" parse es a u] assms show ?thesis by (simp add: identity_run_def)
qed

end
