(* ===== verification/Meter.thy ===== *)
theory Meter
  imports Sending Complex_Main
begin

text \<open>
  The speed an upload card shows (web/static/app.js: \<open>createUploadCard\<close>): \<open>update\<close> measures it over periods of at least half
  a second.  Times are the milliseconds of \<open>performance.now()\<close>; times and speeds are exact fractions here where the page uses
  binary floating point, and \<open>show_number\<close> is how the page writes a fraction.
\<close>

section \<open>Measuring\<close>

record meter =
  lastBytes :: int
  lastTime :: rat
  meter_speed :: rat

definition new_meter :: "rat \<Rightarrow> meter" where
  "new_meter t0 = \<lparr>lastBytes = 0, lastTime = t0, meter_speed = 0\<rparr>"

definition measure_at :: "rat \<Rightarrow> int \<Rightarrow> meter \<Rightarrow> meter" where
  "measure_at t bytes m =
     (if 500 \<le> t - lastTime m
      then \<lparr>lastBytes = bytes, lastTime = t, meter_speed = of_int (bytes - lastBytes m) / (t - lastTime m) * 1000\<rparr>
      else m)"

text \<open>\<open>formatSize\<close> of a speed.\<close>

definition rounded_tenths :: "rat \<Rightarrow> nat" where
  "rounded_tenths x = nat \<lfloor>10 * x + 1 / 2\<rfloor>"

definition format_speed :: "(rat \<Rightarrow> jstr) \<Rightarrow> rat \<Rightarrow> jstr" where
  "format_speed show_number v =
     (if v < 1024 then show_number v @ lit '' B''
      else if v < 1024 * 1024 then show_tenths (rounded_tenths (v / 1024)) @ lit '' KB''
      else show_tenths (rounded_tenths (v / (1024 * 1024))) @ lit '' MB'')"

definition speed_text :: "(rat \<Rightarrow> jstr) \<Rightarrow> meter \<Rightarrow> jstr" where
  "speed_text show_number m = (if 0 < meter_speed m then format_speed show_number (meter_speed m) @ lit ''/s'' else [])"

definition remaining_time :: "nat \<Rightarrow> nat \<Rightarrow> meter \<Rightarrow> int" where
  "remaining_time sz bytes m = (if 0 < meter_speed m then \<lceil>of_int (int sz - int bytes) / meter_speed m\<rceil> else 0)"

text \<open>\<open>update(bytes, note)\<close> at a time.\<close>

definition measured_card ::
    "(rat \<Rightarrow> jstr) \<Rightarrow> rat \<Rightarrow> nat \<Rightarrow> nat \<Rightarrow> jstr option \<Rightarrow> meter \<Rightarrow> meter \<times> card_view" where
  "measured_card show_number t sz bytes note m =
     (let m' = measure_at t (int bytes) m
      in (m', update_card (speed_text show_number m') (nat (remaining_time sz bytes m')) sz bytes note))"

section \<open>What is shown was measured\<close>

text \<open>Updates, with their times.\<close>

definition meter_after :: "rat \<Rightarrow> (rat \<times> int) list \<Rightarrow> meter" where
  "meter_after t0 us = foldl (\<lambda>m (t, b). measure_at t b m) (new_meter t0) us"

lemma meter_after_snoc: "meter_after t0 (us @ [(t, b)]) = measure_at t b (meter_after t0 us)"
  by (simp add: meter_after_def)

text \<open>
  The speed is none yet, or the exact mean between two updates at least half a second apart, the start, with no octets, counting
  as one of them; the second is the last that was measured.
\<close>

definition mean_between :: "rat \<times> int \<Rightarrow> rat \<times> int \<Rightarrow> rat \<Rightarrow> bool" where
  "mean_between u v s \<longleftrightarrow> 500 \<le> fst v - fst u \<and> s * (fst v - fst u) = of_int (snd v - snd u) * 1000"

lemma speed_measured:
  "(lastTime (meter_after t0 us), lastBytes (meter_after t0 us)) \<in> set ((t0, 0) # us)
   \<and> (meter_speed (meter_after t0 us) = 0
      \<or> (\<exists>u \<in> set ((t0, 0) # us). mean_between u (lastTime (meter_after t0 us), lastBytes (meter_after t0 us))
           (meter_speed (meter_after t0 us))))"
proof (induction us rule: rev_induct)
  case Nil
  then show ?case by (simp add: meter_after_def new_meter_def)
next
  case (snoc x us)
  obtain t b where x: "x = (t, b)" by (cases x)
  let ?m = "meter_after t0 us"
  show ?case
  proof (cases "500 \<le> t - lastTime ?m")
    case True
    then have "mean_between (lastTime ?m, lastBytes ?m) (t, b) (of_int (b - lastBytes ?m) / (t - lastTime ?m) * 1000)"
      by (simp add: mean_between_def)
    with True snoc show ?thesis by (auto simp: x meter_after_snoc measure_at_def)
  next
    case False
    with snoc show ?thesis by (auto simp: x meter_after_snoc measure_at_def)
  qed
qed

text \<open>The remaining time is never less than what the rest takes at that speed, and less than a second more.\<close>

lemma remaining_enough:
  assumes "0 < meter_speed m" and "bytes \<le> sz"
  shows "of_nat (sz - bytes) \<le> of_int (remaining_time sz bytes m) * meter_speed m"
    and "of_int (remaining_time sz bytes m) * meter_speed m < of_nat (sz - bytes) + meter_speed m"
proof -
  let ?q = "of_nat (sz - bytes) / meter_speed m"
  have r: "remaining_time sz bytes m = \<lceil>?q\<rceil>" using assms by (simp add: remaining_time_def of_nat_diff)
  have "?q \<le> of_int \<lceil>?q\<rceil>" and "of_int \<lceil>?q\<rceil> < ?q + 1" by linarith+
  from mult_right_mono [OF this(1), of "meter_speed m"] mult_strict_right_mono [OF this(2), of "meter_speed m"] assms(1)
  show "of_nat (sz - bytes) \<le> of_int (remaining_time sz bytes m) * meter_speed m"
    "of_int (remaining_time sz bytes m) * meter_speed m < of_nat (sz - bytes) + meter_speed m"
    unfolding r by (simp_all add: distrib_right)
qed

section \<open>After an interruption\<close>

text \<open>
  The card of a resumed upload starts from no octets too: the first speed shown counts what the hub has kept from before as sent in
  that period, and the remaining time is too short by as much.  An upload resumed at 400 MiB that has sent one more MiB in its
  first second shows 401.0 MB/s.
\<close>

lemma resumed_speed:
  assumes "500 \<le> t"
  shows "meter_speed (meter_after 0 [(1, stored), (t, stored + sent)]) = of_int (stored + sent) / t * 1000"
  using assms by (simp add: meter_after_def new_meter_def measure_at_def)

lemma resumed_speed_shown:
  "speed_text show_number (meter_after 0 [(1, 400 * 2 ^ 20), (1000, 401 * 2 ^ 20)]) = lit ''401.0 MB/s''"
proof -
  obtain m where m: "m = meter_after 0 [(1, 400 * 2 ^ 20), (1000, 401 * 2 ^ 20)]" by blast
  have s: "meter_speed m = 401 * (1024 * 1024)" unfolding m by (simp add: meter_after_def new_meter_def measure_at_def)
  have "\<lfloor>8021 / 2 :: rat\<rfloor> = 4010" by linarith
  then have "rounded_tenths 401 = 4010" by (simp add: rounded_tenths_def)
  then show ?thesis unfolding m [symmetric]
    by (simp add: speed_text_def s format_speed_def show_tenths_def show_nat_big show_nat_small js_eval)
qed

end
